(* ===== verification/Prelude.thy ===== *)
theory Prelude
  imports Main "HOL-Library.Word" "HOL-Library.Monad_Syntax"
begin

unbundle bit_operations_syntax

text \<open>
  Shared ground of the development: the widths of Go's unsigned integers, byte slices and the
  way Go code writes into them, big-endian integers as the package \<^verbatim>\<open>encoding/binary\<close> lays them
  out, runtime panics, and the generic list lemmas the components use.

  A Go slice is a list (a nil slice and an empty one behave alike in every place the sources
  use them), a Go string is a list of bytes (\<^typ>\<open>string\<close>), a Go map is a partial function
  \<open>'k \<rightharpoonup> 'v\<close>. Where the sources range over a map, whose order Go leaves open, the
  definitions take the order as an argument.
\<close>

named_theorems wire \<open>layout of encoded bytes\<close>

type_synonym byte = "8 word"
type_synonym bytes = "8 word list"
type_synonym u8 = "8 word"
type_synonym u16 = "16 word"
type_synonym u32 = "32 word"
type_synonym u64 = "64 word"

datatype go_panic =
    IndexPanic            \<comment> \<open>index or slice bounds out of range\<close>
  | NilPanic              \<comment> \<open>nil pointer dereference\<close>
  | DividePanic           \<comment> \<open>integer divide by zero\<close>
  | UserPanic string      \<comment> \<open>an explicit call of panic\<close>

section \<open>Results\<close>

text \<open>Sequencing of computations that return \<^verbatim>\<open>(value, error)\<close>: the first error wins.\<close>

definition sum_bind :: "'e + 'a \<Rightarrow> ('a \<Rightarrow> 'e + 'b) \<Rightarrow> 'e + 'b" where
  "sum_bind r f = (case r of Inl e \<Rightarrow> Inl e | Inr a \<Rightarrow> f a)"

lemma sum_bind_simps [simp]:
  "sum_bind (Inl e) f = Inl e"
  "sum_bind (Inr a) f = f a"
  by (simp_all add: sum_bind_def)

lemma sum_bind_Inr_iff:
  "sum_bind r f = Inr b \<longleftrightarrow> (\<exists>a. r = Inr a \<and> f a = Inr b)"
  by (cases r) auto

section \<open>Writing into byte slices\<close>

text \<open>
  \<^verbatim>\<open>copy(buf[off:], src)\<close>: as many bytes of \<open>src\<close> as fit are written from \<open>off\<close> on.
\<close>

definition copy_at :: "nat \<Rightarrow> 'a list \<Rightarrow> 'a list \<Rightarrow> 'a list" where
  "copy_at off src buf =
     take off buf @ take (length buf - off) src @ drop (off + length src) buf"

lemma length_copy_at [simp]: "off \<le> length buf \<Longrightarrow> length (copy_at off src buf) = length buf"
  by (simp add: copy_at_def min_def)

lemma copy_at_fill:
  "copy_at (length xs) src (xs @ replicate (length src) z @ ys) = xs @ src @ ys"
  by (simp add: copy_at_def)

lemma copy_at_fill_end:
  "copy_at (length xs) src (xs @ replicate (length src) z) = xs @ src"
  using copy_at_fill [of xs src z "[]"] by simp

section \<open>Big-endian integers\<close>

text \<open>
  \<open>be_put n v\<close> is what \<^verbatim>\<open>binary.BigEndian.PutUint16/32/64\<close> writes for \<open>n\<close> = 2, 4, 8;
  \<open>be_get\<close> is \<^verbatim>\<open>Uint16/32/64\<close> on exactly that many bytes.
\<close>

fun be_put :: "nat \<Rightarrow> 'a::len word \<Rightarrow> bytes" where
  "be_put 0 v = []"
| "be_put (Suc n) v = ucast (drop_bit (8 * n) v) # be_put n v"

fun be_get :: "bytes \<Rightarrow> 'a::len word" where
  "be_get [] = 0"
| "be_get (b # bs) = push_bit (8 * length bs) (ucast b) OR be_get bs"

lemma length_be_put [simp]: "length (be_put n v) = n"
  by (induction n) auto

lemma be_get_be_put_take: "be_get (be_put n (v::'a::len word)) = take_bit (8 * n) v"
proof (induction n)
  case 0
  show ?case by simp
next
  case (Suc n)
  have "push_bit (8 * n) (ucast (ucast (drop_bit (8 * n) v) :: 8 word)) OR take_bit (8 * n) v
        = take_bit (8 * Suc n) v"
    by (rule bit_word_eqI) (auto simp: bit_simps)
  with Suc show ?case by simp
qed

lemma be_get_be_put:
  assumes "LENGTH('a::len) = 8 * n"
  shows "be_get (be_put n v) = (v :: 'a word)"
proof -
  have "take_bit (8 * n) v = v"
    unfolding assms [symmetric] by (rule bit_word_eqI) (auto simp: bit_simps)
  then show ?thesis by (simp add: be_get_be_put_take)
qed

lemma be_get_u16 [simp, wire]: "be_get (be_put 2 v) = (v :: u16)"
  by (rule be_get_be_put) simp

lemma be_get_u32 [simp, wire]: "be_get (be_put 4 v) = (v :: u32)"
  by (rule be_get_be_put) simp

lemma be_get_u64 [simp, wire]: "be_get (be_put 8 v) = (v :: u64)"
  by (rule be_get_be_put) simp

lemma be_put_eq_iff:
  assumes "LENGTH('a::len) = 8 * n"
  shows "be_put n v = be_put n w \<longleftrightarrow> v = (w :: 'a word)"
proof
  assume "be_put n v = be_put n w"
  then have "(be_get (be_put n v) :: 'a word) = be_get (be_put n w)" by simp
  then show "v = w" by (simp only: be_get_be_put [OF assms])
qed simp

lemma be_get_bit_bound: "bit (be_get bs :: 'a::len word) k \<Longrightarrow> k < 8 * length bs"
  by (induction bs) (fastforce simp: bit_simps dest: bit_imp_le_length)+

lemma be_put_cong_low:
  assumes "\<And>k. k < 8 * n \<Longrightarrow> bit v k \<longleftrightarrow> bit (w :: 'a::len word) k"
  shows "be_put n v = be_put n w"
  using assms
proof (induction n)
  case 0
  show ?case by simp
next
  case (Suc n)
  have "(ucast (drop_bit (8 * n) v) :: byte) = ucast (drop_bit (8 * n) w)"
    by (rule bit_word_eqI) (auto simp: bit_simps Suc.prems)
  moreover have "be_put n v = be_put n w"
    by (rule Suc.IH) (simp add: Suc.prems)
  ultimately show ?case by simp
qed

text \<open>The other direction of the round trip: every byte sequence of the right length is the
  encoding of the number it decodes to.\<close>

lemma be_put_be_get:
  assumes "8 * length bs \<le> LENGTH('a::len)"
  shows "be_put (length bs) (be_get bs :: 'a word) = bs"
  using assms
proof (induction bs)
  case Nil
  show ?case by simp
next
  case (Cons b bs)
  let ?n = "length bs" and ?x = "be_get bs :: 'a word"
  let ?v = "push_bit (8 * ?n) (ucast b) OR ?x"
  have "(ucast (drop_bit (8 * ?n) ?v) :: byte) = b"
    by (rule bit_word_eqI) (use Cons.prems in \<open>auto simp: bit_simps dest: be_get_bit_bound\<close>)
  moreover have "be_put ?n ?v = be_put ?n ?x"
    by (rule be_put_cong_low) (auto simp: bit_simps)
  ultimately show ?case using Cons by simp
qed

section \<open>Word lemmas\<close>

lemma unat_of_nat_small:
  "n < 2 ^ LENGTH('a::len) \<Longrightarrow> unat (of_nat n :: 'a word) = n"
  by (simp add: unat_of_nat take_bit_nat_eq_self)

lemma of_nat_word_eq_0_iff:
  "n < 2 ^ LENGTH('a::len) \<Longrightarrow> (of_nat n :: 'a word) = 0 \<longleftrightarrow> n = 0"
  by (simp add: unat_eq_0 [symmetric] unat_of_nat_small del: unat_eq_0)

lemma of_nat_word_le_iff:
  "n < 2 ^ LENGTH('a::len) \<Longrightarrow> (of_nat n :: 'a word) \<le> w \<longleftrightarrow> n \<le> unat w"
  by (simp add: word_le_nat_alt unat_of_nat_small)

section \<open>Lists\<close>

lemma nth_take_drop_split: "i < length xs \<Longrightarrow> xs = take i xs @ xs ! i # drop (Suc i) xs"
  by (rule id_take_nth_drop)

lemma sum_list_update_nat:
  "i < length xs \<Longrightarrow> sum_list (xs[i := (v::int)]) = sum_list xs - xs ! i + v"
  by (induction xs arbitrary: i) (auto split: nat.split)

lemma count_list_replicate [simp]:
  "count_list (replicate n x) y = (if x = y then n else 0)"
  by (induction n) auto

end
