(* ===== verification/Frame.thy ===== *)
theory Frame
  imports Go_Strings
begin

text \<open>
  The wire protocol of \<^verbatim>\<open>micro/net\<close>: \<^verbatim>\<open>frame.go\<close> and the stream helpers of \<^verbatim>\<open>common.go\<close>. A frame
  is a fixed header of 22 bytes followed by a variable header and a body whose lengths the
  fixed header carries. \<^verbatim>\<open>Encode\<close> builds the whole frame in one buffer; \<^verbatim>\<open>writeFrame\<close> writes the
  same bytes to an \<^verbatim>\<open>io.Writer\<close> through a pooled scratch buffer; \<^verbatim>\<open>DecodeFrame\<close> reads them back
  through a callback, which \<^verbatim>\<open>readFrame\<close> instantiates with \<^verbatim>\<open>io.ReadFull\<close>.
\<close>

section \<open>Data\<close>

record Frame =
  Magic :: u16
  Version :: u8
  MsgType :: u8
  Flags :: u8
  RequestID :: u64
  Header :: bytes
  Body :: bytes

record frameLimits =
  maxHeader :: u32
  maxBody :: u32

definition MessageTypeRequest :: u8 where "MessageTypeRequest = 1"
definition MessageTypeResponse :: u8 where "MessageTypeResponse = 2"
definition MessageTypeHeartbeat :: u8 where "MessageTypeHeartbeat = 3"
definition MessageTypePing :: u8 where "MessageTypePing = 4"
definition MessageTypePong :: u8 where "MessageTypePong = 5"

lemmas MessageType_defs =
  MessageTypeRequest_def MessageTypeResponse_def MessageTypeHeartbeat_def
  MessageTypePing_def MessageTypePong_def

definition frameMagic :: u16 where "frameMagic = 0x4D4E"
definition frameVersion :: u8 where "frameVersion = 1"
definition frameHeaderLen :: nat where "frameHeaderLen = 22"
definition defaultMaxBodySize :: u32 where "defaultMaxBodySize = 16 * 1024 * 1024"
definition defaultMaxHeaderSize :: u32 where "defaultMaxHeaderSize = 64 * 1024"

definition FlagOneWay :: u8 where "FlagOneWay = 1"
definition FlagError :: u8 where "FlagError = 2"

datatype 'io frame_error =
    ErrInvalidMagic u16
  | ErrUnknownVersion u8
  | ErrLargeHeader nat
  | ErrLargeBody nat
  | IOError 'io

definition defaultLimits :: frameLimits where
  "defaultLimits = \<lparr>maxHeader = defaultMaxHeaderSize, maxBody = defaultMaxBodySize\<rparr>"

definition NewFrame :: "u8 \<Rightarrow> u64 \<Rightarrow> bytes \<Rightarrow> bytes \<Rightarrow> Frame" where
  "NewFrame msgType requestID header body =
     \<lparr>Magic = frameMagic, Version = frameVersion, MsgType = msgType, Flags = 0,
      RequestID = requestID, Header = header, Body = body\<rparr>"

text \<open>Go's conversions between \<^verbatim>\<open>string\<close> and \<^verbatim>\<open>[]byte\<close>.\<close>

definition bytes_of_string :: "string \<Rightarrow> bytes" where
  "bytes_of_string s = map (\<lambda>c. of_nat (of_char c)) s"

definition string_of_bytes :: "bytes \<Rightarrow> string" where
  "string_of_bytes bs = map (\<lambda>b. char_of (unat b)) bs"

lemma string_of_bytes_of_string [simp]: "string_of_bytes (bytes_of_string s) = s"
  by (induction s) (simp_all add: string_of_bytes_def bytes_of_string_def unat_of_nat)

text \<open>The error text sent to the peer; \<^const>\<open>None\<close> is a nil error.\<close>

definition NewErrorFrame :: "u64 \<Rightarrow> string option \<Rightarrow> Frame" where
  "NewErrorFrame requestID err =
     (let msg = (case err of None \<Rightarrow> ''unknown error'' | Some m \<Rightarrow> m);
          f = NewFrame MessageTypeResponse requestID [] (bytes_of_string msg)
      in f\<lparr>Flags := Flags f OR FlagError\<rparr>)"

section \<open>Encoding\<close>

definition validate :: "Frame \<Rightarrow> frameLimits \<Rightarrow> 'io frame_error option" where
  "validate f lim =
     (if Magic f \<noteq> 0 \<and> Magic f \<noteq> frameMagic then Some (ErrInvalidMagic (Magic f))
      else if Version f \<noteq> 0 \<and> Version f \<noteq> frameVersion then Some (ErrUnknownVersion (Version f))
      else if (of_nat (length (Header f)) :: u32) > maxHeader lim
      then Some (ErrLargeHeader (length (Header f)))
      else if (of_nat (length (Body f)) :: u32) > maxBody lim
      then Some (ErrLargeBody (length (Body f)))
      else None)"

text \<open>The writes of the fixed header, in the order of the source, into a buffer of at least
  22 bytes.\<close>

definition writeHeaderFields :: "bytes \<Rightarrow> Frame \<Rightarrow> u32 \<Rightarrow> u32 \<Rightarrow> bytes" where
  "writeHeaderFields buf f headerLen bodyLen =
     (let buf = copy_at 0 (be_put 2 (Magic f)) buf;
          buf = buf[2 := Version f];
          buf = buf[3 := MsgType f];
          buf = buf[4 := Flags f];
          buf = buf[5 := 0];
          buf = copy_at 6 (be_put 4 headerLen) buf;
          buf = copy_at 10 (be_put 4 bodyLen) buf
      in copy_at 14 (be_put 8 (RequestID f)) buf)"

definition EncodeWithLimits :: "Frame \<Rightarrow> frameLimits \<Rightarrow> 'io frame_error + bytes" where
  "EncodeWithLimits f lim =
     (case validate f lim of
        Some e \<Rightarrow> Inl e
      | None \<Rightarrow>
          (let headerLen = length (Header f);
               bodyLen = length (Body f);
               totalLen = frameHeaderLen + headerLen + bodyLen;
               buf = replicate totalLen 0;
               buf = writeHeaderFields buf f (of_nat headerLen) (of_nat bodyLen);
               buf = copy_at frameHeaderLen (Header f) buf;
               buf = copy_at (frameHeaderLen + headerLen) (Body f) buf
           in Inr buf))"

definition Encode :: "Frame \<Rightarrow> 'io frame_error + bytes" where
  "Encode f = EncodeWithLimits f defaultLimits"

section \<open>Writing to a stream\<close>

text \<open>
  An \<^verbatim>\<open>io.Writer\<close> is code of the environment: a function from its state and the data to the
  new state, the count of bytes written and an error.
\<close>

type_synonym ('w, 'e) writer = "'w \<Rightarrow> bytes \<Rightarrow> 'w \<times> int \<times> 'e option"

datatype 'e write_error = WriteErr 'e | ErrShortWrite | WritePanic go_panic

function writeFull :: "('w, 'e) writer \<Rightarrow> 'w \<Rightarrow> bytes \<Rightarrow> 'w \<times> 'e write_error option" where
  "writeFull wr w data =
     (if data = [] then (w, None)
      else case wr w data of (w', n, err) \<Rightarrow>
        (case err of
           Some e \<Rightarrow> (w', Some (WriteErr e))
         | None \<Rightarrow>
             if n = 0 then (w', Some ErrShortWrite)
             else if n < 0 \<or> n > int (length data) then (w', Some (WritePanic IndexPanic))
             else writeFull wr w' (drop (nat n) data)))"
  by pat_completeness auto
termination
  by (relation "measure (\<lambda>(wr, w, data). length data)") auto

declare writeFull.simps [simp del]

text \<open>The scratch buffer comes from a pool and holds whatever the last frame left in it.\<close>

definition writeFrame ::
  "('w, 'e) writer \<Rightarrow> 'w \<Rightarrow> bytes \<Rightarrow> Frame \<Rightarrow> frameLimits \<Rightarrow> 'w \<times> 'e write_error frame_error option"
where
  "writeFrame wr w scratch f lim =
     (case validate f lim of
        Some e \<Rightarrow> (w, Some e)
      | None \<Rightarrow>
          (let hdr = writeHeaderFields scratch f (of_nat (length (Header f))) (of_nat (length (Body f)))
           in case writeFull wr w hdr of
                (w1, Some e) \<Rightarrow> (w1, Some (IOError e))
              | (w1, None) \<Rightarrow>
                  (case (if 0 < length (Header f) then writeFull wr w1 (Header f) else (w1, None)) of
                     (w2, Some e) \<Rightarrow> (w2, Some (IOError e))
                   | (w2, None) \<Rightarrow>
                       (case (if 0 < length (Body f) then writeFull wr w2 (Body f) else (w2, None)) of
                          (w3, Some e) \<Rightarrow> (w3, Some (IOError e))
                        | (w3, None) \<Rightarrow> (w3, None)))))"

section \<open>Decoding\<close>

text \<open>The callback fills a buffer of the given length or returns an error.\<close>

type_synonym ('s, 'io) read_full = "'s \<Rightarrow> nat \<Rightarrow> ('io + bytes) \<times> 's"

definition DecodeFrameWithLimits ::
  "('s, 'io) read_full \<Rightarrow> frameLimits \<Rightarrow> 's \<Rightarrow> ('io frame_error + Frame) \<times> 's"
where
  "DecodeFrameWithLimits readFullFn lim s =
     (case readFullFn s frameHeaderLen of
        (Inl e, s1) \<Rightarrow> (Inl (IOError e), s1)
      | (Inr header, s1) \<Rightarrow>
          (let f = \<lparr>Magic = be_get (take 2 header), Version = header ! 2, MsgType = header ! 3,
                    Flags = header ! 4, RequestID = be_get (take 8 (drop 14 header)),
                    Header = [], Body = []\<rparr>;
               headerLen = be_get (take 4 (drop 6 header)) :: u32;
               bodyLen = be_get (take 4 (drop 10 header)) :: u32
           in if Magic f \<noteq> frameMagic then (Inl (ErrInvalidMagic (Magic f)), s1)
              else if Version f \<noteq> frameVersion then (Inl (ErrUnknownVersion (Version f)), s1)
              else if headerLen > maxHeader lim then (Inl (ErrLargeHeader (unat headerLen)), s1)
              else if bodyLen > maxBody lim then (Inl (ErrLargeBody (unat bodyLen)), s1)
              else
                (case (if headerLen > 0 then readFullFn s1 (unat headerLen) else (Inr [], s1)) of
                   (Inl e, s2) \<Rightarrow> (Inl (IOError e), s2)
                 | (Inr hdr, s2) \<Rightarrow>
                     (case (if bodyLen > 0 then readFullFn s2 (unat bodyLen) else (Inr [], s2)) of
                        (Inl e, s3) \<Rightarrow> (Inl (IOError e), s3)
                      | (Inr bdy, s3) \<Rightarrow> (Inr (f\<lparr>Header := hdr, Body := bdy\<rparr>), s3)))))"

definition DecodeFrame :: "('s, 'io) read_full \<Rightarrow> 's \<Rightarrow> ('io frame_error + Frame) \<times> 's" where
  "DecodeFrame readFullFn s = DecodeFrameWithLimits readFullFn defaultLimits s"

text \<open>
  \<^verbatim>\<open>io.ReadFull\<close> on a connection whose remaining input is a byte list that ends when the peer
  closes.
\<close>

datatype io_error = EOF | ErrUnexpectedEOF

definition ReadFull :: "(bytes, io_error) read_full" where
  "ReadFull s n =
     (if n \<le> length s then (Inr (take n s), drop n s)
      else (Inl (if s = [] then EOF else ErrUnexpectedEOF), []))"

definition readFrame :: "bytes \<Rightarrow> frameLimits \<Rightarrow> (io_error frame_error + Frame) \<times> bytes" where
  "readFrame s lim = DecodeFrameWithLimits ReadFull lim s"

section \<open>Predicates and remote errors\<close>

definition IsOneWay :: "Frame \<Rightarrow> bool" where
  "IsOneWay f \<longleftrightarrow> Flags f AND FlagOneWay \<noteq> 0"

definition IsError :: "Frame \<Rightarrow> bool" where
  "IsError f \<longleftrightarrow> Flags f AND FlagError \<noteq> 0"

definition IsHeartbeat :: "Frame \<Rightarrow> bool" where
  "IsHeartbeat f \<longleftrightarrow> MsgType f = MessageTypeHeartbeat \<or> MsgType f = MessageTypePing
     \<or> MsgType f = MessageTypePong"

definition ErrRateLimited_text :: string where "ErrRateLimited_text = ''rate limited''"
definition ErrHandlerPanic_text :: string where "ErrHandlerPanic_text = ''handler panic''"
definition ErrRemote_text :: string where "ErrRemote_text = ''remote error''"

text \<open>The errors a client sees for an error frame; all of them wrap \<^verbatim>\<open>ErrRemote\<close>.\<close>

datatype remote_error =
    RemoteRateLimited
  | RemoteHandlerPanic
  | RemoteError u64 string

definition remoteErrorFromFrame :: "Frame \<Rightarrow> remote_error" where
  "remoteErrorFromFrame f =
     (let msg = string_of_bytes (Body f)
      in if msg = ErrRateLimited_text then RemoteRateLimited
         else if msg = ErrHandlerPanic_text then RemoteHandlerPanic
         else RemoteError (RequestID f) msg)"

fun RemoteError_Error :: "remote_error \<Rightarrow> string" where
  "RemoteError_Error (RemoteError rid msg) = (if msg = '''' then ErrRemote_text else msg)"
| "RemoteError_Error RemoteRateLimited = ErrRemote_text @ '': '' @ ErrRateLimited_text"
| "RemoteError_Error RemoteHandlerPanic = ErrRemote_text @ '': '' @ ErrHandlerPanic_text"

section \<open>Layout of an encoded frame\<close>

text \<open>What the writes amount to: the fixed header with a given reserved byte.\<close>

definition header_bytes :: "byte \<Rightarrow> Frame \<Rightarrow> u32 \<Rightarrow> u32 \<Rightarrow> bytes" where
  "header_bytes r f headerLen bodyLen =
     be_put 2 (Magic f) @ [Version f, MsgType f, Flags f, r]
     @ be_put 4 headerLen @ be_put 4 bodyLen @ be_put 8 (RequestID f)"

definition frame_bytes :: "byte \<Rightarrow> Frame \<Rightarrow> bytes" where
  "frame_bytes r f =
     header_bytes r f (of_nat (length (Header f))) (of_nat (length (Body f))) @ Header f @ Body f"

lemma length_header_bytes [simp]: "length (header_bytes r f h b) = frameHeaderLen"
  by (simp add: header_bytes_def frameHeaderLen_def)

lemma copy_at_exact:
  "off = length xs \<Longrightarrow> length src = length ys \<Longrightarrow> copy_at off src (xs @ ys @ zs) = xs @ src @ zs"
  by (simp add: copy_at_def)

lemma list_of_length_22:
  assumes "length buf = 22 + k"
  obtains m a b c d hl bl rid rest where
    "buf = m @ [a, b, c, d] @ hl @ bl @ rid @ rest"
    "length m = 2" "length hl = 4" "length bl = 4" "length rid = 8" "length rest = k"
proof -
  have four: "\<exists>a b c d. take 4 (drop 2 buf) = [a, b, c, d]"
  proof -
    have "length (take 4 (drop 2 buf)) = Suc (Suc (Suc (Suc 0)))" using assms by simp
    then show ?thesis by (auto simp only: length_Suc_conv length_0_conv)
  qed
  then obtain a b c d where abcd: "take 4 (drop 2 buf) = [a, b, c, d]" by blast
  have "buf = take 2 buf @ take 4 (drop 2 buf) @ take 4 (drop 6 buf) @ take 4 (drop 10 buf)
              @ take 8 (drop 14 buf) @ drop 22 buf"
  proof -
    have step: "drop i buf = take j (drop i buf) @ drop (i + j) buf" for i j
    proof -
      have "drop (i + j) buf = drop j (drop i buf)" by (simp add: add.commute)
      then show ?thesis by (simp only: append_take_drop_id)
    qed
    have "buf = take 2 buf @ drop 2 buf" by simp
    also have "drop 2 buf = take 4 (drop 2 buf) @ drop 6 buf" using step [of 2 4] by simp
    also have "drop 6 buf = take 4 (drop 6 buf) @ drop 10 buf" using step [of 6 4] by simp
    also have "drop 10 buf = take 4 (drop 10 buf) @ drop 14 buf" using step [of 10 4] by simp
    also have "drop 14 buf = take 8 (drop 14 buf) @ drop 22 buf" using step [of 14 8] by simp
    finally show ?thesis by simp
  qed
  with abcd assms show ?thesis by (intro that) auto
qed

text \<open>
  Every byte of the fixed header is written: the result does not depend on what the buffer
  held, which is what makes the reuse of scratch buffers safe.
\<close>

lemma writeHeaderFields_eq:
  assumes "length buf = 22 + k"
  shows "writeHeaderFields buf f h b = header_bytes 0 f h b @ drop frameHeaderLen buf"
proof -
  obtain m a0 b0 c0 d0 hl bl rid rest where
    buf: "buf = m @ [a0, b0, c0, d0] @ hl @ bl @ rid @ rest" and
    len: "length m = 2" "length hl = 4" "length bl = 4" "length rid = 8" "length rest = k"
    using assms by (rule list_of_length_22)
  let ?m = "be_put 2 (Magic f)"
  let ?v = "[Version f, MsgType f, Flags f, 0] :: bytes"
  have s1: "copy_at 0 ?m buf = ?m @ [a0, b0, c0, d0] @ hl @ bl @ rid @ rest"
    using copy_at_exact [of 0 "[]" ?m m] len unfolding buf by simp
  have s2: "(copy_at 0 ?m buf)[2 := Version f, 3 := MsgType f, 4 := Flags f, 5 := 0]
            = ?m @ ?v @ hl @ bl @ rid @ rest"
    unfolding s1 by (simp add: list_update_append)
  have s3: "copy_at 6 (be_put 4 h) (?m @ ?v @ hl @ bl @ rid @ rest)
            = ?m @ ?v @ be_put 4 h @ bl @ rid @ rest"
    using copy_at_exact [of 6 "?m @ ?v" "be_put 4 h" hl "bl @ rid @ rest"] len by simp
  have s4: "copy_at 10 (be_put 4 b) (?m @ ?v @ be_put 4 h @ bl @ rid @ rest)
            = ?m @ ?v @ be_put 4 h @ be_put 4 b @ rid @ rest"
    using copy_at_exact [of 10 "?m @ ?v @ be_put 4 h" "be_put 4 b" bl "rid @ rest"] len by simp
  have s5: "copy_at 14 (be_put 8 (RequestID f)) (?m @ ?v @ be_put 4 h @ be_put 4 b @ rid @ rest)
            = ?m @ ?v @ be_put 4 h @ be_put 4 b @ be_put 8 (RequestID f) @ rest"
    using copy_at_exact [of 14 "?m @ ?v @ be_put 4 h @ be_put 4 b" "be_put 8 (RequestID f)" rid rest]
      len by simp
  have "drop frameHeaderLen buf = rest" using buf len by (simp add: frameHeaderLen_def)
  then show ?thesis
    by (simp only: writeHeaderFields_def Let_def s2 s3 s4 s5 header_bytes_def append_assoc)
qed

lemma EncodeWithLimits_eq:
  "EncodeWithLimits f lim =
     (case validate f lim of Some e \<Rightarrow> Inl e | None \<Rightarrow> Inr (frame_bytes 0 f))"
proof -
  let ?h = "of_nat (length (Header f)) :: u32" and ?b = "of_nat (length (Body f)) :: u32"
  let ?H = "header_bytes 0 f ?h ?b"
  let ?z = "replicate (22 + (length (Header f) + length (Body f))) (0::byte)"
  have w: "writeHeaderFields ?z f ?h ?b
           = ?H @ replicate (length (Header f)) 0 @ replicate (length (Body f)) 0"
    using writeHeaderFields_eq [of ?z "length (Header f) + length (Body f)" f ?h ?b]
    by (simp add: frameHeaderLen_def replicate_add)
  have c1: "copy_at frameHeaderLen (Header f)
              (?H @ replicate (length (Header f)) 0 @ replicate (length (Body f)) 0)
            = ?H @ Header f @ replicate (length (Body f)) 0"
    by (rule copy_at_exact) simp_all
  have c2: "copy_at (frameHeaderLen + length (Header f)) (Body f)
              (?H @ Header f @ replicate (length (Body f)) 0) = frame_bytes 0 f"
    using copy_at_exact [of "frameHeaderLen + length (Header f)" "?H @ Header f" "Body f"
        "replicate (length (Body f)) 0" "[]"]
    by (simp add: frame_bytes_def)
  show ?thesis
    using w c1 c2
    by (simp add: EncodeWithLimits_def Let_def frameHeaderLen_def add.assoc split: option.split)
qed

section \<open>Reading a frame back\<close>

lemma ReadFull_append [simp]: "n = length xs \<Longrightarrow> ReadFull (xs @ ys) n = (Inr xs, ys)"
  by (simp add: ReadFull_def)

lemma header_bytes_fields [wire]:
  "take 2 (header_bytes r f h b) = be_put 2 (Magic f)"
  "header_bytes r f h b ! 2 = Version f"
  "header_bytes r f h b ! 3 = MsgType f"
  "header_bytes r f h b ! 4 = Flags f"
  "take 4 (drop 6 (header_bytes r f h b)) = be_put 4 h"
  "take 4 (drop 10 (header_bytes r f h b)) = be_put 4 b"
  "take 8 (drop 14 (header_bytes r f h b)) = be_put 8 (RequestID f)"
  by (simp_all add: header_bytes_def nth_append)

text \<open>What the decoder does once the fixed header is known.\<close>

lemma readFrame_header:
  "readFrame (header_bytes r f h b @ s1) lim =
     (if Magic f \<noteq> frameMagic then (Inl (ErrInvalidMagic (Magic f)), s1)
      else if Version f \<noteq> frameVersion then (Inl (ErrUnknownVersion (Version f)), s1)
      else if h > maxHeader lim then (Inl (ErrLargeHeader (unat h)), s1)
      else if b > maxBody lim then (Inl (ErrLargeBody (unat b)), s1)
      else
        (case (if h > 0 then ReadFull s1 (unat h) else (Inr [], s1)) of
           (Inl e, s2) \<Rightarrow> (Inl (IOError e), s2)
         | (Inr hdr, s2) \<Rightarrow>
             (case (if b > 0 then ReadFull s2 (unat b) else (Inr [], s2)) of
                (Inl e, s3) \<Rightarrow> (Inl (IOError e), s3)
              | (Inr bdy, s3) \<Rightarrow> (Inr (f\<lparr>Header := hdr, Body := bdy\<rparr>), s3))))"
  by (simp add: readFrame_def DecodeFrameWithLimits_def Let_def header_bytes_fields
      cong: if_cong split: prod.split sum.split)

text \<open>The frames that may be sent under given limits.\<close>

definition sendable :: "Frame \<Rightarrow> frameLimits \<Rightarrow> bool" where
  "sendable f lim \<longleftrightarrow> (Magic f = 0 \<or> Magic f = frameMagic) \<and> (Version f = 0 \<or> Version f = frameVersion)
     \<and> (of_nat (length (Header f)) :: u32) \<le> maxHeader lim
     \<and> (of_nat (length (Body f)) :: u32) \<le> maxBody lim"

lemma validate_None_iff: "validate f lim = None \<longleftrightarrow> sendable f lim"
  by (auto simp: validate_def sendable_def)

lemma EncodeWithLimits_Inr_iff:
  "EncodeWithLimits f lim = (Inr bs :: 'io frame_error + bytes)
     \<longleftrightarrow> sendable f lim \<and> bs = frame_bytes 0 f"
  using validate_None_iff [of f lim, where 'a = 'io]
  by (auto simp: EncodeWithLimits_eq split: option.splits)

lemma read_variable_part:
  fixes xs :: bytes
  assumes "length xs < 2 ^ 32"
  shows "(if (of_nat (length xs) :: u32) > 0
          then ReadFull (xs @ ys) (unat (of_nat (length xs) :: u32)) else (Inr [], xs @ ys))
         = (Inr xs, ys)"
proof -
  have u: "unat (of_nat (length xs) :: u32) = length xs"
    using assms by (intro unat_of_nat_small) simp
  show ?thesis
  proof (cases "xs = []")
    case False
    then have "(of_nat (length xs) :: u32) \<noteq> 0" using u by (metis length_0_conv unat_0)
    then show ?thesis by (simp add: u word_gt_0)
  qed simp
qed

lemma readFrame_frame_bytes:
  assumes "sendable f lim"
    and "Magic f = frameMagic" and "Version f = frameVersion"
    and "length (Header f) < 2 ^ 32" and "length (Body f) < 2 ^ 32"
  shows "readFrame (frame_bytes r f @ rest) lim = (Inr f, rest)"
proof -
  let ?h = "of_nat (length (Header f)) :: u32" and ?b = "of_nat (length (Body f)) :: u32"
  have lim: "\<not> ?h > maxHeader lim" "\<not> ?b > maxBody lim"
    using assms(1) by (auto simp: sendable_def)
  have vh: "(if ?h > 0 then ReadFull (Header f @ Body f @ rest) (unat ?h)
             else (Inr [], Header f @ Body f @ rest)) = (Inr (Header f), Body f @ rest)"
    by (rule read_variable_part [OF assms(4)])
  have vb: "(if ?b > 0 then ReadFull (Body f @ rest) (unat ?b) else (Inr [], Body f @ rest))
            = (Inr (Body f), rest)"
    by (rule read_variable_part [OF assms(5)])
  have "readFrame (header_bytes r f ?h ?b @ (Header f @ Body f @ rest)) lim
        = (Inr (f\<lparr>Header := Header f, Body := Body f\<rparr>), rest)"
    unfolding readFrame_header vh using lim vb assms(2,3) by (simp del: not_less)
  then show ?thesis by (simp add: frame_bytes_def)
qed

text \<open>
  C10: Encoding a frame and reading it back from a stream returns the same frame and leaves
  exactly the bytes that followed it, for every frame with the protocol's magic and version
  whose parts are within the limits of the connection.
\<close>

theorem frame_roundtrip:
  assumes "EncodeWithLimits f lim = Inr bs"
    and "Magic f = frameMagic" and "Version f = frameVersion"
    and "length (Header f) < 2 ^ 32" and "length (Body f) < 2 ^ 32"
  shows "readFrame (bs @ rest) lim = (Inr f, rest)"
  using assms by (simp add: EncodeWithLimits_Inr_iff readFrame_frame_bytes)

theorem frame_roundtrip_witness:
  "readFrame
     ([0x4D, 0x4E, 1, 1, 0, 0, 0, 0, 0, 1, 0, 0, 0, 2, 0, 0, 0, 0, 0, 0, 1, 4, 9, 65, 66] @ [7])
     defaultLimits
   = (Inr (NewFrame MessageTypeRequest 260 [9] [65, 66]), [7])"
proof (rule frame_roundtrip)
  show "EncodeWithLimits (NewFrame MessageTypeRequest 260 [9] [65, 66]) defaultLimits =
    (Inr [0x4D, 0x4E, 1, 1, 0, 0, 0, 0, 0, 1, 0, 0, 0, 2, 0, 0, 0, 0, 0, 0, 1, 4, 9, 65, 66]
      :: unit frame_error + bytes)"
    by code_simp
qed (simp_all add: NewFrame_def)

section \<open>Soundness of the decoder\<close>

text \<open>Any 22 bytes are the fixed header of some frame.\<close>

lemma header_bytes_surj:
  assumes "length hb = frameHeaderLen"
  obtains r f h b where "hb = header_bytes r f h b" and "Header f = []" and "Body f = []"
proof -
  have "length hb = 22 + 0" using assms by (simp add: frameHeaderLen_def)
  then obtain m v t g r hl bl rid rest where
    hb: "hb = m @ [v, t, g, r] @ hl @ bl @ rid @ rest" and
    len: "length m = 2" "length hl = 4" "length bl = 4" "length rid = 8" "length rest = 0"
    by (rule list_of_length_22)
  let ?f = "\<lparr>Magic = be_get m, Version = v, MsgType = t, Flags = g, RequestID = be_get rid,
      Header = [], Body = []\<rparr>"
  have "be_put 2 (be_get m :: u16) = m" "be_put 4 (be_get hl :: u32) = hl"
    "be_put 4 (be_get bl :: u32) = bl" "be_put 8 (be_get rid :: u64) = rid"
    using be_put_be_get [of m, where 'a = 16] be_put_be_get [of hl, where 'a = 32]
      be_put_be_get [of bl, where 'a = 32] be_put_be_get [of rid, where 'a = 64] len by simp_all
  then have "hb = header_bytes r ?f (be_get hl) (be_get bl)"
    using hb len by (simp add: header_bytes_def)
  then show ?thesis by (rule that) simp_all
qed

lemma ReadFull_InrD: "ReadFull s n = (Inr xs, s') \<Longrightarrow> s = xs @ s' \<and> length xs = n"
  by (auto simp: ReadFull_def split: if_splits)

lemma read_optional_InrD:
  assumes "(if w > 0 then ReadFull s (unat w) else (Inr [], s)) = (Inr xs, s')"
  shows "s = xs @ s' \<and> length xs = unat (w :: u32)"
  using assms by (auto simp: word_gt_0 dest: ReadFull_InrD split: if_splits)

text \<open>
  C20: The decoder is sound: whenever it returns a frame, the input consumed is exactly the
  encoding of that frame (up to the reserved byte, which it ignores), the frame carries the
  protocol's magic and version, and its parts are within the limits, so a peer can never make
  the reader accept or allocate more than the configured maximum.
\<close>

theorem readFrame_sound:
  assumes "readFrame s lim = (Inr f, rest)"
  shows "(\<exists>r. s = frame_bytes r f @ rest) \<and> Magic f = frameMagic \<and> Version f = frameVersion
    \<and> length (Header f) \<le> unat (maxHeader lim) \<and> length (Body f) \<le> unat (maxBody lim)"
proof -
  have "frameHeaderLen \<le> length s"
    using assms by (auto simp: readFrame_def DecodeFrameWithLimits_def ReadFull_def split: if_splits)
  then have "length (take frameHeaderLen s) = frameHeaderLen" by simp
  then obtain r g h b where hb: "take frameHeaderLen s = header_bytes r g h b"
    by (rule header_bytes_surj)
  define s1 where "s1 = drop frameHeaderLen s"
  have s: "s = header_bytes r g h b @ s1"
    by (metis append_take_drop_id hb s1_def)
  have magic: "Magic g = frameMagic" and version: "Version g = frameVersion"
    and lim: "h \<le> maxHeader lim" "b \<le> maxBody lim"
    using assms unfolding s readFrame_header by (auto split: if_splits)
  have nl: "\<not> maxHeader lim < h" "\<not> maxBody lim < b" using lim by auto
  obtain hdr bdy s2 where h: "(if h > 0 then ReadFull s1 (unat h) else (Inr [], s1)) = (Inr hdr, s2)"
    and b: "(if b > 0 then ReadFull s2 (unat b) else (Inr [], s2)) = (Inr bdy, rest)"
    and f: "f = g\<lparr>Header := hdr, Body := bdy\<rparr>"
    using assms unfolding s readFrame_header
    by (simp add: magic version nl del: if_split split: prod.splits sum.splits)
  have "s1 = Header f @ Body f @ rest" and lens: "length (Header f) = unat h" "length (Body f) = unat b"
    using read_optional_InrD [OF h] read_optional_InrD [OF b] f by simp_all
  moreover have "header_bytes r g h b = header_bytes r f h b"
    by (simp add: f header_bytes_def)
  ultimately have "s = frame_bytes r f @ rest" by (simp add: s frame_bytes_def)
  moreover have "Magic f = frameMagic" "Version f = frameVersion"
    using magic version f by simp_all
  ultimately show ?thesis using lens lim by (auto simp: word_le_nat_alt)
qed

theorem readFrame_sound_witness:
  "(\<exists>r. [0x4D, 0x4E, 1, 4, 0, 99, 0, 0, 0, 0, 0, 0, 0, 1, 0, 0, 0, 0, 0, 0, 0, 5, 65, 8]
        = frame_bytes r (NewFrame MessageTypePing 5 [] [65]) @ [8])
   \<and> length (Body (NewFrame MessageTypePing 5 [] [65])) \<le> unat (maxBody defaultLimits)"
proof -
  have "readFrame [0x4D, 0x4E, 1, 4, 0, 99, 0, 0, 0, 0, 0, 0, 0, 1, 0, 0, 0, 0, 0, 0, 0, 5, 65, 8]
      defaultLimits = (Inr (NewFrame MessageTypePing 5 [] [65]), [8])"
    by code_simp
  from readFrame_sound [OF this] show ?thesis by blast
qed

section \<open>Truncated input\<close>

lemma ReadFull_short: "length s < n \<Longrightarrow> \<exists>e. ReadFull s n = (Inl e, [])"
  by (simp add: ReadFull_def)

lemma readFrame_short_header:
  "length s < frameHeaderLen \<Longrightarrow> \<exists>e. readFrame s lim = (Inl (IOError e), [])"
  using ReadFull_short [of s frameHeaderLen]
  by (auto simp: readFrame_def DecodeFrameWithLimits_def)

text \<open>
  A frame cut short anywhere (the connection closed in the middle of it) is reported as a
  read error and never decoded as some other frame.
\<close>

lemma readFrame_truncated:
  assumes "sendable f lim" and "Magic f = frameMagic" and "Version f = frameVersion"
    and "length (Header f) < 2 ^ 32" and "length (Body f) < 2 ^ 32"
    and "n < length (frame_bytes r f)"
  shows "\<exists>e. readFrame (take n (frame_bytes r f)) lim = (Inl (IOError e), [])"
proof (cases "n < frameHeaderLen")
  case True
  then show ?thesis by (intro readFrame_short_header) (simp add: min_def)
next
  case False
  let ?h = "of_nat (length (Header f)) :: u32" and ?b = "of_nat (length (Body f)) :: u32"
  have uh: "unat ?h = length (Header f)" and ub: "unat ?b = length (Body f)"
    using assms(4,5) by (simp_all add: unat_of_nat_small)
  have lim: "?h \<le> maxHeader lim" "?b \<le> maxBody lim"
    using assms(1) by (auto simp: sendable_def)
  define k where "k = n - frameHeaderLen"
  have tk: "take n (frame_bytes r f) = header_bytes r f ?h ?b @ take k (Header f @ Body f)"
    using False by (simp add: frame_bytes_def k_def)
  have k: "k < length (Header f) + length (Body f)"
    using assms(6) False by (simp add: frame_bytes_def k_def)
  show ?thesis
  proof (cases "k < length (Header f)")
    case True
    then have "?h > 0" unfolding word_less_nat_alt uh by auto
    moreover obtain e where "ReadFull (take k (Header f)) (length (Header f)) = (Inl e, [])"
      using ReadFull_short [of "take k (Header f)" "length (Header f)"] True by auto
    ultimately show ?thesis
      using True lim assms(2,3) unfolding tk readFrame_header by (simp add: uh not_less)
  next
    case kh: False
    define j where "j = k - length (Header f)"
    have tkk: "take k (Header f @ Body f) = Header f @ take j (Body f)"
      using kh by (simp add: j_def)
    have j: "j < length (Body f)" using k kh by (simp add: j_def)
    then have b: "?b > 0" unfolding word_less_nat_alt ub by auto
    obtain e where "ReadFull (take j (Body f)) (length (Body f)) = (Inl e, [])"
      using ReadFull_short [of "take j (Body f)" "length (Body f)"] j by auto
    then show ?thesis
      using b lim assms(2,3) read_variable_part [OF assms(4), of "take j (Body f)"]
      unfolding tk readFrame_header tkk by (simp add: ub not_less del: if_split)
  qed
qed

section \<open>Writing to a stream\<close>

text \<open>
  The documented contract of \<^verbatim>\<open>io.Writer\<close>, with \<open>out\<close> the bytes the writer has accepted: it
  accepts a prefix of the data, reports its length, and reports an error if that is not all.
\<close>

definition writer_contract :: "('w \<Rightarrow> bytes) \<Rightarrow> ('w, 'e) writer \<Rightarrow> bool" where
  "writer_contract out wr \<longleftrightarrow>
     (\<forall>w data w' n err. wr w data = (w', n, err) \<longrightarrow>
        0 \<le> n \<and> n \<le> int (length data) \<and> out w' = out w @ take (nat n) data
        \<and> (n < int (length data) \<longrightarrow> err \<noteq> None))"

lemma writer_contractD:
  assumes "writer_contract out wr" and "wr w data = (w', n, err)"
  shows "0 \<le> n" "n \<le> int (length data)" "out w' = out w @ take (nat n) data"
    "n < int (length data) \<Longrightarrow> err \<noteq> None"
  using assms unfolding writer_contract_def by blast+

text \<open>The effect of a write: all of the data on success, a prefix of it in any case.\<close>

definition wrote :: "('w \<Rightarrow> bytes) \<Rightarrow> 'w \<Rightarrow> bytes \<Rightarrow> 'w \<Rightarrow> bool \<Rightarrow> bool" where
  "wrote out w data w' ok \<longleftrightarrow>
     (ok \<longrightarrow> out w' = out w @ data) \<and> (\<exists>xs ys. data = xs @ ys \<and> out w' = out w @ xs)"

lemma wrote_Nil: "wrote out w [] w ok"
  by (simp add: wrote_def)

lemma wrote_stop: "wrote out w data w' ok \<Longrightarrow> wrote out w (data @ data2) w' False"
  unfolding wrote_def by (metis append_assoc)

lemma wrote_seq:
  "wrote out w d1 w1 True \<Longrightarrow> wrote out w1 d2 w2 ok \<Longrightarrow> wrote out w (d1 @ d2) w2 ok"
  unfolding wrote_def by (metis append_assoc)

lemma writeFull_wrote:
  assumes "writer_contract out wr" and "writeFull wr w data = (w', r)"
  shows "wrote out w data w' (r = None)"
proof (cases "data = []")
  case True
  then show ?thesis using assms(2) by (simp add: writeFull.simps wrote_Nil)
next
  case False
  obtain w1 n err where wr: "wr w data = (w1, n, err)" by (metis prod_cases3)
  note c = writer_contractD [OF assms(1) wr]
  have pre: "data = take (nat n) data @ drop (nat n) data" by simp
  show ?thesis
  proof (cases err)
    case (Some e)
    with False assms(2) have "w' = w1" "r \<noteq> None"
      by (auto simp: writeFull.simps [of wr w data] wr)
    with c(3) pre show ?thesis unfolding wrote_def by blast
  next
    case None
    with c have n: "n = int (length data)" by (meson order_le_imp_less_or_eq)
    with False None assms(2) have "w' = w1"
      by (simp add: writeFull.simps [of wr w data] wr writeFull.simps [of wr w1 "[]"])
    with c(3) n show ?thesis by (simp add: wrote_def)
  qed
qed

text \<open>
  C21: The streaming path agrees with the buffered one: on every writer that keeps the contract
  of \<^verbatim>\<open>io.Writer\<close> and whatever the pooled scratch buffer held, \<^verbatim>\<open>writeFrame\<close> that reports success
  has written exactly the bytes \<^verbatim>\<open>EncodeWithLimits\<close> returns, and one that fails has written a
  prefix of them.
\<close>

theorem writeFrame_matches_Encode:
  assumes "writer_contract out wr" and "length scratch = frameHeaderLen"
    and "EncodeWithLimits f lim = (Inr bs :: 'io frame_error + bytes)"
    and "writeFrame wr w scratch f lim = (w', r)"
  shows "(r = None \<longrightarrow> out w' = out w @ bs) \<and> (\<exists>xs ys. bs = xs @ ys \<and> out w' = out w @ xs)"
proof -
  let ?h = "of_nat (length (Header f)) :: u32" and ?b = "of_nat (length (Body f)) :: u32"
  let ?H = "header_bytes 0 f ?h ?b"
  have bs: "bs = ?H @ Header f @ Body f" and v: "validate f lim = None"
    using assms(3) by (simp_all add: EncodeWithLimits_Inr_iff frame_bytes_def validate_None_iff)
  have hdr: "writeHeaderFields scratch f ?h ?b = ?H"
    using writeHeaderFields_eq [of scratch 0] assms(2) by (simp add: frameHeaderLen_def)
  have opt: "(if 0 < length xs then writeFull wr u xs else (u, None)) = writeFull wr u xs"
    for u and xs :: bytes by (simp add: writeFull.simps)
  obtain w1 r1 where 1: "writeFull wr w ?H = (w1, r1)" by fastforce
  obtain w2 r2 where 2: "writeFull wr w1 (Header f) = (w2, r2)" by fastforce
  obtain w3 r3 where 3: "writeFull wr w2 (Body f) = (w3, r3)" by fastforce
  note o1 = writeFull_wrote [OF assms(1) 1] and o2 = writeFull_wrote [OF assms(1) 2]
    and o3 = writeFull_wrote [OF assms(1) 3]
  note eqs = writeFrame_def v hdr Let_def 1 opt 2 3
  have "wrote out w bs w' (r = None)"
  proof (cases "r1 = None \<and> r2 = None")
    case True
    then have "w' = w3" "r = None \<longleftrightarrow> r3 = None"
      using assms(4) by (auto simp: eqs simp del: length_greater_0_conv split: option.splits)
    then show ?thesis using True o1 o2 o3 by (auto simp: bs intro!: wrote_seq)
  next
    case False
    then have "r \<noteq> None" and "w' = (if r1 = None then w2 else w1)"
      using assms(4) by (auto simp: eqs simp del: length_greater_0_conv split: option.splits)
    moreover have "wrote out w (?H @ Header f @ Body f) w1 False"
      using o1 by (rule wrote_stop)
    moreover have "r1 = None \<Longrightarrow> wrote out w (?H @ Header f @ Body f) w2 False"
      using o1 wrote_stop [OF o2] by (simp add: wrote_seq)
    ultimately show ?thesis by (auto simp: bs)
  qed
  then show ?thesis by (simp add: wrote_def)
qed

theorem writeFrame_matches_Encode_witness:
  "snd (writeFrame (\<lambda>w d. (w @ d, int (length d), None :: unit option)) [1, 2]
      (replicate 22 0xFF) (NewFrame MessageTypePong 9 [] [3]) defaultLimits) = None
   \<and> fst (writeFrame (\<lambda>w d. (w @ d, int (length d), None :: unit option)) [1, 2]
      (replicate 22 0xFF) (NewFrame MessageTypePong 9 [] [3]) defaultLimits)
   = [1, 2] @ frame_bytes 0 (NewFrame MessageTypePong 9 [] [3])"
proof -
  let ?wr = "\<lambda>w d. (w @ d, int (length d), None :: unit option)"
  let ?f = "NewFrame MessageTypePong 9 [] [3]"
  have c: "writer_contract id ?wr" by (simp add: writer_contract_def)
  have e: "EncodeWithLimits ?f defaultLimits = (Inr (frame_bytes 0 ?f) :: unit frame_error + bytes)"
    by (simp add: EncodeWithLimits_Inr_iff NewFrame_def sendable_def defaultLimits_def
        defaultMaxHeaderSize_def defaultMaxBodySize_def)
  obtain w' r where w: "writeFrame ?wr [1, 2] (replicate 22 0xFF) ?f defaultLimits = (w', r)"
    by fastforce
  have "r = None" using w by (auto simp: writeFrame_def writeFull.simps Let_def NewFrame_def
      validate_def defaultLimits_def defaultMaxHeaderSize_def defaultMaxBodySize_def
      split: if_splits)
  with writeFrame_matches_Encode [OF c _ e w] w show ?thesis by (simp add: frameHeaderLen_def)
qed

section \<open>Frames the sender accepts and the receiver refuses\<close>

text \<open>
  A frame whose magic is left at zero passes the sender's check, is written with a zero
  magic, and is refused by every receiver.
\<close>

lemma zero_magic_sent_but_refused:
  assumes "EncodeWithLimits f lim = Inr bs" and "Magic f = 0"
  shows "readFrame (bs @ rest) lim' = (Inl (ErrInvalidMagic 0), Header f @ Body f @ rest)"
proof -
  have "bs @ rest = header_bytes 0 f (of_nat (length (Header f))) (of_nat (length (Body f)))
        @ (Header f @ Body f @ rest)"
    using assms(1) by (simp add: EncodeWithLimits_Inr_iff frame_bytes_def)
  then show ?thesis using assms(2) by (simp add: readFrame_header frameMagic_def)
qed

section \<open>Errors across the wire\<close>

lemma NewErrorFrame_fields [simp]:
  "Magic (NewErrorFrame i e) = frameMagic" "Version (NewErrorFrame i e) = frameVersion"
  "RequestID (NewErrorFrame i e) = i" "Header (NewErrorFrame i e) = []"
  "MsgType (NewErrorFrame i e) = MessageTypeResponse" "Flags (NewErrorFrame i e) = FlagError"
  by (simp_all add: NewErrorFrame_def NewFrame_def Let_def)

lemma NewErrorFrame_Body [simp]: "Body (NewErrorFrame i (Some m)) = bytes_of_string m"
  by (simp add: NewErrorFrame_def NewFrame_def Let_def)

lemma IsError_NewErrorFrame [simp]: "IsError (NewErrorFrame i e)" "\<not> IsOneWay (NewErrorFrame i e)"
  by (simp_all add: IsError_def IsOneWay_def FlagError_def FlagOneWay_def)

text \<open>
  An error reply reaches the caller: the frame read back is an error response for the same
  request, and the client's error is the sentinel for rate limiting or a handler panic exactly
  when the server sent that one, and carries the server's text otherwise.
\<close>

lemma error_frame_propagates:
  assumes "EncodeWithLimits (NewErrorFrame i (Some m)) lim = Inr bs" and "length m < 2 ^ 32"
  shows "\<exists>f. readFrame (bs @ rest) lim = (Inr f, rest) \<and> IsError f \<and> RequestID f = i
    \<and> MsgType f = MessageTypeResponse
    \<and> remoteErrorFromFrame f =
        (if m = ErrRateLimited_text then RemoteRateLimited
         else if m = ErrHandlerPanic_text then RemoteHandlerPanic else RemoteError i m)"
proof -
  have "readFrame (bs @ rest) lim = (Inr (NewErrorFrame i (Some m)), rest)"
    using assms by (simp add: EncodeWithLimits_Inr_iff readFrame_frame_bytes bytes_of_string_def)
  then show ?thesis by (simp add: remoteErrorFromFrame_def)
qed

end
