(* ===== verification/Router.thy ===== *)
theory Router
  imports Go_Strings
begin

text \<open>
  The routing tree of \<^verbatim>\<open>web/route.go\<close>. A router keeps one tree per HTTP method; a node has
  static children by segment and at most one of a wildcard, a path-parameter and a regular
  expression child. \<^verbatim>\<open>addRoute\<close> walks the segments of a pattern and creates the nodes it needs;
  a panic in the middle leaves the nodes created so far in place, which the model keeps.
  Child pointers are slots of the parent. The regular expression engine is a parameter:
  \<open>compile e\<close> says whether \<open>e\<close> is well formed, \<open>rmatch e s\<close> whether it matches \<open>s\<close>; all
  results hold for every engine.
\<close>

named_theorems route_simps \<open>equations of the tree operations\<close>

section \<open>Data\<close>

datatype nodeType = nodeTypeStatic | nodeTypeReg | nodeTypeParam | nodeTypeAny

datatype 'h node = Node
  (n_typ: nodeType)
  (n_path: string)
  (n_children: "string \<rightharpoonup> 'h node")
  (n_starChild: "'h node option")
  (n_paramChild: "'h node option")
  (n_paramName: string)
  (n_regexChild: "'h node option")
  (n_regExpr: "string option")
  (n_handler: "'h option")

text \<open>The place a child pointer of a node lives in.\<close>

datatype slot = SStatic string | SStar | SParam | SRegex

fun child_at :: "'h node \<Rightarrow> slot \<Rightarrow> 'h node option" where
  "child_at n (SStatic s) = n_children n s"
| "child_at n SStar = n_starChild n"
| "child_at n SParam = n_paramChild n"
| "child_at n SRegex = n_regexChild n"

fun put_child :: "slot \<Rightarrow> 'h node \<Rightarrow> 'h node \<Rightarrow> 'h node" where
  "put_child (SStatic s) c (Node t p ch st pa pn rx re h) = Node t p (ch(s \<mapsto> c)) st pa pn rx re h"
| "put_child SStar c (Node t p ch st pa pn rx re h) = Node t p ch (Some c) pa pn rx re h"
| "put_child SParam c (Node t p ch st pa pn rx re h) = Node t p ch st (Some c) pn rx re h"
| "put_child SRegex c (Node t p ch st pa pn rx re h) = Node t p ch st pa pn (Some c) re h"

fun put_handler :: "'h option \<Rightarrow> 'h node \<Rightarrow> 'h node" where
  "put_handler h (Node t p ch st pa pn rx re h0) = Node t p ch st pa pn rx re h"

definition new_node :: "nodeType \<Rightarrow> string \<Rightarrow> string \<Rightarrow> string option \<Rightarrow> 'h node" where
  "new_node t p pn re = Node t p Map.empty None None pn None re None"

datatype route_panic =
    StarAfterParam | StarAfterRegex
  | ParamAfterStar | ParamAfterRegex | ParamConflict string string
  | RegexAfterStar | RegexAfterParam | RegexConflict | BadRegex string
  | NilRegexp                   \<comment> \<open>method call on a nil \<^verbatim>\<open>*regexp.Regexp\<close>\<close>
  | EmptyPath | NoLeadingSlash | TrailingSlash | RootHasHandler | EmptySegment | RoutingConflict

section \<open>Registering\<close>

text \<open>Parameter name, expression, and whether the segment is a regular expression.\<close>

definition parseParam :: "string \<Rightarrow> string \<times> string \<times> bool" where
  "parseParam p =
     (let p = tl p;
          segments = split2 CHR ''('' p
      in if length segments = 2 \<and> has_suffix '')'' (segments ! 1)
         then (segments ! 0, butlast (segments ! 1), True)
         else (p, '''', False))"

definition childOrCreateParam ::
  "'h node \<Rightarrow> string \<Rightarrow> string \<Rightarrow> route_panic + 'h node \<times> slot" where
  "childOrCreateParam n p pname =
     (if n_starChild n \<noteq> None then Inl ParamAfterStar
      else if n_regexChild n \<noteq> None then Inl ParamAfterRegex
      else case n_paramChild n of
          None \<Rightarrow> Inr (put_child SParam (new_node nodeTypeParam p pname None) n, SParam)
        | Some c \<Rightarrow> if n_path c \<noteq> p then Inl (ParamConflict (n_path c) p) else Inr (n, SParam))"

definition childOrCreateRegex ::
  "(string \<Rightarrow> bool) \<Rightarrow> 'h node \<Rightarrow> string \<Rightarrow> string \<Rightarrow> string \<Rightarrow> route_panic + 'h node \<times> slot" where
  "childOrCreateRegex compile n p ex pname =
     (if n_starChild n \<noteq> None then Inl RegexAfterStar
      else if n_paramChild n \<noteq> None then Inl RegexAfterParam
      else case n_regexChild n of
          None \<Rightarrow>
            if compile ex
            then Inr (put_child SRegex (new_node nodeTypeReg p pname (Some ex)) n, SRegex)
            else Inl (BadRegex ex)
        | Some c \<Rightarrow>
            (case n_regExpr n of
               None \<Rightarrow> Inl NilRegexp
             | Some re \<Rightarrow>
                 if re \<noteq> ex \<or> n_paramName n \<noteq> pname then Inl RegexConflict else Inr (n, SRegex)))"

definition childOrCreate ::
  "(string \<Rightarrow> bool) \<Rightarrow> 'h node \<Rightarrow> string \<Rightarrow> route_panic + 'h node \<times> slot" where
  "childOrCreate compile n p =
     (if p = ''*'' then
        (if n_paramChild n \<noteq> None then Inl StarAfterParam
         else if n_regexChild n \<noteq> None then Inl StarAfterRegex
         else if n_starChild n = None
         then Inr (put_child SStar (new_node nodeTypeAny p '''' None) n, SStar)
         else Inr (n, SStar))
      else if hd p = CHR '':'' then
        (case parseParam p of (param, regex, ok) \<Rightarrow>
           if \<not> ok then childOrCreateParam n p param
           else childOrCreateRegex compile n p regex param)
      else if n_children n p = None
      then Inr (put_child (SStatic p) (new_node nodeTypeStatic p '''' None) n, SStatic p)
      else Inr (n, SStatic p))"

text \<open>
  The loop of \<^verbatim>\<open>addRoute\<close> over the segments, and the final store of the handler. The tree is
  returned also when a panic ends the walk.
\<close>

fun addSegments ::
  "(string \<Rightarrow> bool) \<Rightarrow> 'h node \<Rightarrow> string list \<Rightarrow> 'h option \<Rightarrow> 'h node \<times> route_panic option" where
  "addSegments compile n [] h =
     (if n_handler n \<noteq> None then (n, Some RoutingConflict) else (put_handler h n, None))"
| "addSegments compile n (s # ss) h =
     (if s = '''' then (n, Some EmptySegment)
      else case childOrCreate compile n s of
          Inl e \<Rightarrow> (n, Some e)
        | Inr (n', sl) \<Rightarrow>
            (let (c, r) = addSegments compile (the (child_at n' sl)) ss h
             in (put_child sl c n', r)))"

record 'h router =
  trees :: "string \<rightharpoonup> 'h node"

definition newRouter :: "'h router" where
  "newRouter = \<lparr>trees = Map.empty\<rparr>"

definition addRoute ::
  "(string \<Rightarrow> bool) \<Rightarrow> 'h router \<Rightarrow> string \<Rightarrow> string \<Rightarrow> 'h option \<Rightarrow> 'h router \<times> route_panic option"
where
  "addRoute compile r method p h =
     (if p = '''' then (r, Some EmptyPath)
      else if hd p \<noteq> CHR ''/'' then (r, Some NoLeadingSlash)
      else if p \<noteq> ''/'' \<and> last p = CHR ''/'' then (r, Some TrailingSlash)
      else
        (let root = (case trees r method of None \<Rightarrow> new_node nodeTypeStatic ''/'' '''' None | Some t \<Rightarrow> t)
         in if p = ''/'' then
              (if n_handler root \<noteq> None
               then (r\<lparr>trees := (trees r)(method \<mapsto> root)\<rparr>, Some RootHasHandler)
               else (r\<lparr>trees := (trees r)(method \<mapsto> put_handler h root)\<rparr>, None))
            else
              (let (root', e) = addSegments compile root (split_on CHR ''/'' (tl p)) h
               in (r\<lparr>trees := (trees r)(method \<mapsto> root')\<rparr>, e))))"

section \<open>Finding\<close>

definition childOfNonStatic :: "(string \<Rightarrow> string \<Rightarrow> bool) \<Rightarrow> 'h node \<Rightarrow> string \<Rightarrow> 'h node option" where
  "childOfNonStatic rmatch n p =
     (case n_regexChild n of
        Some c \<Rightarrow>
          if rmatch (case n_regExpr c of Some e \<Rightarrow> e | None \<Rightarrow> '''') p then Some c
          else (case n_paramChild n of Some d \<Rightarrow> Some d | None \<Rightarrow> n_starChild n)
      | None \<Rightarrow> (case n_paramChild n of Some d \<Rightarrow> Some d | None \<Rightarrow> n_starChild n))"

definition childOf :: "(string \<Rightarrow> string \<Rightarrow> bool) \<Rightarrow> 'h node \<Rightarrow> string \<Rightarrow> 'h node option" where
  "childOf rmatch n p =
     (case n_children n p of None \<Rightarrow> childOfNonStatic rmatch n p | Some c \<Rightarrow> Some c)"

record 'h matchInfo =
  mi_node :: "'h node option"
  paramPath :: "string \<rightharpoonup> string"
  matchedPath :: string
  methodNotAllowed :: bool
  allowedMethods :: "string list"

definition empty_matchInfo :: "'h matchInfo" where
  "empty_matchInfo = \<lparr>mi_node = None, paramPath = Map.empty, matchedPath = '''',
     methodNotAllowed = False, allowedMethods = []\<rparr>"

definition addValue :: "string \<Rightarrow> string \<Rightarrow> 'h matchInfo \<Rightarrow> 'h matchInfo" where
  "addValue key value mi = mi\<lparr>paramPath := (paramPath mi)(key \<mapsto> value)\<rparr>"

definition extendPath :: "nat \<Rightarrow> string \<Rightarrow> 'h matchInfo \<Rightarrow> 'h matchInfo" where
  "extendPath i p mi =
     mi\<lparr>matchedPath := (if i = 0 then ''/'' @ p else matchedPath mi @ ''/'' @ p)\<rparr>"

text \<open>The loop of \<^verbatim>\<open>findInTree\<close> over the segments of the request path.\<close>

fun findSegments ::
  "(string \<Rightarrow> string \<Rightarrow> bool) \<Rightarrow> 'h node \<Rightarrow> nat \<Rightarrow> string list \<Rightarrow> 'h matchInfo \<Rightarrow> 'h matchInfo option"
where
  "findSegments rmatch root i [] mi = Some (mi\<lparr>mi_node := Some root\<rparr>)"
| "findSegments rmatch root i (seg # segs) mi =
     (case childOf rmatch root seg of
        None \<Rightarrow>
          (case n_starChild root of
             Some sc \<Rightarrow>
               if n_handler sc \<noteq> None
               then Some ((extendPath i (n_path sc) mi)\<lparr>mi_node := Some sc\<rparr>)
               else None
           | None \<Rightarrow> None)
      | Some child \<Rightarrow>
          (let mi = extendPath i (n_path child) mi;
               mi = (if n_paramName child \<noteq> '''' then addValue (n_paramName child) seg mi else mi)
           in if n_typ child = nodeTypeAny \<and> n_handler child \<noteq> None
              then Some (mi\<lparr>mi_node := Some child\<rparr>)
              else findSegments rmatch child (Suc i) segs mi))"

definition findInTree ::
  "(string \<Rightarrow> string \<Rightarrow> bool) \<Rightarrow> 'h node \<Rightarrow> string \<Rightarrow> 'h matchInfo option" where
  "findInTree rmatch root p =
     (if p = ''/'' then Some (empty_matchInfo\<lparr>mi_node := Some root, matchedPath := ''/''\<rparr>)
      else findSegments rmatch root 0
             (split_on CHR ''/'' (trim_by (\<lambda>c. c = CHR ''/'') p)) empty_matchInfo)"

text \<open>
  \<open>order\<close> is the order in which Go happens to range over the trees. \<^const>\<open>None\<close> is the
  result \<^verbatim>\<open>(nil, false)\<close>.
\<close>

definition findRoute ::
  "(string \<Rightarrow> string \<Rightarrow> bool) \<Rightarrow> string list \<Rightarrow> 'h router \<Rightarrow> string \<Rightarrow> string \<Rightarrow> 'h matchInfo option"
where
  "findRoute rmatch order r method p =
     (case Option.bind (trees r method) (\<lambda>root. findInTree rmatch root p) of
        Some mi \<Rightarrow> Some mi
      | None \<Rightarrow>
          (let allowed = filter (\<lambda>m. m \<noteq> method \<and>
                 (case trees r m of None \<Rightarrow> False | Some t \<Rightarrow> findInTree rmatch t p \<noteq> None)) order
           in if allowed \<noteq> []
              then Some (empty_matchInfo\<lparr>methodNotAllowed := True, allowedMethods := allowed\<rparr>)
              else None))"

section \<open>Tree lemmas\<close>

lemma child_at_put_child [simp]:
  "child_at (put_child sl c n) sl' = (if sl = sl' then Some c else child_at n sl')"
  by (cases n; cases sl; cases sl') auto

lemma put_child_fields [simp]:
  "n_typ (put_child sl c n) = n_typ n" "n_path (put_child sl c n) = n_path n"
  "n_paramName (put_child sl c n) = n_paramName n" "n_regExpr (put_child sl c n) = n_regExpr n"
  "n_handler (put_child sl c n) = n_handler n"
  by (cases n; cases sl; simp)+

lemma put_handler_fields [simp]:
  "n_typ (put_handler h n) = n_typ n" "n_path (put_handler h n) = n_path n"
  "n_paramName (put_handler h n) = n_paramName n" "n_regExpr (put_handler h n) = n_regExpr n"
  "n_handler (put_handler h n) = h" "child_at (put_handler h n) sl = child_at n sl"
  by (cases n; cases sl; simp)+

lemma new_node_fields [simp]:
  "n_typ (new_node t p pn re) = t" "n_path (new_node t p pn re) = p"
  "n_paramName (new_node t p pn re) = pn" "n_regExpr (new_node t p pn re) = re"
  "n_handler (new_node t p pn re) = None" "child_at (new_node t p pn re) sl = None"
  by (cases sl; simp add: new_node_def)+

lemma put_child_slots [simp]:
  "n_children (put_child sl c n) s = (if sl = SStatic s then Some c else n_children n s)"
  "n_starChild (put_child sl c n) = (if sl = SStar then Some c else n_starChild n)"
  "n_paramChild (put_child sl c n) = (if sl = SParam then Some c else n_paramChild n)"
  "n_regexChild (put_child sl c n) = (if sl = SRegex then Some c else n_regexChild n)"
  using child_at_put_child [of sl c n "SStatic s"] child_at_put_child [of sl c n SStar]
    child_at_put_child [of sl c n SParam] child_at_put_child [of sl c n SRegex]
  by simp_all

lemma put_handler_slots [simp]:
  "n_children (put_handler h n) = n_children n" "n_starChild (put_handler h n) = n_starChild n"
  "n_paramChild (put_handler h n) = n_paramChild n" "n_regexChild (put_handler h n) = n_regexChild n"
  by (cases n; simp)+

text \<open>The slot a pattern segment is stored in.\<close>

definition slot_of :: "string \<Rightarrow> slot" where
  "slot_of s =
     (if s = ''*'' then SStar
      else if hd s = CHR '':'' then (if snd (snd (parseParam s)) then SRegex else SParam)
      else SStatic s)"

text \<open>The node a fresh segment gets.\<close>

definition fresh_child :: "string \<Rightarrow> 'h node" where
  "fresh_child s =
     (case slot_of s of
        SStar \<Rightarrow> new_node nodeTypeAny s '''' None
      | SParam \<Rightarrow> new_node nodeTypeParam s (fst (parseParam s)) None
      | SRegex \<Rightarrow> new_node nodeTypeReg s (fst (parseParam s)) (Some (fst (snd (parseParam s))))
      | SStatic t \<Rightarrow> new_node nodeTypeStatic s '''' None)"

lemma fresh_child_fields [simp]:
  "n_handler (fresh_child s) = None" "child_at (fresh_child s) sl = None" "n_path (fresh_child s) = s"
  by (simp_all add: fresh_child_def split: slot.split)

lemma childOrCreate_Inr:
  assumes "childOrCreate compile n s = Inr (n', sl)"
  shows "sl = slot_of s"
    and "child_at n sl = None \<Longrightarrow> n' = put_child sl (fresh_child s) n"
    and "child_at n sl \<noteq> None \<Longrightarrow> n' = n"
    and "child_at n' sl \<noteq> None"
  using assms
  by (auto simp: childOrCreate_def childOrCreateParam_def childOrCreateRegex_def slot_of_def
        fresh_child_def split: if_splits option.splits prod.splits)

lemma childOrCreate_child:
  assumes "childOrCreate compile n s = Inr (n', sl)"
  shows "the (child_at n' sl) =
           (case child_at n (slot_of s) of None \<Rightarrow> fresh_child s | Some c \<Rightarrow> c)"
  using childOrCreate_Inr[OF assms] by (cases "child_at n (slot_of s)") auto

lemma childOrCreate_put:
  assumes "childOrCreate compile n s = Inr (n', sl)"
  shows "child_at (put_child sl c n') k = (if k = slot_of s then Some c else child_at n k)"
  using childOrCreate_Inr[OF assms] by (cases "child_at n (slot_of s)") auto

lemma childOrCreate_handler:
  assumes "childOrCreate compile n s = Inr (n', sl)"
  shows "n_handler n' = n_handler n"
  using childOrCreate_Inr[OF assms] by (cases "child_at n (slot_of s)") auto

section \<open>A router is a table of handlers\<close>

fun node_at :: "'h node \<Rightarrow> slot list \<Rightarrow> 'h node option" where
  "node_at n [] = Some n"
| "node_at n (k # ks) = Option.bind (child_at n k) (\<lambda>c. node_at c ks)"

definition handlers :: "'h node \<Rightarrow> slot list \<rightharpoonup> 'h" where
  "handlers n ks = Option.bind (node_at n ks) n_handler"

lemma handlers_Nil [simp]: "handlers n [] = n_handler n"
  by (simp add: handlers_def)

lemma handlers_Cons [simp]:
  "handlers n (k # ks) = (case child_at n k of None \<Rightarrow> None | Some c \<Rightarrow> handlers c ks)"
  by (simp add: handlers_def split: option.split)

lemma handlers_fresh_child [simp]: "handlers (fresh_child s) ks = None"
  by (cases ks) simp_all

lemma handlers_of_child:
  assumes "childOrCreate compile n s = Inr (n', sl)"
  shows "handlers (the (child_at n' sl)) ks = handlers n (slot_of s # ks)"
  unfolding childOrCreate_child[OF assms] by (simp split: option.split)

lemma handlers_put:
  assumes "childOrCreate compile n s = Inr (n', sl)"
  shows "handlers (put_child sl c n') ks =
           (case ks of [] \<Rightarrow> n_handler n
            | k # ks' \<Rightarrow> if k = slot_of s then handlers c ks' else handlers n (k # ks'))"
  by (simp add: childOrCreate_put[OF assms] childOrCreate_handler[OF assms]
        del: child_at_put_child split: list.split)

text \<open>
  Registering segments stores one handler, in a place that had none; a panic changes no
  handler.
\<close>

lemma addSegments_handlers:
  "addSegments compile n ss h = (n', e) \<Longrightarrow>
     (case e of
        None \<Rightarrow> handlers n (map slot_of ss) = None \<and>
                handlers n' = (handlers n)(map slot_of ss := h)
      | Some _ \<Rightarrow> handlers n' = handlers n)"
proof (induction compile n ss h arbitrary: n' e rule: addSegments.induct)
  case (1 compile n h)
  have "handlers (put_handler h n) = (handlers n)([] := h)"
  proof
    fix ks show "handlers (put_handler h n) ks = ((handlers n)([] := h)) ks" by (cases ks) auto
  qed
  then show ?case using 1 by (auto split: if_splits)
next
  case (2 compile n s ss h)
  show ?case
  proof (cases "s = '''' \<or> (\<exists>x. childOrCreate compile n s = Inl x)")
    case True
    then show ?thesis using 2(2) by (auto split: if_splits)
  next
    case False
    then obtain m sl where m: "childOrCreate compile n s = Inr (m, sl)" and s: "s \<noteq> ''''"
      by (metis obj_sumE surj_pair)
    obtain c r where c: "addSegments compile (the (child_at m sl)) ss h = (c, r)" by force
    have eq: "n' = put_child sl c m" "e = r" using 2(2) m s c by auto
    note IH = 2(1)[OF s m refl c]
    show ?thesis
      using IH unfolding eq fun_eq_iff handlers_put[OF m] handlers_of_child[OF m]
      by (auto simp del: handlers_Cons split: option.splits list.splits)
  qed
qed

section \<open>The shape of a tree\<close>

text \<open>
  Every child has the type, parameter name and expression its own path asks for, sits in the
  slot its path asks for, and a node has at most one non-static child.
\<close>

definition exclusive :: "'h node \<Rightarrow> bool" where
  "exclusive n \<longleftrightarrow>
     \<not> (n_starChild n \<noteq> None \<and> n_paramChild n \<noteq> None) \<and>
     \<not> (n_starChild n \<noteq> None \<and> n_regexChild n \<noteq> None) \<and>
     \<not> (n_paramChild n \<noteq> None \<and> n_regexChild n \<noteq> None)"

definition child_ok :: "(string \<Rightarrow> bool) \<Rightarrow> slot \<Rightarrow> 'h node \<Rightarrow> bool" where
  "child_ok compile sl c \<longleftrightarrow>
     n_path c \<noteq> '''' \<and> CHR ''/'' \<notin> set (n_path c) \<and> slot_of (n_path c) = sl \<and>
     n_typ c = n_typ (fresh_child (n_path c) :: 'h node) \<and>
     n_paramName c = n_paramName (fresh_child (n_path c) :: 'h node) \<and>
     n_regExpr c = n_regExpr (fresh_child (n_path c) :: 'h node) \<and>
     (\<forall>e. n_regExpr c = Some e \<longrightarrow> compile e)"

definition wf_tree :: "(string \<Rightarrow> bool) \<Rightarrow> 'h node \<Rightarrow> bool" where
  "wf_tree compile n \<longleftrightarrow>
     (\<forall>ks m. node_at n ks = Some m \<longrightarrow>
        exclusive m \<and> (\<forall>k c. child_at m k = Some c \<longrightarrow> child_ok compile k c))"

lemma wf_tree_iff:
  "wf_tree compile n \<longleftrightarrow>
     exclusive n \<and> (\<forall>k c. child_at n k = Some c \<longrightarrow> child_ok compile k c \<and> wf_tree compile c)"
proof
  assume wf: "wf_tree compile n"
  have top: "exclusive n \<and> (\<forall>k c. child_at n k = Some c \<longrightarrow> child_ok compile k c)"
    using wf unfolding wf_tree_def by (metis node_at.simps(1))
  have "wf_tree compile c" if c: "child_at n k = Some c" for k c
    unfolding wf_tree_def
  proof (intro allI impI)
    fix ks m assume "node_at c ks = Some m"
    then have "node_at n (k # ks) = Some m" using c by simp
    then show "exclusive m \<and> (\<forall>k c. child_at m k = Some c \<longrightarrow> child_ok compile k c)"
      using wf unfolding wf_tree_def by blast
  qed
  with top show "exclusive n \<and>
      (\<forall>k c. child_at n k = Some c \<longrightarrow> child_ok compile k c \<and> wf_tree compile c)" by blast
next
  assume R: "exclusive n \<and>
      (\<forall>k c. child_at n k = Some c \<longrightarrow> child_ok compile k c \<and> wf_tree compile c)"
  show "wf_tree compile n"
    unfolding wf_tree_def
  proof (intro allI impI)
    fix ks m assume "node_at n ks = Some m"
    then show "exclusive m \<and> (\<forall>k c. child_at m k = Some c \<longrightarrow> child_ok compile k c)"
      using R by (cases ks) (auto simp: wf_tree_def bind_eq_Some_conv)
  qed
qed

lemma wf_tree_child:
  "wf_tree compile n \<Longrightarrow> child_at n k = Some c \<Longrightarrow> child_ok compile k c \<and> wf_tree compile c"
  by (simp add: wf_tree_iff [of compile n])

lemma wf_tree_leaf:
  assumes "\<And>sl. child_at n sl = None"
  shows "wf_tree compile n"
  using assms [of SStar] assms [of SParam]
  by (simp add: wf_tree_iff [of compile n] assms exclusive_def)

lemma exclusive_cong:
  "(\<And>sl. child_at a sl = child_at b sl) \<Longrightarrow> exclusive a = exclusive b"
  unfolding exclusive_def by (metis child_at.simps)

lemma wf_tree_put_handler [simp]: "wf_tree compile (put_handler h n) = wf_tree compile n"
  unfolding wf_tree_iff [of compile n] wf_tree_iff [of compile "put_handler h n"]
  by (simp add: exclusive_def)

lemma childOrCreate_exclusive:
  assumes "childOrCreate compile n s = Inr (n', sl)" "exclusive n"
  shows "exclusive (put_child sl c n')"
  using assms
  by (auto simp: childOrCreate_def childOrCreateParam_def childOrCreateRegex_def exclusive_def
        split: if_splits option.splits prod.splits)

lemma childOrCreate_child_ok:
  assumes "childOrCreate compile n s = Inr (n', sl)" "s \<noteq> ''''" "CHR ''/'' \<notin> set s"
    and "\<And>k c. child_at n k = Some c \<Longrightarrow> child_ok compile k c"
  shows "child_ok compile sl (the (child_at n' sl))"
proof (cases "child_at n (slot_of s)")
  case None
  have re: "compile e" if "n_regExpr (fresh_child s :: 'a node) = Some e" for e
    using assms(1) None that
    by (auto simp: childOrCreate_def childOrCreateRegex_def fresh_child_def slot_of_def
          split: if_splits option.splits prod.splits)
  have sl: "sl = slot_of s" using childOrCreate_Inr(1)[OF assms(1)] .
  have c: "the (child_at n' sl) = fresh_child s"
    using childOrCreate_child[OF assms(1)] None by simp
  show ?thesis unfolding c using re assms(2,3) by (simp add: child_ok_def sl)
next
  case (Some c)
  have sl: "sl = slot_of s" using childOrCreate_Inr(1)[OF assms(1)] .
  have c: "the (child_at n' sl) = c"
    using childOrCreate_child[OF assms(1)] Some by simp
  show ?thesis unfolding c using assms(4)[OF Some] by (simp add: sl)
qed

lemma addSegments_fields:
  "addSegments compile n ss h = (n', e) \<Longrightarrow>
     n_typ n' = n_typ n \<and> n_path n' = n_path n \<and> n_paramName n' = n_paramName n \<and>
     n_regExpr n' = n_regExpr n"
proof (cases ss)
  case (Cons s ss')
  assume "addSegments compile n ss h = (n', e)"
  then show ?thesis
    unfolding Cons
    by (auto simp: childOrCreate_def childOrCreateParam_def childOrCreateRegex_def Let_def
          split: if_splits option.splits prod.splits sum.splits)
qed (auto split: if_splits)

lemma child_ok_addSegments:
  assumes "addSegments compile c ss h = (c', e)"
  shows "child_ok compile sl c' = child_ok compile sl c"
  using addSegments_fields[OF assms] by (simp add: child_ok_def)

lemma addSegments_wf:
  "\<lbrakk>addSegments compile n ss h = (n', e); wf_tree compile n; \<forall>s \<in> set ss. CHR ''/'' \<notin> set s\<rbrakk>
     \<Longrightarrow> wf_tree compile n'"
proof (induction compile n ss h arbitrary: n' e rule: addSegments.induct)
  case (1 compile n h)
  then show ?case by (auto split: if_splits)
next
  case (2 compile n s ss h)
  show ?case
  proof (cases "s = '''' \<or> (\<exists>x. childOrCreate compile n s = Inl x)")
    case True
    then show ?thesis using 2 by (auto split: if_splits)
  next
    case False
    then obtain m sl where m: "childOrCreate compile n s = Inr (m, sl)" and s: "s \<noteq> ''''"
      by (metis obj_sumE surj_pair)
    obtain c r where c: "addSegments compile (the (child_at m sl)) ss h = (c, r)" by force
    have n': "n' = put_child sl c m" using 2(2) m s c by auto
    have n: "exclusive n" "\<And>k d. child_at n k = Some d \<Longrightarrow> child_ok compile k d \<and> wf_tree compile d"
      using 2(3) unfolding wf_tree_iff [of compile n] by blast+
    have "wf_tree compile (the (child_at m sl))"
      unfolding childOrCreate_child[OF m] using n(2) by (auto intro: wf_tree_leaf split: option.split)
    then have wfc: "wf_tree compile c" using 2(1)[OF s m refl c] 2(4) by simp
    have "child_ok compile sl (the (child_at m sl))"
      by (rule childOrCreate_child_ok[OF m s]) (use 2(4) n(2) in auto)
    then have okc: "child_ok compile sl c" using child_ok_addSegments[OF c] by simp
    show ?thesis
      unfolding n' wf_tree_iff [of compile "put_child sl c m"]
      using childOrCreate_exclusive[OF m n(1)] childOrCreate_put[OF m] childOrCreate_Inr(1)[OF m]
        wfc okc n(2)
      by (auto simp del: child_at_put_child split: if_splits)
  qed
qed

section \<open>Which node a request reaches\<close>

text \<open>
  \<open>takes rmatch n ss qs\<close>: in the tree \<open>n\<close> the pattern \<open>ss\<close> is present, and each segment of the
  request \<open>qs\<close> fits the segment of the pattern and is no static child of the node it is
  looked up in, unless the pattern's segment is that static child. A wildcard with a
  handler, as the last segment of a pattern, takes any number of further segments.
\<close>

fun takes :: "(string \<Rightarrow> string \<Rightarrow> bool) \<Rightarrow> 'h node \<Rightarrow> string list \<Rightarrow> string list \<Rightarrow> bool" where
  "takes rmatch n [] qs = (qs = [])"
| "takes rmatch n (s # ss) [] = False"
| "takes rmatch n (s # ss) (q # qs) =
     (case child_at n (slot_of s) of
        None \<Rightarrow> False
      | Some c \<Rightarrow>
          n_path c = s \<and>
          (case slot_of s of
             SStatic t \<Rightarrow> q = s \<and> takes rmatch c ss qs
           | SParam \<Rightarrow> n_children n q = None \<and> takes rmatch c ss qs
           | SRegex \<Rightarrow> n_children n q = None \<and> rmatch (fst (snd (parseParam s))) q \<and> takes rmatch c ss qs
           | SStar \<Rightarrow> n_children n q = None \<and> ss = [] \<and> n_handler c \<noteq> None))"

definition segment_param :: "string \<Rightarrow> string" where
  "segment_param s =
     (case slot_of s of SParam \<Rightarrow> fst (parseParam s) | SRegex \<Rightarrow> fst (parseParam s) | _ \<Rightarrow> '''')"

fun bind_params :: "string list \<Rightarrow> string list \<Rightarrow> (string \<rightharpoonup> string) \<Rightarrow> (string \<rightharpoonup> string)" where
  "bind_params (s # ss) (q # qs) m =
     bind_params ss qs (if segment_param s \<noteq> '''' then m(segment_param s \<mapsto> q) else m)"
| "bind_params _ _ m = m"

lemma slot_of_SStatic: "slot_of s = SStatic t \<Longrightarrow> t = s"
  by (auto simp: slot_of_def split: if_splits)

lemma child_ok_fields:
  assumes "child_ok compile (slot_of s) c" "n_path c = s"
  shows "n_paramName c = segment_param s"
    and "slot_of s \<noteq> SStar \<Longrightarrow> n_typ c \<noteq> nodeTypeAny"
    and "slot_of s = SStar \<Longrightarrow> n_typ c = nodeTypeAny"
    and "slot_of s = SRegex \<Longrightarrow> n_regExpr c = Some (fst (snd (parseParam s)))"
  using assms by (auto simp: child_ok_def fresh_child_def segment_param_def split: slot.splits)

lemma childOf_takes:
  assumes "takes rmatch n (s # ss) (q # qs)" "wf_tree compile n" "child_at n (slot_of s) = Some c"
  shows "childOf rmatch n q = Some c"
proof -
  have ok: "child_ok compile (slot_of s) c" and ex: "exclusive n"
    using assms(2,3) unfolding wf_tree_iff [of compile n] by blast+
  have path: "n_path c = s" using assms(1,3) by (simp split: slot.splits)
  show ?thesis
    using assms(1,3) ex child_ok_fields(4)[OF ok path]
    by (auto simp: childOf_def childOfNonStatic_def exclusive_def dest: slot_of_SStatic
          split: slot.splits option.splits)
qed

text \<open>The path \<^verbatim>\<open>findInTree\<close> reports for the pattern.\<close>

definition matched_from :: "nat \<Rightarrow> string list \<Rightarrow> string \<Rightarrow> string" where
  "matched_from i ss m =
     (if ss = [] then m else (if i = 0 then '''' else m) @ concat (map ((#) CHR ''/'') ss))"

lemma matched_from_Cons:
  "matched_from (Suc i) ss (if i = 0 then ''/'' @ s else m @ ''/'' @ s) = matched_from i (s # ss) m"
  by (simp add: matched_from_def)

lemma findSegments_takes:
  "\<lbrakk>takes rmatch n ss qs; wf_tree compile n\<rbrakk> \<Longrightarrow>
     \<exists>t. node_at n (map slot_of ss) = Some t \<and>
         findSegments rmatch n i qs mi =
           Some (mi\<lparr>mi_node := Some t, paramPath := bind_params ss qs (paramPath mi),
                    matchedPath := matched_from i ss (matchedPath mi)\<rparr>)"
proof (induction rmatch n ss qs arbitrary: i mi rule: takes.induct)
  case (1 rmatch n qs)
  then show ?case by (simp add: matched_from_def)
next
  case (2 rmatch n s ss)
  then show ?case by simp
next
  case (3 rmatch n s ss q qs)
  from "3.prems"(1) obtain c where c: "child_at n (slot_of s) = Some c" and path: "n_path c = s"
    by (auto split: option.splits)
  have wfc: "wf_tree compile c" and ok: "child_ok compile (slot_of s) c"
    using wf_tree_child[OF "3.prems"(2) c] by simp_all
  note child = childOf_takes[OF "3.prems" c] child_ok_fields(1)[OF ok path]
  let ?mi = "extendPath i s mi"
  let ?mi' = "if segment_param s \<noteq> '''' then addValue (segment_param s) q ?mi else ?mi"
  show ?case
  proof (cases "slot_of s = SStar")
    case True
    have "ss = []" "n_handler c \<noteq> None" "n_typ c = nodeTypeAny" "segment_param s = ''''"
      using "3.prems"(1) c True child_ok_fields(3)[OF ok path True] by (simp_all add: segment_param_def)
    then show ?thesis
      using child path c by (simp add: extendPath_def matched_from_def)
  next
    case False
    then have rest: "takes rmatch c ss qs" using "3.prems"(1) c by (simp split: slot.splits)
    have "\<exists>t. node_at c (map slot_of ss) = Some t \<and>
         findSegments rmatch c (Suc i) qs ?mi' =
           Some (?mi'\<lparr>mi_node := Some t, paramPath := bind_params ss qs (paramPath ?mi'),
                    matchedPath := matched_from (Suc i) ss (matchedPath ?mi')\<rparr>)"
    proof (cases "slot_of s")
      case (SStatic t)
      show ?thesis by (rule "3.IH"(1)[OF c SStatic rest wfc])
    next
      case SStar
      then show ?thesis using False by simp
    next
      case SParam
      show ?thesis by (rule "3.IH"(2)[OF c SParam rest wfc])
    next
      case SRegex
      show ?thesis by (rule "3.IH"(3)[OF c SRegex rest wfc])
    qed
    then obtain t where t: "node_at c (map slot_of ss) = Some t"
        "findSegments rmatch c (Suc i) qs ?mi' =
           Some (?mi'\<lparr>mi_node := Some t, paramPath := bind_params ss qs (paramPath ?mi'),
                    matchedPath := matched_from (Suc i) ss (matchedPath ?mi')\<rparr>)"
      by blast
    have step: "findSegments rmatch n i (q # qs) mi = findSegments rmatch c (Suc i) qs ?mi'"
      using child path child_ok_fields(2)[OF ok path False] by simp
    show ?thesis
      using t c unfolding step
      by (simp add: extendPath_def addValue_def matched_from_Cons [symmetric])
  qed
qed

text \<open>The star fallback of the loop is never taken: \<^verbatim>\<open>childOf\<close> already tries the wildcard.\<close>

lemma childOf_None_star: "childOf rmatch n q = None \<Longrightarrow> n_starChild n = None"
  by (auto simp: childOf_def childOfNonStatic_def split: option.splits if_splits)

lemma takes_static:
  "\<lbrakk>wf_tree compile n; node_at n (map slot_of ss) \<noteq> None; \<forall>s \<in> set ss. slot_of s = SStatic s\<rbrakk>
     \<Longrightarrow> takes rmatch n ss ss"
proof (induction ss arbitrary: n)
  case (Cons s ss)
  have s: "slot_of s = SStatic s" using Cons.prems(3) by simp
  obtain c where c: "n_children n s = Some c" "node_at c (map slot_of ss) \<noteq> None"
    using Cons.prems(2) by (cases "n_children n s") (auto simp: s)
  have "child_ok compile (SStatic s) c" "wf_tree compile c"
    using wf_tree_child[OF Cons.prems(1), of "SStatic s" c] c(1) by simp_all
  moreover have "n_path c = s"
    using \<open>child_ok compile (SStatic s) c\<close> slot_of_SStatic[of "n_path c" s]
    unfolding child_ok_def by simp
  ultimately show ?case using Cons.IH[of c] Cons.prems(3) c by (simp add: s)
qed simp

section \<open>Routers\<close>

definition wf_router :: "(string \<Rightarrow> bool) \<Rightarrow> 'h router \<Rightarrow> bool" where
  "wf_router compile r \<longleftrightarrow> (\<forall>m t. trees r m = Some t \<longrightarrow> wf_tree compile t)"

text \<open>The abstract router: for each method a table from patterns to handlers.\<close>

definition routes :: "'h router \<Rightarrow> string \<Rightarrow> slot list \<rightharpoonup> 'h" where
  "routes r m = (case trees r m of None \<Rightarrow> Map.empty | Some t \<Rightarrow> handlers t)"

definition route_segments :: "string \<Rightarrow> string list" where
  "route_segments p = (if p = ''/'' then [] else split_on CHR ''/'' (tl p))"

definition route_key :: "string \<Rightarrow> slot list" where
  "route_key p = map slot_of (route_segments p)"

definition root_of :: "'h router \<Rightarrow> string \<Rightarrow> 'h node" where
  "root_of r m =
     (case trees r m of None \<Rightarrow> new_node nodeTypeStatic ''/'' '''' None | Some t \<Rightarrow> t)"

lemma handlers_root_of: "handlers (root_of r m) = routes r m"
proof
  fix ks show "handlers (root_of r m) ks = routes r m ks"
    by (cases ks) (simp_all add: root_of_def routes_def split: option.split)
qed

lemma wf_root_of: "wf_router compile r \<Longrightarrow> wf_tree compile (root_of r m)"
  by (auto simp: root_of_def wf_router_def intro: wf_tree_leaf split: option.split)

text \<open>The cases of \<^verbatim>\<open>addRoute\<close>: a rejected path, or a walk from the root of the method.\<close>

lemma addRoute_cases:
  assumes "addRoute compile r m p h = (r', e)"
  obtains (rejected) x where "r' = r" "e = Some x"
  | (walked) t where "hd p = CHR ''/''" "p \<noteq> ''''" "p = ''/'' \<or> last p \<noteq> CHR ''/''"
      "r' = r\<lparr>trees := (trees r)(m \<mapsto> t)\<rparr>"
      "(\<exists>x. p = ''/'' \<and> e = Some x \<and> t = root_of r m) \<or>
       addSegments compile (root_of r m) (route_segments p) h = (t, e)"
proof (cases "p = '''' \<or> hd p \<noteq> CHR ''/'' \<or> p \<noteq> ''/'' \<and> last p = CHR ''/''")
  case True
  then have "\<exists>x. addRoute compile r m p h = (r, Some x)" by (auto simp: addRoute_def)
  then show thesis using assms rejected by auto
next
  case False
  then have ok: "hd p = CHR ''/''" "p \<noteq> ''''" "p = ''/'' \<or> last p \<noteq> CHR ''/''" by auto
  show thesis
  proof (cases "p = ''/''")
    case True
    show thesis
      by (rule walked[OF ok, where t = "if n_handler (root_of r m) \<noteq> None then root_of r m
                                         else put_handler h (root_of r m)"])
        (use assms True in \<open>auto simp: addRoute_def root_of_def [symmetric] route_segments_def
           split: if_splits\<close>)
  next
    case False
    obtain t x where t: "addSegments compile (root_of r m) (route_segments p) h = (t, x)" by force
    then have "addRoute compile r m p h = (r\<lparr>trees := (trees r)(m \<mapsto> t)\<rparr>, x)"
      using ok False by (simp add: addRoute_def root_of_def [symmetric] route_segments_def)
    then show thesis using assms t by (intro walked[OF ok, where t = t]) auto
  qed
qed

lemma route_segments_no_slash: "\<forall>s \<in> set (route_segments p). CHR ''/'' \<notin> set s"
  by (auto simp: route_segments_def dest: split_on_segment_no_sep)

lemma concat_join: "ss \<noteq> [] \<Longrightarrow> concat (map ((#) c) ss) = c # join [c] ss"
proof (induction ss)
  case (Cons s ss)
  then show ?case by (cases "ss = []") (auto simp: join_Cons)
qed simp

definition clean_segments :: "string list \<Rightarrow> bool" where
  "clean_segments qs \<longleftrightarrow> qs \<noteq> [] \<and> (\<forall>q \<in> set qs. q \<noteq> '''' \<and> CHR ''/'' \<notin> set q)"

lemma join_clean:
  "clean_segments qs \<Longrightarrow>
     join ''/'' qs \<noteq> '''' \<and> hd (join ''/'' qs) \<noteq> CHR ''/'' \<and> last (join ''/'' qs) \<noteq> CHR ''/''"
proof (induction qs)
  case (Cons q qs)
  show ?case
  proof (cases "qs = []")
    case True
    then show ?thesis using Cons.prems by (auto simp: clean_segments_def dest: hd_in_set last_in_set)
  next
    case False
    then have "clean_segments qs" using Cons.prems by (auto simp: clean_segments_def)
    moreover have "q \<noteq> ''''" "CHR ''/'' \<notin> set q" using Cons.prems by (auto simp: clean_segments_def)
    ultimately show ?thesis using Cons.IH False by (auto simp: join_Cons dest: hd_in_set)
  qed
qed (simp add: clean_segments_def)

lemma findInTree_clean:
  assumes "clean_segments qs"
  shows "findInTree rmatch t (CHR ''/'' # join ''/'' qs) =
           findSegments rmatch t 0 qs empty_matchInfo"
proof -
  note j = join_clean[OF assms]
  have "trim_by (\<lambda>c. c = CHR ''/'') (CHR ''/'' # join ''/'' qs) =
        trim_by (\<lambda>c. c = CHR ''/'') (join ''/'' qs)"
    by (simp add: trim_by_def)
  also have "\<dots> = join ''/'' qs" by (rule trim_by_id) (use j in simp)
  finally have "split_on CHR ''/'' (trim_by (\<lambda>c. c = CHR ''/'') (CHR ''/'' # join ''/'' qs)) = qs"
    using split_on_join[of qs "CHR ''/''"] assms by (simp add: clean_segments_def)
  then show ?thesis using j by (simp add: findInTree_def)
qed

lemma findRoute_takes:
  assumes "trees r m = Some t" "wf_tree compile t" "takes rmatch t ss qs" "clean_segments qs"
  shows "\<exists>mi nd. findRoute rmatch order r m (CHR ''/'' # join ''/'' qs) = Some mi \<and>
           mi_node mi = Some nd \<and> n_handler nd = handlers t (map slot_of ss) \<and>
           paramPath mi = bind_params ss qs Map.empty \<and>
           matchedPath mi = CHR ''/'' # join ''/'' ss \<and> \<not> methodNotAllowed mi"
proof -
  obtain nd where nd: "node_at t (map slot_of ss) = Some nd"
      "findSegments rmatch t 0 qs empty_matchInfo =
         Some (empty_matchInfo\<lparr>mi_node := Some nd,
           paramPath := bind_params ss qs (paramPath (empty_matchInfo :: 'a matchInfo)),
           matchedPath := matched_from 0 ss (matchedPath (empty_matchInfo :: 'a matchInfo))\<rparr>)"
    using findSegments_takes[OF assms(3,2)] by blast
  have "ss \<noteq> []" using assms(3,4) by (cases ss) (auto simp: clean_segments_def)
  then show ?thesis
    using nd assms(1)
    by (simp add: findRoute_def findInTree_clean[OF assms(4)] empty_matchInfo_def handlers_def
          matched_from_def concat_join)
qed

lemma bind_params_static:
  "\<forall>s \<in> set ss. slot_of s = SStatic s \<Longrightarrow> bind_params ss qs m = m"
  by (induction ss qs m rule: bind_params.induct) (simp_all add: segment_param_def)

lemma findSegments_allowed:
  "findSegments rmatch n i qs mi = Some mi' \<Longrightarrow> methodNotAllowed mi' = methodNotAllowed mi"
proof (induction qs arbitrary: n i mi)
  case (Cons q qs)
  show ?case
  proof (cases "childOf rmatch n q")
    case None
    then show ?thesis using Cons.prems by (simp add: childOf_None_star)
  next
    case (Some c)
    then show ?thesis
      using Cons.prems Cons.IH by (fastforce simp: Let_def extendPath_def addValue_def split: if_splits)
  qed
qed auto

lemma findInTree_allowed: "findInTree rmatch t p = Some mi \<Longrightarrow> \<not> methodNotAllowed mi"
  by (auto simp: findInTree_def empty_matchInfo_def dest: findSegments_allowed split: if_splits)

lemma addSegments_clean:
  "addSegments compile n ss h = (n', None) \<Longrightarrow> \<forall>s \<in> set ss. s \<noteq> ''''"
proof (induction compile n ss h arbitrary: n' rule: addSegments.induct)
  case (2 compile n s ss h)
  show ?case
  proof (cases "childOrCreate compile n s")
    case (Inr x)
    obtain m sl where x: "x = (m, sl)" by force
    obtain c r where c: "addSegments compile (the (child_at m sl)) ss h = (c, r)" by force
    from "2.prems" Inr x c have "s \<noteq> ''''" "r = None" by (auto split: if_splits)
    then show ?thesis using "2.IH"[OF _ Inr x [symmetric]] c by simp
  qed (use "2.prems" in \<open>auto split: if_splits\<close>)
qed simp

text \<open>What a successful registration leaves in the router.\<close>

lemma addRoute_ok:
  assumes "addRoute compile r m p h = (r', None)" "wf_router compile r"
  obtains t where "trees r' m = Some t" "wf_tree compile t"
    "handlers t = (routes r m)(route_key p := h)"
    "p \<noteq> ''/'' \<Longrightarrow> clean_segments (route_segments p)"
    "p \<noteq> ''/'' \<Longrightarrow> p = CHR ''/'' # join ''/'' (route_segments p)"
  using assms(1)
proof (cases rule: addRoute_cases)
  case (walked t)
  then have seg: "addSegments compile (root_of r m) (route_segments p) h = (t, None)" by simp
  show ?thesis
  proof (rule that)
    show "trees r' m = Some t" using walked by simp
    show "wf_tree compile t"
      using addSegments_wf[OF seg wf_root_of[OF assms(2)] route_segments_no_slash] .
    show "handlers t = (routes r m)(route_key p := h)"
      using addSegments_handlers[OF seg] by (simp add: handlers_root_of route_key_def)
    show "clean_segments (route_segments p)" if "p \<noteq> ''/''"
      using addSegments_clean[OF seg] route_segments_no_slash[of p] that
      by (auto simp: clean_segments_def route_segments_def)
    show "p = CHR ''/'' # join ''/'' (route_segments p)" if "p \<noteq> ''/''"
      using that walked(1,2) by (cases p) (simp_all add: route_segments_def join_split_on)
  qed
qed simp

section \<open>Properties\<close>

text \<open>
  C13: A router is a table: registering a pattern either stores its handler under the
  pattern of that method, which had none, and changes no other entry of any method, or it
  panics and changes no entry at all, although the nodes it created stay in the tree.
\<close>

theorem addRoute_refines_table:
  "case addRoute compile r m p h of
     (r', None) \<Rightarrow> routes r m (route_key p) = None \<and>
        routes r' = (routes r)(m := (routes r m)(route_key p := h))
   | (r', Some _) \<Rightarrow> routes r' = routes r"
proof -
  obtain r' e where a: "addRoute compile r m p h = (r', e)" by force
  from a show ?thesis
  proof (cases rule: addRoute_cases)
    case (rejected x)
    then show ?thesis by (simp add: a)
  next
    case (walked t)
    have r': "routes r' = (routes r)(m := handlers t)"
      by (auto simp: fun_eq_iff walked(4) routes_def)
    from walked(5) show ?thesis
    proof
      assume "\<exists>x. p = ''/'' \<and> e = Some x \<and> t = root_of r m"
      then show ?thesis unfolding a using r' by (auto simp: handlers_root_of)
    next
      assume s: "addSegments compile (root_of r m) (route_segments p) h = (t, e)"
      show ?thesis
        using addSegments_handlers[OF s] r'
        by (cases e) (simp_all add: a handlers_root_of route_key_def)
    qed
  qed
qed

text \<open>
  C29: Registration keeps every tree well formed, whether it succeeds or panics: a wildcard,
  a path parameter and a regular expression never share a position, every node sits where
  its path belongs, and every stored expression is one that compiled.
\<close>

theorem addRoute_keeps_wf:
  assumes "wf_router compile r"
  shows "wf_router compile (fst (addRoute compile r m p h))"
proof -
  obtain r' e where a: "addRoute compile r m p h = (r', e)" by force
  from a show ?thesis
  proof (cases rule: addRoute_cases)
    case (rejected x)
    then show ?thesis using assms by (simp add: a)
  next
    case (walked t)
    have "wf_tree compile t"
      using walked(5) addSegments_wf[OF _ wf_root_of[OF assms] route_segments_no_slash]
        wf_root_of[OF assms] by blast
    then show ?thesis using assms by (auto simp: a walked(4) wf_router_def)
  qed
qed

lemma wf_newRouter [simp]: "wf_router compile newRouter"
  by (simp add: wf_router_def newRouter_def)

theorem addRoute_keeps_wf_witness:
  "wf_router (\<lambda>e. e \<noteq> '''') (fst (addRoute (\<lambda>e. e \<noteq> '''') newRouter ''GET'' ''/a/:id([0-9]+)'' (Some (1::nat))))"
  by (rule addRoute_keeps_wf) simp

text \<open>
  C16: A request that fits a registered pattern, and whose segments are not names of static
  siblings, is dispatched to the handler of the pattern; the path parameters are the
  request's segments, and the matched path is the pattern.
\<close>

theorem findRoute_dispatches:
  assumes "wf_router compile r" "addRoute compile r m p (Some h) = (r', None)" "p \<noteq> ''/''"
    and "clean_segments qs" "takes rmatch (root_of r' m) (route_segments p) qs"
  shows "\<exists>mi nd. findRoute rmatch order r' m (''/'' @ join ''/'' qs) = Some mi \<and>
           mi_node mi = Some nd \<and> n_handler nd = Some h \<and>
           paramPath mi = bind_params (route_segments p) qs Map.empty \<and>
           matchedPath mi = p \<and> \<not> methodNotAllowed mi"
proof (rule addRoute_ok[OF assms(2,1)])
  fix t
  assume t: "trees r' m = Some t" "wf_tree compile t"
    "handlers t = (routes r m)(route_key p := Some h)"
    and p: "p \<noteq> ''/'' \<Longrightarrow> p = CHR ''/'' # join ''/'' (route_segments p)"
  have "takes rmatch t (route_segments p) qs" using assms(5) t(1) by (simp add: root_of_def)
  note findRoute_takes[OF t(1,2) this assms(4)]
  moreover have "handlers t (map slot_of (route_segments p)) = Some h"
    using t(3) by (simp add: route_key_def)
  ultimately show ?thesis using p[OF assms(3), symmetric] by simp
qed

lemma demo_param_route:
  "addRoute (\<lambda>e. True) newRouter ''GET'' ''/u/:id'' (Some h) =
     (\<lparr>trees = [''GET'' \<mapsto> put_child (SStatic ''u'')
        (put_child SParam (put_handler (Some h) (new_node nodeTypeParam '':id'' ''id'' None))
           (new_node nodeTypeStatic ''u'' '''' None))
        (new_node nodeTypeStatic ''/'' '''' None)]\<rparr>, None)"
  by (simp add: addRoute_def newRouter_def childOrCreate_def childOrCreateParam_def parseParam_def
        split2_def new_node_def)

theorem findRoute_dispatches_witness:
  "\<exists>mi nd. findRoute (\<lambda>e s. True) [''GET'']
       (fst (addRoute (\<lambda>e. True) newRouter ''GET'' ''/u/:id'' (Some (1::nat)))) ''GET'' ''/u/42'' = Some mi \<and>
     mi_node mi = Some nd \<and> n_handler nd = Some 1 \<and> paramPath mi = [''id'' \<mapsto> ''42''] \<and>
     matchedPath mi = ''/u/:id'' \<and> \<not> methodNotAllowed mi"
proof -
  let ?a = "addRoute (\<lambda>e. True) newRouter ''GET'' ''/u/:id'' (Some (1::nat))"
  have a: "?a = (fst ?a, None)" by (simp add: demo_param_route)
  have segs: "route_segments ''/u/:id'' = [''u'', '':id'']" by (simp add: route_segments_def)
  have slots: "slot_of ''u'' = SStatic ''u''" "slot_of '':id'' = SParam"
    by (simp_all add: slot_of_def parseParam_def split2_def)
  have "takes (\<lambda>e s. True) (root_of (fst ?a) ''GET'') (route_segments ''/u/:id'') [''u'', ''42'']"
    by (simp add: segs slots root_of_def demo_param_route new_node_def)
  moreover have "clean_segments [''u'', ''42'']" by (simp add: clean_segments_def)
  moreover have "bind_params (route_segments ''/u/:id'') [''u'', ''42''] Map.empty = [''id'' \<mapsto> ''42'']"
    by (simp add: segs slots segment_param_def parseParam_def split2_def)
  ultimately show ?thesis
    using findRoute_dispatches[OF wf_newRouter a, of "[''u'', ''42'']" "\<lambda>e s. True" "[''GET'']"]
    by simp
qed

lemma static_route_found:
  assumes "wf_router compile r" "addRoute compile r m p (Some h) = (r', None)"
    and "\<forall>s \<in> set (route_segments p). slot_of s = SStatic s"
  shows "\<exists>mi nd. findRoute rmatch order r' m p = Some mi \<and> mi_node mi = Some nd \<and>
           n_handler nd = Some h \<and> paramPath mi = Map.empty \<and> matchedPath mi = p \<and>
           \<not> methodNotAllowed mi"
proof (rule addRoute_ok[OF assms(2,1)])
  fix t
  assume t: "trees r' m = Some t" "wf_tree compile t"
    "handlers t = (routes r m)(route_key p := Some h)"
    and clean: "p \<noteq> ''/'' \<Longrightarrow> clean_segments (route_segments p)"
    and p: "p \<noteq> ''/'' \<Longrightarrow> p = CHR ''/'' # join ''/'' (route_segments p)"
  have h: "handlers t (map slot_of (route_segments p)) = Some h"
    using t(3) by (simp add: route_key_def)
  show ?thesis
  proof (cases "p = ''/''")
    case True
    then show ?thesis
      using t(1) h by (simp add: findRoute_def findInTree_def empty_matchInfo_def route_segments_def)
  next
    case False
    have "node_at t (map slot_of (route_segments p)) \<noteq> None"
      using h by (cases "node_at t (map slot_of (route_segments p))") (auto simp: handlers_def)
    then have "takes rmatch t (route_segments p) (route_segments p)"
      by (rule takes_static[OF t(2)]) (use assms(3) in simp)
    note findRoute_takes[OF t(1,2) this clean[OF False]]
    then show ?thesis using p[OF False, symmetric] h bind_params_static[OF assms(3)] by simp
  qed
qed

text \<open>
  A static route, once registered, is found under its own path, whatever else the router
  holds: no wildcard, parameter or expression registered earlier can take its requests.
\<close>

lemma findRoute_static:
  assumes "wf_router compile r" "addRoute compile r m p (Some h) = (r', None)"
    and "\<forall>s \<in> set (route_segments p). slot_of s = SStatic s"
  shows "\<exists>mi nd. findRoute rmatch order r' m p = Some mi \<and> mi_node mi = Some nd \<and>
           n_handler nd = Some h \<and> paramPath mi = Map.empty \<and> matchedPath mi = p \<and>
           \<not> methodNotAllowed mi"
  by (rule static_route_found[OF assms])



text \<open>
  Reusing a regular expression segment is impossible below any node that is not itself
  a regular expression node: \<^verbatim>\<open>childOrCreateRegex\<close> compares the new expression with the one
  of the parent, which is nil, and the call panics even when the segment is the one
  registered before.
\<close>

lemma regex_segment_not_reusable:
  assumes "childOrCreate compile n s = Inr (n', SRegex)" "n_regExpr n = None"
  shows "childOrCreate compile n' s = Inl NilRegexp"
  using assms
  by (auto simp: childOrCreate_def childOrCreateParam_def childOrCreateRegex_def
        split: if_splits option.splits prod.splits)

text \<open>
  A node that only leads to longer routes answers for its own path: with \<^verbatim>\<open>GET /a/b\<close> and
  \<^verbatim>\<open>POST /a\<close> registered, \<^verbatim>\<open>GET /a\<close> is reported as found, at a node without handler, instead
  of 405.
\<close>

lemma inner_node_hides_405:
  "let r = fst (addRoute compile (fst (addRoute compile newRouter ''GET'' ''/a/b'' (Some h)))
                  ''POST'' ''/a'' (Some h'))
   in \<exists>mi nd. findRoute rmatch [''GET'', ''POST''] r ''GET'' ''/a'' = Some mi \<and>
        mi_node mi = Some nd \<and> n_handler nd = None \<and> \<not> methodNotAllowed mi \<and>
        routes r ''POST'' (route_key ''/a'') = Some h'"
  by (simp add: addRoute_def newRouter_def childOrCreate_def new_node_def findRoute_def
        findInTree_def trim_by_def childOf_def Let_def empty_matchInfo_def extendPath_def routes_def
        route_key_def route_segments_def slot_of_def)

end
