(* ===== verification/WebServer.thy ===== *)
theory WebServer
  imports Router "HOL-Library.Char_ord" "HOL-Library.List_Lexorder"
begin

text \<open>
  The request path of the web framework: \<^verbatim>\<open>web/context.go\<close>, \<^verbatim>\<open>web/group.go\<close> and
  \<^verbatim>\<open>web/server.go\<close>. A handler is a function on the world and the context of the request
  that may end in a panic; the world \<open>'w\<close> is whatever lives longer than a request (log
  sinks, rate limiter tables). The response writer of \<^verbatim>\<open>net/http\<close> keeps the headers as they
  were at the first \<^verbatim>\<open>WriteHeader\<close>, so only the first call decides the status.
\<close>

section \<open>Headers, requests, responses\<close>

type_synonym headers = "string \<rightharpoonup> string list"

text \<open>\<^verbatim>\<open>textproto.CanonicalMIMEHeaderKey\<close>: a key with a byte that is no token byte stays.\<close>

definition upper_char :: "char \<Rightarrow> char" where
  "upper_char c = (if of_char c \<in> {97 .. 122 :: nat} then char_of (of_char c - 32 :: nat) else c)"

definition is_token_char :: "char \<Rightarrow> bool" where
  "is_token_char c \<longleftrightarrow>
     of_char c \<in> {48 .. 57 :: nat} \<or> of_char c \<in> {65 .. 90 :: nat} \<or> of_char c \<in> {97 .. 122 :: nat} \<or>
     c \<in> set ''!#$%&*+-.^_|~'' \<or> of_char c \<in> {39, 96 :: nat}"

fun canonical_chars :: "bool \<Rightarrow> string \<Rightarrow> string" where
  "canonical_chars up [] = []"
| "canonical_chars up (c # cs) =
     (if up then upper_char c else lower_char c) # canonical_chars (c = CHR ''-'') cs"

definition canonical_key :: "string \<Rightarrow> string" where
  "canonical_key k = (if k \<noteq> [] \<and> list_all is_token_char k then canonical_chars True k else k)"

definition hget :: "headers \<Rightarrow> string \<Rightarrow> string" where
  "hget h k = (case h (canonical_key k) of Some (v # vs) \<Rightarrow> v | _ \<Rightarrow> '''')"

definition hset :: "headers \<Rightarrow> string \<Rightarrow> string \<Rightarrow> headers" where
  "hset h k v = h(canonical_key k \<mapsto> [v])"

definition hadd :: "headers \<Rightarrow> string \<Rightarrow> string \<Rightarrow> headers" where
  "hadd h k v =
     h(canonical_key k \<mapsto> (case h (canonical_key k) of None \<Rightarrow> [] | Some vs \<Rightarrow> vs) @ [v])"

definition hdel :: "headers \<Rightarrow> string \<Rightarrow> headers" where
  "hdel h k = h(canonical_key k := None)"

record Request =
  Method :: string
  URLPath :: string
  ReqHeader :: headers
  Host :: string
  RemoteAddr :: string
  ContentLength :: int
  Body :: "string option"
  BodyLimit :: "int option"          \<comment> \<open>set by \<^verbatim>\<open>http.MaxBytesReader\<close>\<close>
  URLQuery :: headers                \<comment> \<open>what \<^verbatim>\<open>URL.Query()\<close> parses\<close>

definition no_Request :: Request where
  "no_Request = \<lparr>Method = '''', URLPath = '''', ReqHeader = Map.empty, Host = '''', RemoteAddr = '''',
     ContentLength = 0, Body = None, BodyLimit = None, URLQuery = Map.empty\<rparr>"

record ResponseWriter =
  rw_header :: headers
  rw_status :: "int option"          \<comment> \<open>decided by the first \<^verbatim>\<open>WriteHeader\<close>\<close>
  rw_sent :: headers                 \<comment> \<open>the headers at that moment\<close>
  rw_body :: string

definition new_rw :: ResponseWriter where
  "new_rw = \<lparr>rw_header = Map.empty, rw_status = None, rw_sent = Map.empty, rw_body = ''''\<rparr>"

definition WriteHeader :: "ResponseWriter \<Rightarrow> int \<Rightarrow> ResponseWriter \<times> go_panic option" where
  "WriteHeader rw code =
     (if rw_status rw \<noteq> None then (rw, None)
      else if code < 100 \<or> 999 < code then (rw, Some (UserPanic ''invalid WriteHeader code''))
      else (rw\<lparr>rw_status := Some code, rw_sent := rw_header rw\<rparr>, None))"

definition WriteBody :: "ResponseWriter \<Rightarrow> string \<Rightarrow> ResponseWriter" where
  "WriteBody rw bs = (let rw = fst (WriteHeader rw 200) in rw\<lparr>rw_body := rw_body rw @ bs\<rparr>)"

text \<open>What the client gets when the handler returns.\<close>

definition client_status :: "ResponseWriter \<Rightarrow> int" where
  "client_status rw = (case rw_status rw of Some c \<Rightarrow> c | None \<Rightarrow> 200)"

definition client_headers :: "ResponseWriter \<Rightarrow> headers" where
  "client_headers rw = (case rw_status rw of Some c \<Rightarrow> rw_sent rw | None \<Rightarrow> rw_header rw)"

section \<open>Context\<close>

record Context =
  Resp :: ResponseWriter
  Req :: Request
  PathParams :: "string \<rightharpoonup> string"
  RespStatusCode :: int
  RespData :: string
  RespHeaders :: headers
  MatchedRoute :: string
  RequestID :: string
  cacheQueryValues :: "headers option"
  ctx_done :: bool

type_synonym 'w HandleFunc = "'w \<times> Context \<Rightarrow> ('w \<times> Context) \<times> go_panic option"
type_synonym 'w Middleware = "'w HandleFunc \<Rightarrow> 'w HandleFunc"

definition zero_Context :: Context where
  "zero_Context = \<lparr>Resp = new_rw, Req = no_Request, PathParams = Map.empty, RespStatusCode = 0,
     RespData = '''', RespHeaders = Map.empty, MatchedRoute = '''', RequestID = '''',
     cacheQueryValues = None, ctx_done = False\<rparr>"

definition reset :: "Context \<Rightarrow> Context" where
  "reset c = c\<lparr>Resp := new_rw, Req := no_Request, PathParams := Map.empty, RespStatusCode := 0,
     RespData := '''', RespHeaders := Map.empty, MatchedRoute := '''', RequestID := '''',
     cacheQueryValues := None, ctx_done := False\<rparr>"

datatype StringValue = StrVal string | KeyNotFound

definition QueryValue :: "Context \<Rightarrow> string \<Rightarrow> Context \<times> (go_panic + StringValue)" where
  "QueryValue c key =
     (let c = (if cacheQueryValues c = None then c\<lparr>cacheQueryValues := Some (URLQuery (Req c))\<rparr> else c)
      in (c, case the (cacheQueryValues c) key of
               None \<Rightarrow> Inr KeyNotFound
             | Some [] \<Rightarrow> Inl IndexPanic
             | Some (v # vs) \<Rightarrow> Inr (StrVal v)))"

definition PathValue :: "Context \<Rightarrow> string \<Rightarrow> StringValue" where
  "PathValue c key = (case PathParams c key of None \<Rightarrow> KeyNotFound | Some v \<Rightarrow> StrVal v)"

definition SetHeader :: "string \<Rightarrow> string \<Rightarrow> Context \<Rightarrow> Context" where
  "SetHeader key value c = c\<lparr>RespHeaders := hset (RespHeaders c) key value\<rparr>"

definition GetHeader :: "Context \<Rightarrow> string \<Rightarrow> string" where
  "GetHeader c key = hget (ReqHeader (Req c)) key"

datatype 'e bind_error = NotJSON | NilBody | DecodeError 'e

definition BindJSON :: "(string \<Rightarrow> 'e + 'v) \<Rightarrow> Context \<Rightarrow> 'e bind_error + 'v" where
  "BindJSON decode c =
     (let contentType = to_lower (trim_space (hget (ReqHeader (Req c)) ''Content-Type''));
          contentType = (case index_byte CHR '';'' contentType of
                           Some idx \<Rightarrow> take idx contentType | None \<Rightarrow> contentType);
          contentType = trim_space contentType
      in if contentType \<noteq> ''application/json'' then Inl NotJSON
         else case Body (Req c) of
             None \<Rightarrow> Inl NilBody
           | Some b \<Rightarrow> (case decode b of Inl e \<Rightarrow> Inl (DecodeError e) | Inr v \<Rightarrow> Inr v))"

definition RespJson :: "('v \<Rightarrow> 'e + string) \<Rightarrow> int \<Rightarrow> 'v \<Rightarrow> Context \<Rightarrow> Context \<times> 'e option" where
  "RespJson marshal code val c =
     (case marshal val of
        Inl err \<Rightarrow> (c, Some err)
      | Inr bs \<Rightarrow>
          ((SetHeader ''Content-Type'' ''application/json; charset=utf-8'' c)
             \<lparr>RespStatusCode := code, RespData := bs\<rparr>, None))"

definition RespString :: "('f \<Rightarrow> 'a list \<Rightarrow> string) \<Rightarrow> int \<Rightarrow> 'f \<Rightarrow> 'a list \<Rightarrow> Context \<Rightarrow> Context" where
  "RespString sprintf code fmt vals c =
     (SetHeader ''Content-Type'' ''text/plain; charset=utf-8'' c)
       \<lparr>RespStatusCode := code, RespData := sprintf fmt vals\<rparr>"

definition RespHTML :: "int \<Rightarrow> string \<Rightarrow> Context \<Rightarrow> Context" where
  "RespHTML code html c =
     (SetHeader ''Content-Type'' ''text/html; charset=utf-8'' c)
       \<lparr>RespStatusCode := code, RespData := html\<rparr>"

definition Abort :: "int \<Rightarrow> string \<Rightarrow> Context \<Rightarrow> Context" where
  "Abort code msg c = c\<lparr>ctx_done := True, RespStatusCode := code, RespData := msg\<rparr>"

definition IsDone :: "Context \<Rightarrow> bool" where
  "IsDone c = ctx_done c"

section \<open>Server\<close>

text \<open>
  What Go leaves open: the regular expression engine, the order in which it ranges over the
  trees, and the order in which it ranges over a header map.
\<close>

record runtime =
  rt_match :: "string \<Rightarrow> string \<Rightarrow> bool"
  rt_methods :: "string list"
  rt_range :: "headers \<Rightarrow> string list"

record 'w HTTPServer =
  hs_router :: "'w HandleFunc router"
  hs_mdls :: "'w Middleware list"

definition NewHttpServer :: "'w HTTPServer" where
  "NewHttpServer = \<lparr>hs_router = newRouter, hs_mdls = []\<rparr>"

definition hs_Use :: "'w Middleware list \<Rightarrow> 'w HTTPServer \<Rightarrow> 'w HTTPServer" where
  "hs_Use mdls hs = hs\<lparr>hs_mdls := hs_mdls hs @ mdls\<rparr>"

definition flashHeaders :: "runtime \<Rightarrow> headers \<Rightarrow> headers \<Rightarrow> headers" where
  "flashHeaders rt src dst =
     fold (\<lambda>key h. fold (\<lambda>value h. hadd h key value)
                     (case src key of None \<Rightarrow> [] | Some vs \<Rightarrow> vs) h)
       (rt_range rt src) dst"

definition flashResp :: "runtime \<Rightarrow> Context \<Rightarrow> Context \<times> go_panic option" where
  "flashResp rt c =
     (let rw = (Resp c)\<lparr>rw_header := flashHeaders rt (RespHeaders c) (rw_header (Resp c))\<rparr>;
          (rw, p) = (if RespStatusCode c > 0 then WriteHeader rw (RespStatusCode c) else (rw, None))
      in if p \<noteq> None then (c\<lparr>Resp := rw\<rparr>, p)
         else (c\<lparr>Resp := (if RespData c \<noteq> '''' then WriteBody rw (RespData c) else rw)\<rparr>, None))"

definition serve :: "runtime \<Rightarrow> 'w HTTPServer \<Rightarrow> 'w HandleFunc" where
  "serve rt hs = (\<lambda>(w, c).
     let notFound = ((w, c\<lparr>RespStatusCode := 404, RespData := ''404 page not found''\<rparr>), None)
     in case findRoute (rt_match rt) (rt_methods rt) (hs_router hs) (Method (Req c)) (URLPath (Req c)) of
          None \<Rightarrow> notFound
        | Some mi \<Rightarrow>
            (case Option.bind (mi_node mi) n_handler of
               None \<Rightarrow>
                 if methodNotAllowed mi
                 then ((w, SetHeader ''Allow'' (join '', '' (allowedMethods mi))
                             (c\<lparr>RespStatusCode := 405, RespData := ''405 method not allowed''\<rparr>)), None)
                 else notFound
             | Some h \<Rightarrow> h (w, c\<lparr>PathParams := paramPath mi, MatchedRoute := matchedPath mi\<rparr>)))"

text \<open>The outermost middleware of \<^verbatim>\<open>ServeHTTP\<close>.\<close>

definition flash_mdl :: "runtime \<Rightarrow> 'w Middleware" where
  "flash_mdl rt next = (\<lambda>s.
     case next s of
       (s', Some p) \<Rightarrow> (s', Some p)
     | ((w, c), None) \<Rightarrow>
         if \<not> IsDone c then (case flashResp rt c of (c, p) \<Rightarrow> ((w, c), p)) else ((w, c), None))"

text \<open>
  The world, the response, a panic that leaves \<^verbatim>\<open>ServeHTTP\<close>, and the context that goes back
  to the pool; \<open>pooled\<close> is the context the pool handed out.
\<close>

definition ServeHTTP ::
  "runtime \<Rightarrow> 'w HTTPServer \<Rightarrow> Context \<Rightarrow> ResponseWriter \<Rightarrow> Request \<Rightarrow> 'w \<Rightarrow>
   'w \<times> ResponseWriter \<times> go_panic option \<times> Context" where
  "ServeHTTP rt hs pooled response request w =
     (let c = (reset pooled)\<lparr>Req := request, Resp := response\<rparr>;
          root = foldr (\<lambda>mdl h. mdl h) (hs_mdls hs) (serve rt hs);
          ((w, c), p) = flash_mdl rt root (w, c)
      in (w, Resp c, p, reset c))"

definition hs_addRoute ::
  "(string \<Rightarrow> bool) \<Rightarrow> string \<Rightarrow> string \<Rightarrow> 'w HandleFunc \<Rightarrow> 'w HTTPServer \<Rightarrow> 'w HTTPServer \<times> route_panic option"
where
  "hs_addRoute compile method p handler hs =
     (let (r, e) = addRoute compile (hs_router hs) method p (Some handler) in (hs\<lparr>hs_router := r\<rparr>, e))"

definition hs_Get where "hs_Get compile = hs_addRoute compile ''GET''"
definition hs_Post where "hs_Post compile = hs_addRoute compile ''POST''"
definition hs_Put where "hs_Put compile = hs_addRoute compile ''PUT''"
definition hs_Delete where "hs_Delete compile = hs_addRoute compile ''DELETE''"
definition hs_Patch where "hs_Patch compile = hs_addRoute compile ''PATCH''"
definition hs_Options where "hs_Options compile = hs_addRoute compile ''OPTIONS''"
definition hs_Head where "hs_Head compile = hs_addRoute compile ''HEAD''"

text \<open>\<open>fileServer prefix\<close> is the file server of \<^verbatim>\<open>net/http\<close> behind \<^verbatim>\<open>StripPrefix\<close>.\<close>

definition Static ::
  "(string \<Rightarrow> bool) \<Rightarrow> (string \<Rightarrow> Request \<Rightarrow> ResponseWriter \<Rightarrow> ResponseWriter) \<Rightarrow> string \<Rightarrow>
   'w HTTPServer \<Rightarrow> 'w HTTPServer \<times> route_panic option" where
  "Static compile fileServer prefix hs =
     (let cleanPrefix = (if has_prefix ''/'' prefix then prefix else ''/'' @ prefix);
          cleanPrefix = trim_suffix ''/'' cleanPrefix
      in hs_Get compile (cleanPrefix @ ''/*'')
           (\<lambda>(w, c). ((w, c\<lparr>Resp := fileServer cleanPrefix (Req c) (Resp c), ctx_done := True\<rparr>), None)) hs)"

section \<open>Groups\<close>

text \<open>
  Groups are objects that point to their parent, so that a middleware added to the parent
  later also counts for the child. The list is the store of all groups; a group is created
  after its parent, which is what makes the walk to the root end.
\<close>

record 'w RouterGroup =
  rg_prefix :: string
  rg_mdls :: "'w Middleware list"
  rg_parent :: "nat option"

type_synonym 'w groups = "'w RouterGroup list"

definition wf_groups :: "'w groups \<Rightarrow> bool" where
  "wf_groups gs \<longleftrightarrow> (\<forall>a < length gs. case rg_parent (gs ! a) of None \<Rightarrow> True | Some p \<Rightarrow> p < a)"

fun allMiddlewares :: "'w groups \<Rightarrow> nat \<Rightarrow> 'w Middleware list" where
  "allMiddlewares gs a =
     (case rg_parent (gs ! a) of
        None \<Rightarrow> rg_mdls (gs ! a)
      | Some p \<Rightarrow> if p < a then allMiddlewares gs p @ rg_mdls (gs ! a) else rg_mdls (gs ! a))"

definition wrap :: "'w groups \<Rightarrow> nat \<Rightarrow> 'w HandleFunc \<Rightarrow> 'w HandleFunc" where
  "wrap gs a handler = foldr (\<lambda>mdl h. mdl h) (allMiddlewares gs a) handler"

fun fullPath :: "'w groups \<Rightarrow> nat \<Rightarrow> string \<Rightarrow> string" where
  "fullPath gs a p =
     (let prefix = (case rg_parent (gs ! a) of
                      None \<Rightarrow> rg_prefix (gs ! a)
                    | Some q \<Rightarrow> if q < a then fullPath gs q (rg_prefix (gs ! a)) else rg_prefix (gs ! a));
          prefix = (if \<not> has_prefix ''/'' prefix then ''/'' @ prefix else prefix);
          prefix = trim_suffix ''/'' prefix;
          p = (if \<not> has_prefix ''/'' p then ''/'' @ p else p)
      in prefix @ p)"

definition rg_Use :: "'w Middleware list \<Rightarrow> nat \<Rightarrow> 'w groups \<Rightarrow> 'w groups" where
  "rg_Use mdls a gs = gs[a := (gs ! a)\<lparr>rg_mdls := rg_mdls (gs ! a) @ mdls\<rparr>]"

definition hs_Group :: "string \<Rightarrow> 'w Middleware list \<Rightarrow> 'w groups \<Rightarrow> 'w groups \<times> nat" where
  "hs_Group prefix mdls gs =
     (gs @ [\<lparr>rg_prefix = prefix, rg_mdls = mdls, rg_parent = None\<rparr>], length gs)"

definition rg_Group :: "string \<Rightarrow> 'w Middleware list \<Rightarrow> nat \<Rightarrow> 'w groups \<Rightarrow> 'w groups \<times> nat" where
  "rg_Group prefix mdls a gs =
     (gs @ [\<lparr>rg_prefix = prefix, rg_mdls = mdls, rg_parent = Some a\<rparr>], length gs)"

definition rg_addRoute ::
  "(string \<Rightarrow> bool) \<Rightarrow> string \<Rightarrow> 'w groups \<Rightarrow> nat \<Rightarrow> string \<Rightarrow> 'w HandleFunc \<Rightarrow> 'w HTTPServer \<Rightarrow>
   'w HTTPServer \<times> route_panic option" where
  "rg_addRoute compile method gs a p handler hs =
     hs_addRoute compile method (fullPath gs a p) (wrap gs a handler) hs"

definition rg_Get where "rg_Get compile = rg_addRoute compile ''GET''"
definition rg_Post where "rg_Post compile = rg_addRoute compile ''POST''"
definition rg_Put where "rg_Put compile = rg_addRoute compile ''PUT''"
definition rg_Delete where "rg_Delete compile = rg_addRoute compile ''DELETE''"
definition rg_Patch where "rg_Patch compile = rg_addRoute compile ''PATCH''"
definition rg_Options where "rg_Options compile = rg_addRoute compile ''OPTIONS''"
definition rg_Head where "rg_Head compile = rg_addRoute compile ''HEAD''"

declare allMiddlewares.simps [simp del] fullPath.simps [simp del]

section \<open>Header maps\<close>

lemma char_eq_nat: "c = d \<longleftrightarrow> (of_char c :: nat) = of_char d"
  by simp

lemma of_char_lower:
  "(of_char (lower_char c) :: nat) =
     (if 65 \<le> (of_char c :: nat) \<and> (of_char c :: nat) \<le> 90 then of_char c + 32 else of_char c)"
  by (simp add: lower_char_def Let_def of_char_of)

lemma of_char_upper:
  "(of_char (upper_char c) :: nat) =
     (if 97 \<le> (of_char c :: nat) \<and> (of_char c :: nat) \<le> 122 then of_char c - 32 else of_char c)"
  by (auto simp: upper_char_def of_char_of mod_less)

lemma lower_lower [simp]: "lower_char (lower_char c) = lower_char c"
  unfolding char_eq_nat of_char_lower by simp

lemma upper_upper [simp]: "upper_char (upper_char c) = upper_char c"
  unfolding char_eq_nat of_char_upper by auto

lemma lower_char_dash [simp]: "lower_char c = CHR ''-'' \<longleftrightarrow> c = CHR ''-''"
  unfolding char_eq_nat of_char_lower by simp

lemma upper_char_dash [simp]: "upper_char c = CHR ''-'' \<longleftrightarrow> c = CHR ''-''"
  unfolding char_eq_nat of_char_upper by auto

lemma is_token_char_case [simp]:
  assumes "is_token_char c"
  shows "is_token_char (lower_char c)" "is_token_char (upper_char c)"
proof -
  consider "(of_char c :: nat) \<in> {65..90}" | "(of_char c :: nat) \<in> {97..122}"
    | "(of_char c :: nat) \<notin> {65..90} \<union> {97..122}" by blast
  then have "is_token_char (lower_char c) \<and> is_token_char (upper_char c)"
  proof cases
    case 3
    then have "lower_char c = c" "upper_char c = c"
      unfolding char_eq_nat of_char_lower of_char_upper by auto
    then show ?thesis using assms by simp
  qed (auto simp: is_token_char_def of_char_lower of_char_upper)
  then show "is_token_char (lower_char c)" "is_token_char (upper_char c)" by simp_all
qed

lemma canonical_chars_idem [simp]: "canonical_chars up (canonical_chars up k) = canonical_chars up k"
  by (induction up k rule: canonical_chars.induct) auto

lemma canonical_chars_token: "list_all is_token_char k \<Longrightarrow> list_all is_token_char (canonical_chars up k)"
  by (induction up k rule: canonical_chars.induct) auto

lemma canonical_chars_Nil [simp]: "canonical_chars up k = [] \<longleftrightarrow> k = []"
  by (cases k) auto

lemma canonical_key_idem [simp]: "canonical_key (canonical_key k) = canonical_key k"
  by (simp add: canonical_key_def canonical_chars_token)

definition canonical_headers :: "headers \<Rightarrow> bool" where
  "canonical_headers h \<longleftrightarrow> (\<forall>k \<in> dom h. canonical_key k = k)"

lemma canonical_headers_empty [simp]: "canonical_headers Map.empty"
  by (simp add: canonical_headers_def)

lemma canonical_headers_hset [simp]: "canonical_headers h \<Longrightarrow> canonical_headers (hset h k v)"
  by (auto simp: canonical_headers_def hset_def)

lemma hget_hset [simp]:
  "hget (hset h k v) k' = (if canonical_key k' = canonical_key k then v else hget h k')"
  by (simp add: hget_def hset_def)

text \<open>The values a header map holds under a canonical key.\<close>

definition hvals :: "headers \<Rightarrow> string \<Rightarrow> string list" where
  "hvals h k = (case h k of None \<Rightarrow> [] | Some vs \<Rightarrow> vs)"

lemma hvals_hadd: "hvals (hadd h k v) k' = hvals h k' @ (if k' = canonical_key k then [v] else [])"
  by (simp add: hvals_def hadd_def)

lemma hvals_fold_hadd:
  "hvals (fold (\<lambda>v h. hadd h k v) vs h) k' = hvals h k' @ (if k' = canonical_key k then vs else [])"
  by (induction vs arbitrary: h) (auto simp: hvals_hadd)

lemma hvals_fold_keys:
  assumes "distinct ks" "\<forall>k \<in> set ks. canonical_key k = k"
  shows "hvals (fold (\<lambda>k h. fold (\<lambda>v h. hadd h k v) (hvals src k) h) ks dst) k' =
           hvals dst k' @ (if k' \<in> set ks then hvals src k' else [])"
  using assms
proof (induction ks arbitrary: dst)
  case (Cons k ks)
  then show ?case by (auto simp: hvals_fold_hadd)
qed simp

text \<open>A runtime ranges over a header map by visiting every key once.\<close>

definition ranges :: "runtime \<Rightarrow> bool" where
  "ranges rt \<longleftrightarrow> (\<forall>h. finite (dom h) \<longrightarrow> distinct (rt_range rt h) \<and> set (rt_range rt h) = dom h)"

lemma hvals_flashHeaders:
  assumes "ranges rt" "canonical_headers src" "finite (dom src)"
  shows "hvals (flashHeaders rt src dst) k = hvals dst k @ hvals src k"
proof -
  have "distinct (rt_range rt src)" "set (rt_range rt src) = dom src"
    using assms by (auto simp: ranges_def)
  moreover have "hvals src k = []" if "k \<notin> dom src" using that by (auto simp: hvals_def dom_def)
  ultimately show ?thesis
    using hvals_fold_keys[of "rt_range rt src" src dst k] assms(2)
    by (auto simp: flashHeaders_def hvals_def [abs_def] canonical_headers_def)
qed

section \<open>Slashes\<close>

fun clean_slashes :: "string \<Rightarrow> bool" where
  "clean_slashes (a # b # s) \<longleftrightarrow> \<not> (a = CHR ''/'' \<and> b = CHR ''/'') \<and> clean_slashes (b # s)"
| "clean_slashes s \<longleftrightarrow> True"

lemma clean_slashes_append:
  "clean_slashes (xs @ ys) \<longleftrightarrow>
     clean_slashes xs \<and> clean_slashes ys \<and>
     \<not> (xs \<noteq> [] \<and> ys \<noteq> [] \<and> last xs = CHR ''/'' \<and> hd ys = CHR ''/'')"
proof (induction xs)
  case (Cons a xs)
  then show ?case by (cases xs; cases ys) auto
qed simp

lemma trim_suffix_slash:
  assumes "clean_slashes s"
  shows "clean_slashes (trim_suffix ''/'' s) \<and>
         (trim_suffix ''/'' s = [] \<or> last (trim_suffix ''/'' s) \<noteq> CHR ''/'' \<and> hd (trim_suffix ''/'' s) = hd s)"
proof (cases "s \<noteq> [] \<and> last s = CHR ''/''")
  case True
  then obtain t where t: "s = t @ ''/''" by (metis append_butlast_last_id)
  have "trim_suffix ''/'' s = t" unfolding t by simp
  then show ?thesis using assms by (auto simp: t clean_slashes_append)
next
  case False
  then show ?thesis using assms by (auto simp: trim_suffix_def)
qed

definition with_slash :: "string \<Rightarrow> string" where
  "with_slash p = (if \<not> has_prefix ''/'' p then ''/'' @ p else p)"

lemma with_slash_clean:
  "clean_slashes p \<Longrightarrow> clean_slashes (with_slash p) \<and> with_slash p \<noteq> [] \<and> hd (with_slash p) = CHR ''/''"
  by (cases p) (auto simp: with_slash_def)

lemma prefix_path_clean:
  assumes "clean_slashes prefix" "clean_slashes p"
  shows "clean_slashes (trim_suffix ''/'' (with_slash prefix) @ with_slash p) \<and>
         hd (trim_suffix ''/'' (with_slash prefix) @ with_slash p) = CHR ''/''"
  using trim_suffix_slash[of "with_slash prefix"] with_slash_clean[OF assms(1)] with_slash_clean[OF assms(2)]
  by (cases "trim_suffix ''/'' (with_slash prefix) = []") (auto simp: clean_slashes_append)

lemma fullPath_eq:
  "fullPath gs a p =
     trim_suffix ''/'' (with_slash (case rg_parent (gs ! a) of
         None \<Rightarrow> rg_prefix (gs ! a)
       | Some q \<Rightarrow> if q < a then fullPath gs q (rg_prefix (gs ! a)) else rg_prefix (gs ! a))) @
     with_slash p"
  by (subst fullPath.simps) (simp only: Let_def with_slash_def)

lemma wf_groups_parent:
  "wf_groups gs \<Longrightarrow> a < length gs \<Longrightarrow> rg_parent (gs ! a) = Some q \<Longrightarrow> q < a \<and> q < length gs"
  by (auto simp: wf_groups_def)

section \<open>Groups, once created, stay\<close>

lemma rg_parent_rg_Use: "i < length gs \<Longrightarrow> rg_parent (rg_Use mdls a gs ! i) = rg_parent (gs ! i)"
  by (cases "a = i") (simp_all add: rg_Use_def)

lemma wf_groups_rg_Use: "wf_groups gs \<Longrightarrow> wf_groups (rg_Use mdls a gs)"
  unfolding wf_groups_def using rg_parent_rg_Use[of _ gs mdls a] by (simp add: rg_Use_def)

lemma wf_groups_hs_Group: "wf_groups gs \<Longrightarrow> wf_groups (fst (hs_Group prefix mdls gs))"
  unfolding wf_groups_def hs_Group_def by (auto simp: nth_append less_Suc_eq)

lemma wf_groups_rg_Group: "wf_groups gs \<Longrightarrow> a < length gs \<Longrightarrow> wf_groups (fst (rg_Group prefix mdls a gs))"
  unfolding wf_groups_def rg_Group_def by (auto simp: nth_append less_Suc_eq split: option.splits)

lemma allMiddlewares_append:
  "wf_groups gs \<Longrightarrow> a < length gs \<Longrightarrow> allMiddlewares (gs @ gs') a = allMiddlewares gs a"
proof (induction a rule: less_induct)
  case (less a)
  show ?case
  proof (cases "rg_parent (gs ! a)")
    case None
    then show ?thesis using less.prems by (simp add: allMiddlewares.simps [of _ a] nth_append)
  next
    case (Some q)
    then have "q < a" "q < length gs" using wf_groups_parent less.prems by blast+
    then show ?thesis
      using less Some by (simp add: allMiddlewares.simps [of _ a] nth_append)
  qed
qed

lemma allMiddlewares_rg_Group:
  assumes "wf_groups gs" "a < length gs" "rg_Group prefix mdls a gs = (gs', b)"
  shows "allMiddlewares gs' b = allMiddlewares gs a @ mdls"
proof -
  have gs': "gs' = gs @ [\<lparr>rg_prefix = prefix, rg_mdls = mdls, rg_parent = Some a\<rparr>]" "b = length gs"
    using assms(3) by (auto simp: rg_Group_def)
  show ?thesis
    using allMiddlewares_append[OF assms(1,2)] assms(2)
    by (simp add: gs' allMiddlewares.simps [of _ "length gs"])
qed

lemma serve_registered:
  assumes "wf_router compile (hs_router hs)" "hs_addRoute compile m p h hs = (hs', None)"
    and "\<forall>s \<in> set (route_segments p). slot_of s = SStatic s"
    and "Method (Req c) = m" "URLPath (Req c) = p"
  shows "serve rt hs' (w, c) = h (w, c\<lparr>PathParams := Map.empty, MatchedRoute := p\<rparr>)"
proof -
  obtain r' where r': "addRoute compile (hs_router hs) m p (Some h) = (r', None)" "hs_router hs' = r'"
    using assms(2) by (auto simp: hs_addRoute_def split: prod.splits)
  obtain mi nd where mi: "findRoute (rt_match rt) (rt_methods rt) r' m p = Some mi" "mi_node mi = Some nd"
      "n_handler nd = Some h" "paramPath mi = Map.empty" "matchedPath mi = p"
    using static_route_found[OF assms(1) r'(1) assms(3)] by blast
  show ?thesis using mi by (simp add: serve_def r'(2) assms(4,5))
qed

lemma flushed_response:
  assumes "ranges rt" "foldr (\<lambda>mdl h. mdl h) (hs_mdls hs) (serve rt hs)
             (w, (reset pooled)\<lparr>Req := request, Resp := response\<rparr>) = ((w', c), None)"
    and "\<not> ctx_done c" "rw_status (Resp c) = None" "100 \<le> RespStatusCode c" "RespStatusCode c \<le> 999"
    and "canonical_headers (RespHeaders c)" "finite (dom (RespHeaders c))"
  shows "\<exists>rw. ServeHTTP rt hs pooled response request w = (w', rw, None, zero_Context) \<and>
           client_status rw = RespStatusCode c \<and> rw_body rw = rw_body (Resp c) @ RespData c \<and>
           (\<forall>k. hvals (client_headers rw) k = hvals (rw_header (Resp c)) k @ hvals (RespHeaders c) k)"
proof -
  let ?h = "flashHeaders rt (RespHeaders c) (rw_header (Resp c))"
  let ?rw = "(Resp c)\<lparr>rw_header := ?h, rw_status := Some (RespStatusCode c), rw_sent := ?h\<rparr>"
  have flash: "flashResp rt c = (c\<lparr>Resp := ?rw\<lparr>rw_body := rw_body (Resp c) @ RespData c\<rparr>\<rparr>, None)"
    using assms(4,5,6) by (cases c) (auto simp: flashResp_def WriteHeader_def WriteBody_def Let_def)
  have r: "reset d = zero_Context" for d by (cases d) (simp add: reset_def zero_Context_def)
  show ?thesis
    using assms(2,3) hvals_flashHeaders[OF assms(1,7,8)]
    by (simp add: ServeHTTP_def flash_mdl_def IsDone_def flash r client_status_def client_headers_def)
qed

text \<open>A runtime, a request and a middleware that records its passing, for concrete runs.\<close>

definition demo_rt :: runtime where
  "demo_rt = \<lparr>rt_match = (\<lambda>e s. True), rt_methods = [''GET''], rt_range = (\<lambda>h. sorted_list_of_set (dom h))\<rparr>"

definition demo_req :: "string \<Rightarrow> string \<Rightarrow> Request" where
  "demo_req m p = no_Request\<lparr>Method := m, URLPath := p\<rparr>"

definition demo_ctx :: "string \<Rightarrow> string \<Rightarrow> Context" where
  "demo_ctx m p = zero_Context\<lparr>Req := demo_req m p\<rparr>"

definition demo_tag :: "nat \<Rightarrow> nat list Middleware" where
  "demo_tag i next = (\<lambda>(w, c). next (w @ [i], c))"

lemma ranges_demo_rt [simp]: "ranges demo_rt"
  by (simp add: ranges_def demo_rt_def)

section \<open>Properties\<close>

text \<open>
  The path of a group route begins with a slash and has no empty segment, however deep
  the groups nest, as long as no prefix and not the path itself has one.
\<close>

lemma fullPath_clean:
  assumes "wf_groups gs" "a < length gs" "\<forall>g \<in> set gs. clean_slashes (rg_prefix g)" "clean_slashes p"
  shows "hd (fullPath gs a p) = CHR ''/'' \<and> clean_slashes (fullPath gs a p)"
  using assms(2,4)
proof (induction a arbitrary: p rule: less_induct)
  case (less a)
  have own: "clean_slashes (rg_prefix (gs ! a))" using assms(3) less.prems(1) by simp
  let ?pre = "case rg_parent (gs ! a) of
         None \<Rightarrow> rg_prefix (gs ! a)
       | Some q \<Rightarrow> if q < a then fullPath gs q (rg_prefix (gs ! a)) else rg_prefix (gs ! a)"
  have "clean_slashes ?pre"
  proof (cases "rg_parent (gs ! a)")
    case (Some q)
    then have "q < a" "q < length gs" using wf_groups_parent[OF assms(1) less.prems(1)] by blast+
    then show ?thesis using less.IH[of q] own Some by simp
  qed (simp add: own)
  then show ?case
    unfolding fullPath_eq [of gs a p] using prefix_path_clean[OF _ less.prems(2)] by blast
qed

text \<open>
  C18: A route registered through a group answers requests for its path with the middlewares
  of the group's ancestors around those of the group around the handler; the request sees
  the full path as its matched route. Middlewares added to the group or its ancestors later
  do not count for it.
\<close>

theorem group_route_served:
  assumes "wf_groups gs" "a < length gs" "rg_Group prefix mdls a gs = (gs', b)"
    and "wf_router compile (hs_router hs)" "rg_addRoute compile m gs' b p h hs = (hs', None)"
    and "\<forall>s \<in> set (route_segments (fullPath gs' b p)). slot_of s = SStatic s"
    and "Method (Req c) = m" "URLPath (Req c) = fullPath gs' b p"
  shows "serve rt hs' (w, c) =
           foldr (\<lambda>mdl h. mdl h) (allMiddlewares gs a) (foldr (\<lambda>mdl h. mdl h) mdls h)
             (w, c\<lparr>PathParams := Map.empty, MatchedRoute := fullPath gs' b p\<rparr>)"
  using serve_registered[OF assms(4) assms(5)[unfolded rg_addRoute_def] assms(6,7,8)]
  by (simp add: wrap_def allMiddlewares_rg_Group[OF assms(1-3)])

theorem group_route_served_witness:
  "let gs = fst (hs_Group ''/api'' [demo_tag 11] ([] :: nat list groups));
       (gs', b) = rg_Group ''/v1'' [demo_tag 12] 0 gs;
       hs = fst (rg_addRoute (\<lambda>e. True) ''GET'' gs' b ''/x'' (demo_tag 13 (\<lambda>s. (s, None))) NewHttpServer)
   in fst (fst (serve demo_rt hs ([], demo_ctx ''GET'' ''/api/v1/x''))) = [11, 12, 13]"
proof -
  let ?gs = "fst (hs_Group ''/api'' [demo_tag 11] ([] :: nat list groups))"
  let ?g = "rg_Group ''/v1'' [demo_tag 12] 0 ?gs"
  let ?h = "demo_tag 13 (\<lambda>s. (s, None))"
  let ?a = "rg_addRoute (\<lambda>e. True) ''GET'' (fst ?g) (snd ?g) ''/x'' ?h NewHttpServer"
  have path: "fullPath (fst ?g) (snd ?g) ''/x'' = ''/api/v1/x''"
    by (simp add: fullPath.simps rg_Group_def hs_Group_def trim_suffix_def)
  have "serve demo_rt (fst ?a) ([], demo_ctx ''GET'' ''/api/v1/x'') =
      foldr (\<lambda>mdl h. mdl h) (allMiddlewares ?gs 0) (foldr (\<lambda>mdl h. mdl h) [demo_tag 12] ?h)
        ([], (demo_ctx ''GET'' ''/api/v1/x'')\<lparr>PathParams := Map.empty, MatchedRoute := fullPath (fst ?g) (snd ?g) ''/x''\<rparr>)"
  proof (rule group_route_served)
    show "wf_groups ?gs" by (simp add: wf_groups_def hs_Group_def)
    show "0 < length ?gs" by (simp add: hs_Group_def)
    show "?g = (fst ?g, snd ?g)" by simp
    show "wf_router (\<lambda>e. True) (hs_router (NewHttpServer :: nat list HTTPServer))"
      by (simp add: NewHttpServer_def)
    show "?a = (fst ?a, None)"
      unfolding rg_addRoute_def path
      by (simp add: hs_addRoute_def addRoute_def NewHttpServer_def newRouter_def
            childOrCreate_def new_node_def)
    show "\<forall>s \<in> set (route_segments (fullPath (fst ?g) (snd ?g) ''/x'')). slot_of s = SStatic s"
      by (simp add: path route_segments_def slot_of_def)
  qed (simp_all add: path demo_ctx_def demo_req_def)
  then show ?thesis
    by (simp add: Let_def split_def demo_tag_def allMiddlewares.simps hs_Group_def)
qed


text \<open>
  The response of a request that was not aborted is what the handlers left in the
  context: the status code, the body after what was written directly, and the headers in
  addition to those set directly.
\<close>

lemma response_is_context:
  assumes "ranges rt" "foldr (\<lambda>mdl h. mdl h) (hs_mdls hs) (serve rt hs)
             (w, (reset pooled)\<lparr>Req := request, Resp := response\<rparr>) = ((w', c), None)"
    and "\<not> ctx_done c" "rw_status (Resp c) = None" "100 \<le> RespStatusCode c" "RespStatusCode c \<le> 999"
    and "canonical_headers (RespHeaders c)" "finite (dom (RespHeaders c))"
  shows "\<exists>rw. ServeHTTP rt hs pooled response request w = (w', rw, None, zero_Context) \<and>
           client_status rw = RespStatusCode c \<and> rw_body rw = rw_body (Resp c) @ RespData c \<and>
           (\<forall>k. hvals (client_headers rw) k = hvals (rw_header (Resp c)) k @ hvals (RespHeaders c) k)"
  by (rule flushed_response[OF assms])

text \<open>
  Without middlewares, a request for a path that only other methods have gets 405 with
  an \<^verbatim>\<open>Allow\<close> header that lists exactly those methods, and a request for a path no method has
  gets 404.
\<close>

lemma missing_route_responses:
  assumes "ranges rt" "set (rt_methods rt) = dom (trees (hs_router hs))" "hs_mdls hs = []"
    and "trees (hs_router hs) (Method request) = None \<or>
         findInTree (rt_match rt) (the (trees (hs_router hs) (Method request))) (URLPath request) = None"
  shows "\<exists>rw allowed. ServeHTTP rt hs pooled new_rw request w = (w, rw, None, zero_Context) \<and>
           set allowed = {m. \<exists>t. trees (hs_router hs) m = Some t \<and>
                               findInTree (rt_match rt) t (URLPath request) \<noteq> None} \<and>
           (if allowed = []
            then client_status rw = 404 \<and> rw_body rw = ''404 page not found'' \<and>
                 hvals (client_headers rw) ''Allow'' = []
            else client_status rw = 405 \<and> rw_body rw = ''405 method not allowed'' \<and>
                 hvals (client_headers rw) ''Allow'' = [join '', '' allowed])"
proof -
  let ?r = "hs_router hs" and ?m = "Method request" and ?p = "URLPath request"
  define allowed where "allowed = filter (\<lambda>m. m \<noteq> ?m \<and>
      (case trees ?r m of None \<Rightarrow> False | Some t \<Rightarrow> findInTree (rt_match rt) t ?p \<noteq> None)) (rt_methods rt)"
  let ?c = "(reset pooled)\<lparr>Req := request, Resp := new_rw\<rparr>"
  let ?c' = "if allowed = [] then ?c\<lparr>RespStatusCode := 404, RespData := ''404 page not found''\<rparr>
     else SetHeader ''Allow'' (join '', '' allowed)
            (?c\<lparr>RespStatusCode := 405, RespData := ''405 method not allowed''\<rparr>)"
  have none: "Option.bind (trees ?r ?m) (\<lambda>t. findInTree (rt_match rt) t ?p) = None"
    using assms(4) by (cases "trees ?r ?m") auto
  have "findRoute (rt_match rt) (rt_methods rt) ?r ?m ?p =
      (if allowed \<noteq> [] then Some (empty_matchInfo\<lparr>methodNotAllowed := True, allowedMethods := allowed\<rparr>)
       else None)"
    unfolding findRoute_def none allowed_def by (simp only: option.case Let_def)
  then have serve: "serve rt hs (w, ?c) = ((w, ?c'), None)"
    by (simp add: serve_def empty_matchInfo_def)
  have set_allowed: "set allowed = {m. \<exists>t. trees ?r m = Some t \<and> findInTree (rt_match rt) t ?p \<noteq> None}"
    using assms(2) none by (auto simp: allowed_def split: option.splits)
  have canon: "canonical_key ''Allow'' = ''Allow''" by code_simp
  have c': "\<not> ctx_done ?c'" "rw_status (Resp ?c') = None" "100 \<le> RespStatusCode ?c'"
      "RespStatusCode ?c' \<le> 999" "canonical_headers (RespHeaders ?c')" "finite (dom (RespHeaders ?c'))"
      "Resp ?c' = new_rw"
    by (auto simp: SetHeader_def reset_def new_rw_def hset_def canonical_headers_def)
  obtain rw where rw: "ServeHTTP rt hs pooled new_rw request w = (w, rw, None, zero_Context)"
      "client_status rw = RespStatusCode ?c'" "rw_body rw = rw_body (Resp ?c') @ RespData ?c'"
      "\<forall>k. hvals (client_headers rw) k = hvals (rw_header (Resp ?c')) k @ hvals (RespHeaders ?c') k"
    using flushed_response[OF assms(1) _ c'(1-6), where hs = hs and w = w and w' = w and pooled = pooled
        and request = request and response = new_rw] serve assms(3) by auto
  have "hvals (RespHeaders ?c') ''Allow'' = (if allowed = [] then [] else [join '', '' allowed])"
    by (simp add: SetHeader_def reset_def hset_def hvals_def canon)
  then show ?thesis
    using rw set_allowed c'(7)
    by (intro exI[of _ rw] exI[of _ allowed])
      (auto simp: SetHeader_def new_rw_def hvals_def simp del: c'(7))
qed

end
