(* ===== verification/WebMiddleware.thy ===== *)
theory WebMiddleware
  imports Complex_Main WebServer
begin

text \<open>
  The middlewares of \<^verbatim>\<open>web/middleware/\<close>: CORS, gzip, rate limiting, request body size, error
  pages, panic recovery, request ids, access log and timeout. Wall clock times are integers
  (nanoseconds) given as arguments, token counts are rationals where the code has
  \<^verbatim>\<open>float64\<close>. Compression, JSON encoding, fresh ids and log sinks are arguments.
\<close>

section \<open>Shared helpers\<close>

definition resp_hset :: "string \<Rightarrow> string \<Rightarrow> Context \<Rightarrow> Context" where
  "resp_hset k v c = c\<lparr>Resp := (Resp c)\<lparr>rw_header := hset (rw_header (Resp c)) k v\<rparr>\<rparr>"

definition resp_hadd :: "string \<Rightarrow> string \<Rightarrow> Context \<Rightarrow> Context" where
  "resp_hadd k v c = c\<lparr>Resp := (Resp c)\<lparr>rw_header := hadd (rw_header (Resp c)) k v\<rparr>\<rparr>"

text \<open>\<^verbatim>\<open>WriteHeader\<close> with a constant that is a valid status code, and \<^verbatim>\<open>Write\<close>.\<close>

definition resp_code :: "int \<Rightarrow> Context \<Rightarrow> Context" where
  "resp_code code c = c\<lparr>Resp := fst (WriteHeader (Resp c) code)\<rparr>"

definition resp_write :: "string \<Rightarrow> Context \<Rightarrow> Context" where
  "resp_write bs c = c\<lparr>Resp := WriteBody (Resp c) bs\<rparr>"

section \<open>CORS\<close>

record cors_builder =
  allowOrigins :: "string list"
  allowMethods :: "string list"
  allowHeaders :: "string list"
  exposeHeaders :: "string list"
  allowCredentials :: bool
  maxAge :: int

definition cors_Create :: cors_builder where
  "cors_Create = \<lparr>allowOrigins = [],
     allowMethods = [''GET'', ''POST'', ''PUT'', ''DELETE'', ''PATCH'', ''OPTIONS'', ''HEAD''],
     allowHeaders = [], exposeHeaders = [], allowCredentials = False, maxAge = 12 * 60 * 60\<rparr>"

definition AllowOrigins :: "string list \<Rightarrow> cors_builder \<Rightarrow> cors_builder" where
  "AllowOrigins origins mb = mb\<lparr>allowOrigins := origins\<rparr>"

definition AllowMethods :: "string list \<Rightarrow> cors_builder \<Rightarrow> cors_builder" where
  "AllowMethods methods mb = mb\<lparr>allowMethods := methods\<rparr>"

definition AllowHeaders :: "string list \<Rightarrow> cors_builder \<Rightarrow> cors_builder" where
  "AllowHeaders hs mb = mb\<lparr>allowHeaders := hs\<rparr>"

definition ExposeHeaders :: "string list \<Rightarrow> cors_builder \<Rightarrow> cors_builder" where
  "ExposeHeaders hs mb = mb\<lparr>exposeHeaders := hs\<rparr>"

definition AllowCredentials :: "bool \<Rightarrow> cors_builder \<Rightarrow> cors_builder" where
  "AllowCredentials b mb = mb\<lparr>allowCredentials := b\<rparr>"

definition MaxAge :: "int \<Rightarrow> cors_builder \<Rightarrow> cors_builder" where
  "MaxAge seconds mb = mb\<lparr>maxAge := seconds\<rparr>"

definition hasWildcardOrigin :: "cors_builder \<Rightarrow> bool" where
  "hasWildcardOrigin mb = list_ex (\<lambda>o'. o' = ''*'') (allowOrigins mb)"

fun matchOrigins :: "string list \<Rightarrow> string \<Rightarrow> string" where
  "matchOrigins [] origin = ''''"
| "matchOrigins (o' # os) origin =
     (if o' = ''*'' then ''*'' else if o' = origin then origin else matchOrigins os origin)"

definition matchOrigin :: "cors_builder \<Rightarrow> string \<Rightarrow> string" where
  "matchOrigin mb origin = (if origin = '''' then '''' else matchOrigins (allowOrigins mb) origin)"

definition cors_preflight :: "cors_builder \<Rightarrow> string \<Rightarrow> Context \<Rightarrow> Context" where
  "cors_preflight mb allowOrigin c =
     (let c = (if allowOrigin \<noteq> '''' then
          (let c = resp_hset ''Access-Control-Allow-Origin'' allowOrigin c;
               c = (if allowCredentials mb then resp_hset ''Access-Control-Allow-Credentials'' ''true'' c else c);
               c = (if allowMethods mb \<noteq> []
                    then resp_hset ''Access-Control-Allow-Methods'' (join '', '' (allowMethods mb)) c else c);
               c = (if allowHeaders mb \<noteq> []
                    then resp_hset ''Access-Control-Allow-Headers'' (join '', '' (allowHeaders mb)) c else c);
               c = (if maxAge mb > 0 then resp_hset ''Access-Control-Max-Age'' (itoa (maxAge mb)) c else c)
           in resp_hadd ''Vary'' ''Origin'' c)
          else c)
      in Abort 204 '''' (resp_code 204 c))"

definition cors_headers :: "cors_builder \<Rightarrow> string \<Rightarrow> Context \<Rightarrow> Context" where
  "cors_headers mb allowOrigin c =
     (if allowOrigin \<noteq> '''' then
        (let c = SetHeader ''Access-Control-Allow-Origin'' allowOrigin c;
             c = (if allowCredentials mb then SetHeader ''Access-Control-Allow-Credentials'' ''true'' c else c);
             c = (if exposeHeaders mb \<noteq> []
                  then SetHeader ''Access-Control-Expose-Headers'' (join '', '' (exposeHeaders mb)) c else c)
         in SetHeader ''Vary'' ''Origin'' c)
      else c)"

definition cors_Build :: "cors_builder \<Rightarrow> go_panic + 'w Middleware" where
  "cors_Build mb =
     (if hasWildcardOrigin mb \<and> allowCredentials mb
      then Inl (UserPanic ''cors: AllowOrigins and AllowCredentials are exclusive'')
      else Inr (\<lambda>next (w, c).
        let allowOrigin = matchOrigin mb (hget (ReqHeader (Req c)) ''Origin'')
        in if Method (Req c) = ''OPTIONS'' then ((w, cors_preflight mb allowOrigin c), None)
           else next (w, cors_headers mb allowOrigin c)))"

section \<open>Gzip\<close>

record gzip_builder =
  MinSize :: int
  Level :: int

definition gzip_Create :: gzip_builder where
  "gzip_Create = \<lparr>MinSize = 1024, Level = -1\<rparr>"

definition WithMinSize :: "int \<Rightarrow> gzip_builder \<Rightarrow> gzip_builder" where
  "WithMinSize sz mb = mb\<lparr>MinSize := sz\<rparr>"

definition WithLevel :: "int \<Rightarrow> gzip_builder \<Rightarrow> gzip_builder" where
  "WithLevel level mb = mb\<lparr>Level := level\<rparr>"

definition shouldCompress :: "string \<Rightarrow> bool" where
  "shouldCompress contentType =
     (let mediaType = trim_space (to_lower (split_on CHR '';'' contentType ! 0))
      in if mediaType = '''' then False
         else if has_prefix ''text/'' mediaType then True
         else mediaType \<in> set [''application/json'', ''application/javascript'', ''application/x-javascript'',
                ''text/javascript'', ''application/xml'', ''text/xml'', ''application/xhtml+xml'',
                ''application/atom+xml'', ''application/rss+xml'', ''application/ld+json'',
                ''application/manifest+json'', ''application/x-www-form-urlencoded'', ''image/svg+xml''])"

text \<open>
  \<open>gz level data\<close> is the compressed data, or \<^const>\<open>None\<close> when \<^verbatim>\<open>NewWriterLevel\<close> refuses the level.
\<close>

definition gzip_response :: "(int \<Rightarrow> string \<Rightarrow> string option) \<Rightarrow> gzip_builder \<Rightarrow> Context \<Rightarrow> Context" where
  "gzip_response gz mb c =
     (if int (length (RespData c)) < MinSize mb then c
      else if \<not> shouldCompress (hget (RespHeaders c) ''Content-Type'') then c
      else case gz (Level mb) (RespData c) of
          None \<Rightarrow> c
        | Some bs \<Rightarrow>
            (let c = c\<lparr>RespData := bs\<rparr>;
                 c = SetHeader ''Content-Encoding'' ''gzip'' c;
                 c = SetHeader ''Vary'' ''Accept-Encoding'' c
             in c\<lparr>RespHeaders := hdel (RespHeaders c) ''Content-Length''\<rparr>))"

definition gzip_Build :: "(int \<Rightarrow> string \<Rightarrow> string option) \<Rightarrow> gzip_builder \<Rightarrow> 'w Middleware" where
  "gzip_Build gz mb next = (\<lambda>(w, c).
     if \<not> contains ''gzip'' (hget (ReqHeader (Req c)) ''Accept-Encoding'') then next (w, c)
     else case next (w, c) of
         (s, Some p) \<Rightarrow> (s, Some p)
       | ((w, c), None) \<Rightarrow> ((w, gzip_response gz mb c), None))"

section \<open>Rate limiting\<close>

record tokenBucket =
  tb_capacity :: rat
  tb_rate :: rat
  tb_tokens :: rat
  tb_lastTime :: int

definition newTokenBucket :: "int \<Rightarrow> rat \<Rightarrow> int \<Rightarrow> tokenBucket" where
  "newTokenBucket now rate capacity =
     \<lparr>tb_capacity = of_int capacity, tb_rate = rate, tb_tokens = of_int capacity, tb_lastTime = now\<rparr>"

definition elapsed_seconds :: "int \<Rightarrow> int \<Rightarrow> rat" where
  "elapsed_seconds from to = of_int (to - from) / 1000000000"

definition refill :: "int \<Rightarrow> tokenBucket \<Rightarrow> tokenBucket" where
  "refill now b =
     (let elapsed = elapsed_seconds (tb_lastTime b) now
      in if elapsed > 0
         then b\<lparr>tb_tokens := min (tb_capacity b) (tb_tokens b + elapsed * tb_rate b), tb_lastTime := now\<rparr>
         else b)"

definition take_token :: "int \<Rightarrow> tokenBucket \<Rightarrow> tokenBucket \<times> bool \<times> rat" where
  "take_token now b =
     (let b = refill now b
      in if tb_tokens b \<ge> 1
         then (let b = b\<lparr>tb_tokens := tb_tokens b - 1\<rparr> in (b, True, tb_tokens b))
         else (b, False, tb_tokens b))"

definition allow :: "int \<Rightarrow> tokenBucket \<Rightarrow> tokenBucket \<times> bool" where
  "allow now b = (let (b, allowed, r) = take_token now b in (b, allowed))"

record rl_builder =
  rl_rate :: rat
  rl_capacity :: int
  rl_byIP :: bool
  rl_ttl :: int
  rl_bucket :: "tokenBucket option"
  rl_buckets :: "string \<rightharpoonup> tokenBucket"

definition rl_Create :: "rat \<Rightarrow> int \<Rightarrow> rl_builder" where
  "rl_Create rate capacity = \<lparr>rl_rate = rate, rl_capacity = capacity, rl_byIP = False,
     rl_ttl = 10 * 1000000000, rl_bucket = None, rl_buckets = Map.empty\<rparr>"

definition WithByIP :: "bool \<Rightarrow> rl_builder \<Rightarrow> rl_builder" where
  "WithByIP b mb = mb\<lparr>rl_byIP := b\<rparr>"

definition WithTTL :: "int \<Rightarrow> rl_builder \<Rightarrow> rl_builder" where
  "WithTTL ttl mb = mb\<lparr>rl_ttl := ttl\<rparr>"

definition isBucketExpired :: "int \<Rightarrow> rl_builder \<Rightarrow> tokenBucket \<Rightarrow> bool" where
  "isBucketExpired now mb b = (if rl_ttl mb \<le> 0 then False else now - tb_lastTime b > rl_ttl mb)"

definition getOrCreateBucket :: "int \<Rightarrow> int \<Rightarrow> string \<Rightarrow> rl_builder \<Rightarrow> rl_builder \<times> tokenBucket" where
  "getOrCreateBucket now1 now2 ip mb =
     (let bucket = rl_buckets mb ip;
          (mb, bucket) = (case bucket of
              Some b \<Rightarrow>
                if isBucketExpired now1 mb b
                then (mb\<lparr>rl_buckets := (rl_buckets mb)(ip := None)\<rparr>, None) else (mb, bucket)
            | None \<Rightarrow> (mb, bucket))
      in case bucket of
           None \<Rightarrow>
             (let b = newTokenBucket now2 (rl_rate mb) (rl_capacity mb)
              in (mb\<lparr>rl_buckets := (rl_buckets mb)(ip \<mapsto> b)\<rparr>, b))
         | Some b \<Rightarrow> (mb, b))"

definition clientIP :: "Request \<Rightarrow> string" where
  "clientIP req =
     (let xff = hget (ReqHeader req) ''X-Forwarded-For''
      in if xff \<noteq> '''' then
           (case index_byte CHR '','' xff of
              Some idx \<Rightarrow> trim_space (take idx xff) | None \<Rightarrow> trim_space xff)
         else
           (let xri = hget (ReqHeader req) ''X-Real-IP''
            in if xri \<noteq> '''' then trim_space xri
               else (case split_host_port (RemoteAddr req) of
                       None \<Rightarrow> trim_space (RemoteAddr req) | Some (host, port) \<Rightarrow> host)))"

text \<open>What \<^verbatim>\<open>Build\<close> initialises.\<close>

definition rl_init :: "int \<Rightarrow> rl_builder \<Rightarrow> rl_builder" where
  "rl_init now mb =
     (if rl_byIP mb then mb\<lparr>rl_buckets := Map.empty\<rparr>
      else mb\<lparr>rl_bucket := Some (newTokenBucket now (rl_rate mb) (rl_capacity mb))\<rparr>)"

text \<open>The bucket of the request, and the builder with the bucket as \<^verbatim>\<open>take\<close> leaves it.\<close>

definition rl_take :: "int \<times> int \<times> int \<Rightarrow> Request \<Rightarrow> rl_builder \<Rightarrow> rl_builder \<times> (go_panic + bool \<times> rat)" where
  "rl_take clock req mb =
     (case clock of (now1, now2, now3) \<Rightarrow>
        if rl_byIP mb then
          (let ip = clientIP req;
               (mb, b) = getOrCreateBucket now1 now2 ip mb;
               (b, r) = take_token now3 b
           in (mb\<lparr>rl_buckets := (rl_buckets mb)(ip \<mapsto> b)\<rparr>, Inr r))
        else case rl_bucket mb of
            None \<Rightarrow> (mb, Inl NilPanic)
          | Some b \<Rightarrow> (let (b, r) = take_token now3 b in (mb\<lparr>rl_bucket := Some b\<rparr>, Inr r)))"

definition rl_Build :: "int \<times> int \<times> int \<Rightarrow> (rl_builder \<times> 'v) Middleware" where
  "rl_Build clock next = (\<lambda>((mb, v), c).
     case rl_take clock (Req c) mb of
       (mb, Inl p) \<Rightarrow> (((mb, v), c), Some p)
     | (mb, Inr (allowed, remaining)) \<Rightarrow>
         if allowed
         then next ((mb, v), SetHeader ''X-RateLimit-Remaining'' (itoa \<lfloor>remaining\<rfloor>) c)
         else (((mb, v),
                Abort 429 ''Too Many Requests''
                  (resp_write ''Too Many Requests''
                    (resp_code 429 (resp_hset ''X-RateLimit-Remaining'' ''0'' c)))), None))"

section \<open>Body size\<close>

definition bodysize_Build :: "int \<Rightarrow> 'w Middleware" where
  "bodysize_Build maxBytes next = (\<lambda>(w, c).
     if ContentLength (Req c) > maxBytes
     then ((w, resp_write ''Request Entity Too Large''
                 (resp_code 413 (Abort 413 ''Request Entity Too Large'' c))), None)
     else next (w, c\<lparr>Req := (Req c)\<lparr>BodyLimit := Some maxBytes\<rparr>\<rparr>))"

section \<open>Error pages\<close>

definition RegisterError :: "int \<Rightarrow> string \<Rightarrow> (int \<rightharpoonup> string) \<Rightarrow> (int \<rightharpoonup> string)" where
  "RegisterError code page m = m(code \<mapsto> page)"

definition errhdl_Build :: "(int \<rightharpoonup> string) \<Rightarrow> 'w Middleware" where
  "errhdl_Build m next = (\<lambda>s.
     case next s of
       (s, Some p) \<Rightarrow> (s, Some p)
     | ((w, c), None) \<Rightarrow>
         ((w, case m (RespStatusCode c) of None \<Rightarrow> c | Some page \<Rightarrow> c\<lparr>RespData := page\<rparr>), None))"

section \<open>Recovery\<close>

definition recovery_Build :: "(go_panic \<Rightarrow> 'w \<Rightarrow> 'w) \<Rightarrow> 'w Middleware" where
  "recovery_Build logFunc next = (\<lambda>s.
     case next s of
       ((w, c), Some p) \<Rightarrow>
         ((logFunc p w, c\<lparr>RespStatusCode := 500, RespData := ''Internal Server Error''\<rparr>), None)
     | (s, None) \<Rightarrow> (s, None))"

section \<open>Request ids\<close>

definition requestid_Build :: "('w \<Rightarrow> string) \<Rightarrow> string \<Rightarrow> 'w Middleware" where
  "requestid_Build uuid headerName next = (\<lambda>(w, c).
     let requestID = hget (ReqHeader (Req c)) headerName;
         requestID = (if requestID = '''' then uuid w else requestID);
         c = c\<lparr>RequestID := requestID\<rparr>;
         c = SetHeader headerName requestID c;
         c = resp_hset headerName requestID c
     in next (w, c))"

section \<open>Access log\<close>

record accessLog =
  al_Host :: string
  al_Route :: string
  al_HTTPMethod :: string
  al_Path :: string
  al_Status :: int
  al_LatencyMs :: int
  al_RespSize :: nat
  al_ClientIP :: string
  al_UserAgent :: string

definition getClientIP :: "Request \<Rightarrow> string" where
  "getClientIP req =
     (let xff = hget (ReqHeader req) ''X-Forwarded-For'';
          ip = trim_space (split2 CHR '','' xff ! 0)
      in if xff \<noteq> '''' \<and> ip \<noteq> '''' then ip
         else
           (let xri = hget (ReqHeader req) ''X-Real-IP''
            in if xri \<noteq> '''' then trim_space xri
               else (case split_host_port (RemoteAddr req) of
                       None \<Rightarrow> RemoteAddr req | Some (host, port) \<Rightarrow> host)))"

text \<open>The entry the deferred function writes; it runs also when the handler panics.\<close>

definition access_entry :: "int \<Rightarrow> Context \<Rightarrow> accessLog" where
  "access_entry latency c =
     \<lparr>al_Host = Host (Req c), al_Route = MatchedRoute c, al_HTTPMethod = Method (Req c),
      al_Path = URLPath (Req c), al_Status = (if RespStatusCode c = 0 then 200 else RespStatusCode c),
      al_LatencyMs = latency, al_RespSize = length (RespData c), al_ClientIP = getClientIP (Req c),
      al_UserAgent = hget (ReqHeader (Req c)) ''User-Agent''\<rparr>"

definition accesslog_Build ::
  "('w \<Rightarrow> int) \<Rightarrow> (accessLog \<Rightarrow> string) \<Rightarrow> (string \<Rightarrow> 'w \<Rightarrow> 'w) \<Rightarrow> 'w Middleware" where
  "accesslog_Build latency marshal logFunc next = (\<lambda>s.
     case next s of
       ((w, c), p) \<Rightarrow> ((logFunc (marshal (access_entry (latency w) c)) w, c), p))"

section \<open>Timeout\<close>

text \<open>
  The handler runs in its own goroutine; \<open>sel\<close> is the branch the \<^verbatim>\<open>select\<close> of the middleware
  takes. \<open>Deadline s\<close> is the branch of the expired context, with what the handler has done by
  then as \<open>s\<close>; the other two branches wait for the handler, and \<open>expired\<close> tells whether the
  deadline has passed when it returns.
\<close>

datatype 'w select = HandlerEnded bool | Deadline "'w \<times> Context"

definition timeout_Build :: "'w select \<Rightarrow> 'w Middleware" where
  "timeout_Build sel next = (\<lambda>s.
     case sel of
       Deadline (w, c) \<Rightarrow> ((w, c\<lparr>RespStatusCode := 503, RespData := ''Service Unavailable''\<rparr>), None)
     | HandlerEnded expired \<Rightarrow>
         (case next s of
            ((w, c), Some r) \<Rightarrow>
              ((w, c\<lparr>RespStatusCode := 500, RespData := ''Internal Server Error''\<rparr>), None)
          | ((w, c), None) \<Rightarrow>
              if expired
              then ((w, c\<lparr>RespStatusCode := 503, RespData := ''Service Unavailable''\<rparr>), None)
              else ((w, c), None)))"

section \<open>Panic barriers\<close>

text \<open>A middleware that never lets a panic through, whatever it wraps.\<close>

locale panic_barrier =
  fixes mdl :: "'w Middleware"
  assumes contains_panic: "snd (mdl next s) = None"
begin

lemma chain_returns:
  "\<exists>w' c. foldr (\<lambda>mdl h. mdl h) (mdl # ms) h s = ((w', c), None)"
  using contains_panic [of "foldr (\<lambda>mdl h. mdl h) ms h" s]
  by (cases "foldr (\<lambda>mdl h. mdl h) (mdl # ms) h s") auto

text \<open>Behind a barrier only flushing an impossible status code can still panic.\<close>

lemma serve_total:
  assumes "hs_mdls hs = mdl # ms" "fst (snd (snd (ServeHTTP rt hs pooled response request w))) = Some p"
  shows "p = UserPanic ''invalid WriteHeader code''"
proof -
  let ?s = "(w, (reset pooled)\<lparr>Req := request, Resp := response\<rparr>)"
  obtain w' c where "foldr (\<lambda>mdl h. mdl h) (mdl # ms) (serve rt hs) ?s = ((w', c), None)"
    using chain_returns by blast
  then show ?thesis
    using assms
    by (auto simp: ServeHTTP_def flash_mdl_def flashResp_def WriteHeader_def Let_def split: if_splits)
qed

end

interpretation recovery: panic_barrier "recovery_Build logFunc"
  by unfold_locales (auto simp: recovery_Build_def split: prod.splits option.splits)

interpretation timeout: panic_barrier "timeout_Build sel"
  by unfold_locales (auto simp: timeout_Build_def split: prod.splits option.splits select.splits)

section \<open>Header names\<close>

lemma canonical_names [simp]:
  "canonical_key ''Vary'' = ''Vary''"
  "canonical_key ''Origin'' = ''Origin''"
  "canonical_key ''Content-Encoding'' = ''Content-Encoding''"
  "canonical_key ''Content-Length'' = ''Content-Length''"
  "canonical_key ''Content-Type'' = ''Content-Type''"
  "canonical_key ''Access-Control-Allow-Origin'' = ''Access-Control-Allow-Origin''"
  "canonical_key ''Access-Control-Allow-Credentials'' = ''Access-Control-Allow-Credentials''"
  "canonical_key ''Access-Control-Expose-Headers'' = ''Access-Control-Expose-Headers''"
  by code_simp+

lemma hget_SetHeader:
  "hget (RespHeaders (SetHeader k v c)) k' = (if canonical_key k' = canonical_key k then v else hget (RespHeaders c) k')"
  by (simp add: SetHeader_def)

section \<open>Token buckets\<close>

definition bucket_ok :: "tokenBucket \<Rightarrow> bool" where
  "bucket_ok b \<longleftrightarrow> 0 \<le> tb_rate b \<and> 0 \<le> tb_tokens b \<and> tb_tokens b \<le> tb_capacity b"

lemma bucket_ok_new: "0 \<le> rate \<Longrightarrow> 0 \<le> capacity \<Longrightarrow> bucket_ok (newTokenBucket now rate capacity)"
  by (simp add: bucket_ok_def newTokenBucket_def)

lemma refill_ok:
  assumes "bucket_ok b"
  shows "bucket_ok (refill now b)"
    and "tb_tokens (refill now b) \<le> tb_tokens b + tb_rate b * elapsed_seconds (tb_lastTime b) (tb_lastTime (refill now b))"
    and "tb_rate (refill now b) = tb_rate b" "tb_capacity (refill now b) = tb_capacity b"
    and "tb_lastTime (refill now b) = max (tb_lastTime b) now"
  using assms
  by (auto simp: bucket_ok_def refill_def Let_def elapsed_seconds_def min_def max_def
        zero_less_divide_iff mult.commute)

lemma take_token_ok:
  assumes "bucket_ok b" "take_token now b = (b', allowed, r)"
  shows "bucket_ok b'" "tb_rate b' = tb_rate b" "tb_lastTime b' = max (tb_lastTime b) now"
    and "tb_tokens b' + (if allowed then 1 else 0) \<le>
           tb_tokens b + tb_rate b * elapsed_seconds (tb_lastTime b) (tb_lastTime b')"
  using refill_ok[OF assms(1), of now] assms(2)
  by (auto simp: take_token_def Let_def bucket_ok_def split: if_splits)

text \<open>The bucket and the number of admitted requests after requests at the given times.\<close>

fun admitted :: "int list \<Rightarrow> tokenBucket \<Rightarrow> tokenBucket \<times> nat" where
  "admitted [] b = (b, 0)"
| "admitted (t # ts) b =
     (let (b, ok) = allow t b; (b, n) = admitted ts b in (b, if ok then Suc n else n))"

lemma admitted_ok:
  "\<lbrakk>bucket_ok b; admitted ts b = (b', n)\<rbrakk> \<Longrightarrow>
     bucket_ok b' \<and> tb_rate b' = tb_rate b \<and> tb_lastTime b \<le> tb_lastTime b' \<and>
     tb_lastTime b' \<in> insert (tb_lastTime b) (set ts) \<and>
     tb_tokens b' + of_nat n \<le> tb_tokens b + tb_rate b * elapsed_seconds (tb_lastTime b) (tb_lastTime b')"
proof (induction ts arbitrary: b b' n)
  case Nil
  then show ?case by (simp add: elapsed_seconds_def)
next
  case (Cons t ts)
  obtain b1 ok r where b1: "take_token t b = (b1, ok, r)" by (metis prod_cases3)
  obtain m where m: "admitted ts b1 = (b', m)" "n = (if ok then Suc m else m)"
    using Cons.prems(2) by (auto simp: allow_def b1 split: prod.splits)
  note t1 = take_token_ok[OF Cons.prems(1) b1] and t2 = Cons.IH[OF take_token_ok(1)[OF Cons.prems(1) b1] m(1)]
  have "elapsed_seconds (tb_lastTime b) (tb_lastTime b') =
      elapsed_seconds (tb_lastTime b) (tb_lastTime b1) + elapsed_seconds (tb_lastTime b1) (tb_lastTime b')"
    by (simp add: elapsed_seconds_def field_simps)
  then have e: "tb_rate b * elapsed_seconds (tb_lastTime b) (tb_lastTime b') =
      tb_rate b * elapsed_seconds (tb_lastTime b) (tb_lastTime b1) +
      tb_rate b * elapsed_seconds (tb_lastTime b1) (tb_lastTime b')"
    by (simp add: distrib_left)
  have "tb_tokens b' + of_nat n \<le> tb_tokens b + tb_rate b * elapsed_seconds (tb_lastTime b) (tb_lastTime b')"
    unfolding e using t1 t2 m(2) by (auto split: if_splits)
  then show ?case using t1 t2 by (auto simp: max_def split: if_splits)
qed

section \<open>Properties\<close>



text \<open>
  With limits by client address, a request touches the bucket of its own address only,
  and no bucket is ever removed for good: the table grows with the number of addresses
  seen, whatever the time to live.
\<close>

lemma rate_limit_per_address:
  assumes "rl_byIP mb" "rl_take clock req mb = (mb', r)"
  shows "dom (rl_buckets mb') = insert (clientIP req) (dom (rl_buckets mb)) \<and>
         (\<forall>ip. ip \<noteq> clientIP req \<longrightarrow> rl_buckets mb' ip = rl_buckets mb ip) \<and> (\<exists>x. r = Inr x)"
  using assms
  by (auto simp: rl_take_def getOrCreateBucket_def Let_def fun_upd_def dom_def
        split: prod.splits option.splits if_splits)

text \<open>
  With the recovery middleware outermost, a panic of a handler or of an inner middleware
  that has not answered yet becomes a 500 response, is logged, and does not leave the server.
\<close>

lemma recovery_gives_500:
  assumes "ranges rt" "hs_mdls hs = recovery_Build logFunc # ms"
    and "foldr (\<lambda>mdl h. mdl h) ms (serve rt hs)
           (w, (reset pooled)\<lparr>Req := request, Resp := response\<rparr>) = ((w', c), Some p)"
    and "\<not> ctx_done c" "rw_status (Resp c) = None"
    and "canonical_headers (RespHeaders c)" "finite (dom (RespHeaders c))"
  shows "\<exists>rw. ServeHTTP rt hs pooled response request w = (logFunc p w', rw, None, zero_Context) \<and>
           client_status rw = 500 \<and> rw_body rw = rw_body (Resp c) @ ''Internal Server Error''"
proof -
  let ?c = "c\<lparr>RespStatusCode := 500, RespData := ''Internal Server Error''\<rparr>"
  have "foldr (\<lambda>mdl h. mdl h) (hs_mdls hs) (serve rt hs)
      (w, (reset pooled)\<lparr>Req := request, Resp := response\<rparr>) = ((logFunc p w', ?c), None)"
    using assms(3) by (simp add: assms(2) recovery_Build_def)
  from flushed_response[OF assms(1) this] show ?thesis using assms(4-7) by auto
qed

text \<open>A panic after \<^verbatim>\<open>Abort\<close> is recovered, but the 500 stays in the context: nothing is flushed.\<close>

lemma recovery_after_abort:
  assumes "hs_mdls hs = recovery_Build logFunc # ms"
    and "foldr (\<lambda>mdl h. mdl h) ms (serve rt hs)
           (w, (reset pooled)\<lparr>Req := request, Resp := response\<rparr>) = ((w', c), Some p)"
    and "ctx_done c" "Resp c = new_rw"
  shows "client_status (fst (snd (ServeHTTP rt hs pooled response request w))) = 200"
  using assms
  by (simp add: ServeHTTP_def flash_mdl_def recovery_Build_def IsDone_def client_status_def new_rw_def)



text \<open>
  A response the gzip middleware changes was asked for with gzip, is large enough and of
  a textual type, and decompresses to the original; it is labelled as gzip and carries no
  stale length. Its \<^verbatim>\<open>Vary\<close> header is \<^verbatim>\<open>Accept-Encoding\<close> alone, so that a \<^verbatim>\<open>Vary: Origin\<close> that
  the CORS middleware had set is lost.
\<close>

lemma gzip_transparent:
  assumes "\<forall>l d bs. gz l d = Some bs \<longrightarrow> gunzip bs = Some d"
    and "next (w, c) = ((w1, c1), None)" "gzip_Build gz mb next (w, c) = ((w2, c2), p)"
  shows "w2 = w1 \<and> p = None \<and>
         (c2 = c1 \<or>
          contains ''gzip'' (hget (ReqHeader (Req c)) ''Accept-Encoding'') \<and>
          MinSize mb \<le> int (length (RespData c1)) \<and>
          shouldCompress (hget (RespHeaders c1) ''Content-Type'') \<and>
          gunzip (RespData c2) = Some (RespData c1) \<and> RespStatusCode c2 = RespStatusCode c1 \<and>
          hvals (RespHeaders c2) ''Content-Encoding'' = [''gzip''] \<and>
          hvals (RespHeaders c2) ''Content-Length'' = [] \<and>
          hvals (RespHeaders c2) ''Vary'' = [''Accept-Encoding''])"
  using assms
  by (auto simp: gzip_Build_def gzip_response_def Let_def SetHeader_def hset_def hdel_def hvals_def
        split: if_splits option.splits)

end
