(* ===== verification/Endpoint.thy ===== *)
theory Endpoint
  imports Go_Strings
begin

text \<open>
  Backend addresses of the RPC client: \<^verbatim>\<open>micro/net/endpoint.go\<close>. Parsing of address lists
  with weights, removal of duplicates, expansion through a resolver, and the health state
  of a node. DNS lookup and the test for IP literals are parameters; times are in
  nanoseconds. Error values keep the case, not the text of the message.
\<close>

section \<open>Addresses\<close>

record Endpoint =
  ep_Addr :: string
  ep_Weight :: int

datatype endpoint_error =
    EmptyAddress | EmptyEntry | InvalidWeight string | InvalidAddress string
  | ResolveFailed string | NoAddresses string | NoUsableAddresses string | NoResolved

definition is_sep :: "char \<Rightarrow> bool" where
  "is_sep r \<longleftrightarrow> r = CHR '','' \<or> r = CHR '';'' \<or> r = CHR '' '' \<or> r = CHR 0x09 \<or> r = CHR 0x0A"

definition parseOneEndpoint :: "string \<Rightarrow> endpoint_error + Endpoint" where
  "parseOneEndpoint s =
     (let s = trim_space s
      in if s = '''' then Inl EmptyEntry
         else
           sum_bind
             (case last_index_byte CHR ''@'' s of
                None \<Rightarrow> Inr (s, 1)
              | Some i \<Rightarrow>
                  (case atoi (drop (i + 1) s) of
                     None \<Rightarrow> Inl (InvalidWeight s)
                   | Some w \<Rightarrow> if w \<le> 0 then Inl (InvalidWeight s) else Inr (take i s, w)))
             (\<lambda>(addr, weight).
                case split_host_port addr of
                  None \<Rightarrow> Inl (InvalidAddress addr)
                | Some _ \<Rightarrow> Inr \<lparr>ep_Addr = addr, ep_Weight = weight\<rparr>))"

text \<open>\<open>seen\<close> gives the index in \<open>out\<close> of an address.\<close>

fun dedupe_loop :: "(string \<rightharpoonup> nat) \<Rightarrow> Endpoint list \<Rightarrow> Endpoint list \<Rightarrow> Endpoint list" where
  "dedupe_loop seen out [] = out"
| "dedupe_loop seen out (ep # eps) =
     (let ep = (if ep_Weight ep \<le> 0 then ep\<lparr>ep_Weight := 1\<rparr> else ep)
      in case seen (ep_Addr ep) of
           Some idx \<Rightarrow>
             dedupe_loop seen
               (if ep_Weight ep > ep_Weight (out ! idx)
                then out[idx := (out ! idx)\<lparr>ep_Weight := ep_Weight ep\<rparr>] else out) eps
         | None \<Rightarrow> dedupe_loop (seen(ep_Addr ep \<mapsto> length out)) (out @ [ep]) eps)"

definition dedupeEndpoints :: "Endpoint list \<Rightarrow> Endpoint list" where
  "dedupeEndpoints eps = dedupe_loop Map.empty [] eps"

definition mergeEndpoints :: "Endpoint list \<Rightarrow> Endpoint list \<Rightarrow> Endpoint list" where
  "mergeEndpoints base extra = dedupeEndpoints (([] @ base) @ extra)"

fun parse_fields :: "string list \<Rightarrow> endpoint_error + Endpoint list" where
  "parse_fields [] = Inr []"
| "parse_fields (f # fs) =
     sum_bind (parseOneEndpoint f) (\<lambda>ep. sum_bind (parse_fields fs) (\<lambda>eps. Inr (ep # eps)))"

definition parseEndpointList :: "string \<Rightarrow> endpoint_error + Endpoint list" where
  "parseEndpointList raw =
     (let raw = trim_space raw
      in if raw = '''' then Inl EmptyAddress
         else
           (let fields = fields_func is_sep raw
            in if fields = [] then Inl EmptyAddress
               else sum_bind (parse_fields fields) (\<lambda>eps. Inr (dedupeEndpoints eps))))"

section \<open>Resolving\<close>

definition joinHostPort :: "string \<Rightarrow> string \<Rightarrow> string" where
  "joinHostPort host port =
     (if CHR '':'' \<in> set host then ''['' @ host @ '']:'' @ port else host @ '':'' @ port)"

definition StaticResolver_Resolve :: "string \<Rightarrow> string \<Rightarrow> endpoint_error + string list" where
  "StaticResolver_Resolve network address =
     (case split_host_port address of
        None \<Rightarrow> Inl (InvalidAddress address) | Some _ \<Rightarrow> Inr [address])"

text \<open>The loop over the looked up addresses; an address is its text and whether it is IPv4.\<close>

fun dns_collect :: "string \<Rightarrow> string \<Rightarrow> string set \<Rightarrow> (string \<times> bool) list \<Rightarrow> string list" where
  "dns_collect network port seen [] = []"
| "dns_collect network port seen ((ip, v4) # ips) =
     (if network = ''tcp4'' \<and> \<not> v4 then dns_collect network port seen ips
      else if network = ''tcp6'' \<and> v4 then dns_collect network port seen ips
      else
        (let addr = joinHostPort ip port
         in if addr \<in> seen then dns_collect network port seen ips
            else addr # dns_collect network port (insert addr seen) ips))"

definition DNSResolver_Resolve ::
  "(string \<Rightarrow> bool) \<Rightarrow> (string \<Rightarrow> (string \<times> bool) list option) \<Rightarrow> string \<Rightarrow> string \<Rightarrow>
   endpoint_error + string list" where
  "DNSResolver_Resolve is_ip lookup network address =
     (case split_host_port address of
        None \<Rightarrow> Inl (InvalidAddress address)
      | Some (host, port) \<Rightarrow>
          if is_ip host then Inr [address]
          else case lookup host of
              None \<Rightarrow> Inl (ResolveFailed host)
            | Some ips \<Rightarrow>
                if ips = [] then Inl (NoAddresses host)
                else
                  (let out = dns_collect network port {} ips
                   in if out = [] then Inl (NoUsableAddresses host) else Inr out))"

fun resolve_all ::
  "(string \<Rightarrow> string \<Rightarrow> endpoint_error + string list) \<Rightarrow> string \<Rightarrow> Endpoint list \<Rightarrow> endpoint_error + Endpoint list"
where
  "resolve_all resolve network [] = Inr []"
| "resolve_all resolve network (ep # eps) =
     sum_bind (resolve network (ep_Addr ep)) (\<lambda>addrs.
       sum_bind (resolve_all resolve network eps) (\<lambda>out.
         Inr (map (\<lambda>a. \<lparr>ep_Addr = a, ep_Weight = ep_Weight ep\<rparr>) addrs @ out)))"

definition resolveEndpoints ::
  "(string \<Rightarrow> string \<Rightarrow> endpoint_error + string list) option \<Rightarrow> string \<Rightarrow> Endpoint list \<Rightarrow>
   endpoint_error + Endpoint list" where
  "resolveEndpoints resolver network eps =
     (let resolve = (case resolver of None \<Rightarrow> StaticResolver_Resolve | Some r \<Rightarrow> r)
      in sum_bind (resolve_all resolve network eps) (\<lambda>out.
           if out = [] then Inl NoResolved else Inr (dedupeEndpoints out)))"

section \<open>Health\<close>

text \<open>
  \<open>pool_inflight\<close> is what the stream pool of the node reports. \<^verbatim>\<open>fails\<close> and \<^verbatim>\<open>reserved\<close> are
  32-bit counters.
\<close>

record endpointNode =
  en_ep :: Endpoint
  en_fails :: "32 word"
  en_downUntil :: int
  en_reserved :: "32 word"
  en_pool_inflight :: "32 word"

definition new_endpointNode :: "Endpoint \<Rightarrow> endpointNode" where
  "new_endpointNode ep = \<lparr>en_ep = ep, en_fails = 0, en_downUntil = 0, en_reserved = 0, en_pool_inflight = 0\<rparr>"

definition Addr :: "endpointNode \<Rightarrow> string" where
  "Addr n = ep_Addr (en_ep n)"

definition Weight :: "endpointNode \<Rightarrow> int" where
  "Weight n = (if ep_Weight (en_ep n) \<le> 0 then 1 else ep_Weight (en_ep n))"

definition Healthy :: "int \<Rightarrow> endpointNode \<Rightarrow> bool" where
  "Healthy now n = (let until = en_downUntil n in if until = 0 then True else now \<ge> until)"

definition MarkSuccess :: "endpointNode \<Rightarrow> endpointNode" where
  "MarkSuccess n = n\<lparr>en_fails := 0, en_downUntil := 0\<rparr>"

definition MarkFailure :: "int \<Rightarrow> int \<Rightarrow> int \<Rightarrow> endpointNode \<Rightarrow> endpointNode" where
  "MarkFailure now threshold cooldown n =
     (let threshold = (if threshold \<le> 0 then 2 else threshold);
          cooldown = (if cooldown \<le> 0 then 5 * 1000000000 else cooldown);
          n = n\<lparr>en_fails := en_fails n + 1\<rparr>
      in if sint (en_fails n) \<ge> threshold then n\<lparr>en_downUntil := now + cooldown\<rparr> else n)"

definition Inflight :: "endpointNode \<Rightarrow> int" where
  "Inflight n = sint (en_reserved n + en_pool_inflight n)"

definition reserve :: "endpointNode \<Rightarrow> endpointNode" where
  "reserve n = n\<lparr>en_reserved := en_reserved n + 1\<rparr>"

definition unreserve :: "endpointNode \<Rightarrow> endpointNode" where
  "unreserve n = n\<lparr>en_reserved := en_reserved n - 1\<rparr>"

record EndpointStats =
  es_Addr :: string
  es_Weight :: int
  es_Healthy :: bool
  es_Fails :: "32 word"
  es_DownUntil :: "int option"

definition Stats :: "int \<Rightarrow> endpointNode \<Rightarrow> EndpointStats" where
  "Stats now n = \<lparr>es_Addr = Addr n, es_Weight = Weight n, es_Healthy = Healthy now n,
     es_Fails = en_fails n, es_DownUntil = (if en_downUntil n > 0 then Some (en_downUntil n) else None)\<rparr>"

section \<open>Removing duplicates\<close>

definition eff_weight :: "Endpoint \<Rightarrow> int" where
  "eff_weight e = (if ep_Weight e \<le> 0 then 1 else ep_Weight e)"

text \<open>The elements of a list in the order of their first occurrence.\<close>

definition firsts :: "'a list \<Rightarrow> 'a list" where
  "firsts xs = rev (remdups (rev xs))"

lemma firsts_Nil [simp]: "firsts [] = []"
  by (simp add: firsts_def)

lemma firsts_snoc: "firsts (xs @ [x]) = (if x \<in> set xs then firsts xs else firsts xs @ [x])"
  by (simp add: firsts_def)

lemma set_firsts [simp]: "set (firsts xs) = set xs"
  by (simp add: firsts_def)

lemma distinct_firsts [simp]: "distinct (firsts xs)"
  by (simp add: firsts_def)

lemma firsts_distinct: "distinct xs \<Longrightarrow> firsts xs = xs"
  by (simp add: firsts_def distinct_remdups_id)

definition weight_of :: "Endpoint list \<Rightarrow> string \<Rightarrow> int" where
  "weight_of eps a = Max (eff_weight ` {e \<in> set eps. ep_Addr e = a})"

lemma weight_of_snoc_new: "a \<notin> ep_Addr ` set eps \<Longrightarrow> ep_Addr e = a \<Longrightarrow> weight_of (eps @ [e]) a = eff_weight e"
proof -
  assume a: "a \<notin> ep_Addr ` set eps" "ep_Addr e = a"
  have "\<not> (d \<in> set eps \<and> ep_Addr d = a)" for d using a(1) by blast
  then have "{d \<in> set (eps @ [e]). ep_Addr d = a} = {e}" using a(2) by auto
  then show ?thesis by (simp add: weight_of_def)
qed

lemma weight_of_snoc_old:
  assumes "a \<in> ep_Addr ` set eps" "ep_Addr e = a"
  shows "weight_of (eps @ [e]) a = max (weight_of eps a) (eff_weight e)"
proof -
  have "{d \<in> set (eps @ [e]). ep_Addr d = a} = insert e {d \<in> set eps. ep_Addr d = a}" using assms(2) by auto
  moreover have "{d \<in> set eps. ep_Addr d = a} \<noteq> {}" using assms(1) by auto
  ultimately show ?thesis by (simp add: weight_of_def max.commute)
qed

lemma weight_of_snoc_other: "ep_Addr e \<noteq> a \<Longrightarrow> weight_of (eps @ [e]) a = weight_of eps a"
  unfolding weight_of_def by (rule arg_cong[where f = "\<lambda>S. Max (eff_weight ` S)"]) auto

text \<open>What the loop has established after the endpoints \<open>pre\<close>.\<close>

definition dedupe_inv :: "Endpoint list \<Rightarrow> (string \<rightharpoonup> nat) \<Rightarrow> Endpoint list \<Rightarrow> bool" where
  "dedupe_inv pre seen out \<longleftrightarrow>
     map ep_Addr out = firsts (map ep_Addr pre) \<and>
     (\<forall>i < length out. ep_Weight (out ! i) = weight_of pre (ep_Addr (out ! i))) \<and>
     (\<forall>a i. seen a = Some i \<longleftrightarrow> i < length out \<and> ep_Addr (out ! i) = a)"

lemma dedupe_inv_new:
  assumes "dedupe_inv pre seen out" "seen (ep_Addr e) = None"
  shows "dedupe_inv (pre @ [e]) (seen(ep_Addr e \<mapsto> length out)) (out @ [e\<lparr>ep_Weight := eff_weight e\<rparr>])"
proof -
  have dom: "ep_Addr e \<notin> set (map ep_Addr out)"
  proof
    assume "ep_Addr e \<in> set (map ep_Addr out)"
    then obtain i where "i < length out" "ep_Addr (out ! i) = ep_Addr e" by (auto simp: in_set_conv_nth)
    then have "seen (ep_Addr e) = Some i" using assms(1) by (simp add: dedupe_inv_def)
    then show False using assms(2) by simp
  qed
  have "set (map ep_Addr out) = set (map ep_Addr pre)"
    using assms(1) by (simp only: dedupe_inv_def set_firsts)
  with dom have new: "ep_Addr e \<notin> ep_Addr ` set pre" by simp
  have "ep_Weight ((out @ [e\<lparr>ep_Weight := eff_weight e\<rparr>]) ! i) =
      weight_of (pre @ [e]) (ep_Addr ((out @ [e\<lparr>ep_Weight := eff_weight e\<rparr>]) ! i))"
    if "i < length (out @ [e])" for i
  proof (cases "i = length out")
    case True
    then show ?thesis using weight_of_snoc_new[OF new refl] by simp
  next
    case False
    then have i: "i < length out" using that by simp
    then have "ep_Addr e \<noteq> ep_Addr (out ! i)" using dom nth_mem[OF i] by auto
    then show ?thesis using i assms(1) by (simp add: dedupe_inv_def nth_append weight_of_snoc_other)
  qed
  moreover have "(seen(ep_Addr e \<mapsto> length out)) a = Some i \<longleftrightarrow>
      i < length (out @ [e]) \<and> ep_Addr ((out @ [e\<lparr>ep_Weight := eff_weight e\<rparr>]) ! i) = a" for a i
  proof (cases "i < length out")
    case True
    then have "ep_Addr e \<noteq> ep_Addr (out ! i)" using dom nth_mem[OF True] by auto
    then show ?thesis using True assms(1) by (auto simp: dedupe_inv_def nth_append)
  next
    case False
    then have "seen a \<noteq> Some i" using assms(1) by (simp add: dedupe_inv_def)
    then show ?thesis using False by (auto simp: nth_append less_Suc_eq)
  qed
  ultimately show ?thesis
    using assms(1) new unfolding dedupe_inv_def by (simp add: firsts_snoc)
qed

lemma dedupe_inv_old:
  assumes "dedupe_inv pre seen out" "seen (ep_Addr e) = Some i"
  shows "dedupe_inv (pre @ [e]) seen
           (out[i := (out ! i)\<lparr>ep_Weight := max (ep_Weight (out ! i)) (eff_weight e)\<rparr>])"
proof -
  let ?out = "out[i := (out ! i)\<lparr>ep_Weight := max (ep_Weight (out ! i)) (eff_weight e)\<rparr>]"
  have i: "i < length out" "ep_Addr (out ! i) = ep_Addr e" using assms by (auto simp: dedupe_inv_def)
  have addr: "ep_Addr (?out ! j) = ep_Addr (out ! j)" if "j < length out" for j
    using that by (cases "j = i") simp_all
  have mapa: "map ep_Addr ?out = map ep_Addr out" by (rule nth_equalityI) (simp_all add: addr)
  have out: "map ep_Addr out = firsts (map ep_Addr pre)" using assms(1) by (simp add: dedupe_inv_def)
  then have dist: "distinct (map ep_Addr out)" by simp
  have old: "ep_Addr e \<in> ep_Addr ` set pre"
  proof -
    have "ep_Addr (out ! i) \<in> set (map ep_Addr out)" using i(1) by simp
    then show ?thesis unfolding out i(2) by simp
  qed
  have w: "ep_Weight (?out ! j) = weight_of (pre @ [e]) (ep_Addr (?out ! j))" if j: "j < length out" for j
  proof (cases "j = i")
    case True
    then show ?thesis using i assms(1) by (simp add: dedupe_inv_def weight_of_snoc_old[OF old refl])
  next
    case False
    then have "ep_Addr e \<noteq> ep_Addr (out ! j)"
      using nth_eq_iff_index_eq[OF dist, of i j] j i by simp
    then show ?thesis using False j assms(1) by (simp add: dedupe_inv_def weight_of_snoc_other)
  qed
  show ?thesis
    using assms(1) w mapa old addr by (auto simp: dedupe_inv_def firsts_snoc simp del: list_update_beyond)
qed

lemma dedupe_loop_inv:
  "dedupe_inv pre seen out \<Longrightarrow> \<exists>seen'. dedupe_inv (pre @ eps) seen' (dedupe_loop seen out eps)"
proof (induction eps arbitrary: pre seen out)
  case (Cons ep eps)
  let ?e = "ep\<lparr>ep_Weight := eff_weight ep\<rparr>"
  have e: "(if ep_Weight ep \<le> 0 then ep\<lparr>ep_Weight := 1\<rparr> else ep) = ?e" by (simp add: eff_weight_def)
  show ?case
  proof (cases "seen (ep_Addr ep)")
    case None
    then have eq: "dedupe_loop seen out (ep # eps) =
        dedupe_loop (seen(ep_Addr ep \<mapsto> length out)) (out @ [?e]) eps"
      by (simp add: e)
    show ?thesis
      using Cons.IH[OF dedupe_inv_new[OF Cons.prems None]]
      unfolding eq append_assoc append_Cons append_Nil .
  next
    case (Some i)
    let ?out = "out[i := (out ! i)\<lparr>ep_Weight := max (ep_Weight (out ! i)) (eff_weight ep)\<rparr>]"
    have out: "(if ep_Weight ?e > ep_Weight (out ! i) then out[i := (out ! i)\<lparr>ep_Weight := ep_Weight ?e\<rparr>] else out) = ?out"
      by (auto simp: max_def)
    have "dedupe_loop seen out (ep # eps) = dedupe_loop seen ?out eps"
      unfolding out [symmetric] using Some by (simp add: e)
    then show ?thesis
      using Cons.IH[OF dedupe_inv_old[OF Cons.prems Some]] by simp
  qed
qed auto

lemma dedupe_result: "\<exists>seen. dedupe_inv eps seen (dedupeEndpoints eps)"
  using dedupe_loop_inv[of "[]" Map.empty "[]" eps] by (simp add: dedupeEndpoints_def dedupe_inv_def)

lemma dedupe_addrs: "map ep_Addr (dedupeEndpoints eps) = firsts (map ep_Addr eps)"
  using dedupe_result[of eps] by (auto simp: dedupe_inv_def)

lemma dedupe_weight: "e \<in> set (dedupeEndpoints eps) \<Longrightarrow> ep_Weight e = weight_of eps (ep_Addr e)"
  using dedupe_result[of eps] by (auto simp: dedupe_inv_def in_set_conv_nth)

lemma endpoint_eqI: "ep_Addr a = ep_Addr b \<Longrightarrow> ep_Weight a = ep_Weight b \<Longrightarrow> a = (b :: Endpoint)"
  by (cases a; cases b) simp

lemma weight_of_unique:
  assumes "distinct (map ep_Addr eps)" "e \<in> set eps"
  shows "weight_of eps (ep_Addr e) = eff_weight e"
proof -
  have "{d \<in> set eps. ep_Addr d = ep_Addr e} = {e}"
    using assms by (auto simp: distinct_map dest: inj_onD)
  then show ?thesis by (simp add: weight_of_def)
qed

lemma dedupe_id:
  assumes "distinct (map ep_Addr eps)" "\<forall>e \<in> set eps. 0 < ep_Weight e"
  shows "dedupeEndpoints eps = eps"
proof (rule nth_equalityI)
  have addrs: "map ep_Addr (dedupeEndpoints eps) = map ep_Addr eps"
    using assms(1) by (simp add: dedupe_addrs firsts_distinct)
  then show len: "length (dedupeEndpoints eps) = length eps" using map_eq_imp_length_eq by blast
  fix i assume i: "i < length (dedupeEndpoints eps)"
  then have a: "ep_Addr (dedupeEndpoints eps ! i) = ep_Addr (eps ! i)"
    using addrs len by (metis nth_map)
  have "ep_Weight (dedupeEndpoints eps ! i) = eff_weight (eps ! i)"
    using dedupe_weight[OF nth_mem[OF i]] weight_of_unique[OF assms(1), of "eps ! i"] a i len by simp
  moreover have "0 < ep_Weight (eps ! i)" using assms(2) i len by simp
  ultimately show "dedupeEndpoints eps ! i = eps ! i"
    using a by (intro endpoint_eqI) (simp_all add: eff_weight_def)
qed

section \<open>Printing and parsing address lists\<close>

definition print_endpoint :: "Endpoint \<Rightarrow> string" where
  "print_endpoint e = ep_Addr e @ CHR ''@'' # itoa (ep_Weight e)"

definition printable :: "Endpoint \<Rightarrow> bool" where
  "printable e \<longleftrightarrow>
     split_host_port (ep_Addr e) \<noteq> None \<and> 1 \<le> ep_Weight e \<and> ep_Weight e < 2 ^ 63 \<and>
     list_all (\<lambda>c. \<not> is_sep c \<and> \<not> is_space c \<and> c \<noteq> CHR ''@'') (ep_Addr e)"

lemma nat_digits_chars: "c \<in> set (nat_digits n) \<Longrightarrow> \<exists>d < 10. c = digit_char d"
proof (induction n rule: nat_digits.induct)
  case (1 n)
  show ?case
  proof (cases "n < 10")
    case True
    then show ?thesis using "1.prems" by (subst (asm) nat_digits.simps) auto
  next
    case False
    then have "c \<in> set (nat_digits (n div 10)) \<or> c = digit_char (n mod 10)"
      using "1.prems" by (subst (asm) nat_digits.simps) auto
    then show ?thesis using "1.IH"[OF False] by (metis mod_less_divisor zero_less_numeral)
  qed
qed

lemma digit_char_plain:
  assumes "d < 10"
  shows "\<not> is_sep (digit_char d) \<and> \<not> is_space (digit_char d) \<and> digit_char d \<noteq> CHR ''@''"
proof -
  have "digit_char d \<noteq> c" if "(of_char c :: nat) < 48 \<or> 57 < (of_char c :: nat)" for c
    using that of_char_digit_char[OF assms] assms by auto
  then show ?thesis by (simp add: is_sep_def is_space_def)
qed

lemma itoa_plain:
  assumes "0 \<le> w" "c \<in> set (itoa w)"
  shows "\<not> is_sep c \<and> \<not> is_space c \<and> c \<noteq> CHR ''@''"
  using assms nat_digits_chars[of c "nat w"] digit_char_plain by (auto simp: itoa_def)

lemma print_plain:
  assumes "printable e" "c \<in> set (print_endpoint e)"
  shows "\<not> is_sep c \<and> \<not> is_space c"
proof -
  have "c \<in> set (ep_Addr e) \<or> c = CHR ''@'' \<or> c \<in> set (itoa (ep_Weight e))"
    using assms(2) by (auto simp: print_endpoint_def)
  moreover have "\<not> is_sep CHR ''@'' \<and> \<not> is_space CHR ''@''" by (simp add: is_sep_def is_space_def)
  ultimately show ?thesis
    using assms(1) itoa_plain[of "ep_Weight e" c] by (auto simp: printable_def list_all_iff)
qed

lemma trim_space_plain: "\<forall>c \<in> set s. \<not> is_space c \<Longrightarrow> trim_space s = s"
  unfolding trim_space_def by (rule trim_by_id) (auto dest: hd_in_set last_in_set)

lemma parseOne_print:
  assumes "printable e"
  shows "parseOneEndpoint (print_endpoint e) = Inr e"
proof -
  have trim: "trim_space (print_endpoint e) = print_endpoint e"
    using print_plain[OF assms] by (blast intro: trim_space_plain)
  have "CHR ''@'' \<notin> set (itoa (ep_Weight e))"
    using itoa_plain[of "ep_Weight e" "CHR ''@''"] assms by (auto simp: printable_def)
  then have at: "last_index_byte CHR ''@'' (print_endpoint e) = Some (length (ep_Addr e))"
    by (simp add: print_endpoint_def last_index_byte_append)
  have w: "atoi (itoa (ep_Weight e)) = Some (ep_Weight e)" "\<not> ep_Weight e \<le> 0"
    using assms by (auto intro: atoi_itoa simp: printable_def)
  obtain hp where hp: "split_host_port (ep_Addr e) = Some hp" using assms by (auto simp: printable_def)
  show ?thesis
    using w hp unfolding parseOneEndpoint_def trim Let_def at
    by (simp add: print_endpoint_def)
qed

lemma parse_fields_print: "\<forall>e \<in> set eps. printable e \<Longrightarrow> parse_fields (map print_endpoint eps) = Inr eps"
  by (induction eps) (simp_all add: parseOne_print)

lemma fields_step:
  "\<forall>c \<in> set f. \<not> p c \<Longrightarrow>
   foldr (\<lambda>x acc. if p x then [] # acc else (case acc of [] \<Rightarrow> [[x]] | y # ys \<Rightarrow> (x # y) # ys)) f (y # ys) =
     (f @ y) # ys"
  by (induction f) auto

lemma fields_func_join:
  assumes "p c" "\<forall>f \<in> set fs. f \<noteq> [] \<and> (\<forall>x \<in> set f. \<not> p x)"
  shows "fields_func p (join [c] fs) = fs"
proof (cases "fs = []")
  case True
  then show ?thesis by (simp add: fields_func_def)
next
  case False
  let ?F = "\<lambda>s. foldr (\<lambda>x acc. if p x then [] # acc else (case acc of [] \<Rightarrow> [[x]] | y # ys \<Rightarrow> (x # y) # ys)) s [[]]"
  have "?F (join [c] fs) = fs"
    using False assms(2)
  proof (induction fs)
    case (Cons f fs)
    show ?case
    proof (cases "fs = []")
      case True
      then show ?thesis using Cons.prems(2) fields_step[of f p "[]" "[]"] by simp
    next
      case nonempty: False
      then have "?F (join [c] fs) = fs" using Cons by simp
      then show ?thesis
        using Cons.prems(2) fields_step[of f p "[]" fs] assms(1) by (simp add: join_Cons[OF nonempty])
    qed
  qed simp
  then show ?thesis using assms(2) by (simp add: fields_func_def)
qed

lemma set_join: "x \<in> set (join sep gs) \<Longrightarrow> x \<in> set sep \<or> (\<exists>g \<in> set gs. x \<in> set g)"
proof (induction gs)
  case (Cons g gs)
  then show ?case by (cases "gs = []") (auto simp: join_Cons)
qed simp

section \<open>Failures in a row\<close>

lemma sint_small: "k < 2 ^ 31 \<Longrightarrow> sint (of_nat k :: 32 word) = int k"
  using int_word_sint[of "int k", where 'a = 32] by simp

section \<open>Properties\<close>

text \<open>
  Removing duplicates keeps the addresses in the order of their first occurrence, each
  with the largest of the weights it was given, where a weight that is not positive counts
  as one.
\<close>

lemma dedupe_spec:
  "map ep_Addr (dedupeEndpoints eps) = firsts (map ep_Addr eps) \<and>
   dedupeEndpoints eps = map (\<lambda>a. \<lparr>ep_Addr = a, ep_Weight = weight_of eps a\<rparr>) (firsts (map ep_Addr eps)) \<and>
   dedupeEndpoints (dedupeEndpoints eps) = dedupeEndpoints eps"
proof -
  have eq: "dedupeEndpoints eps = map (\<lambda>a. \<lparr>ep_Addr = a, ep_Weight = weight_of eps a\<rparr>) (map ep_Addr (dedupeEndpoints eps))"
    unfolding map_map
    by (rule sym, rule map_idI) (auto intro!: endpoint_eqI simp: dedupe_weight)
  have pos: "0 < ep_Weight e" if "e \<in> set (dedupeEndpoints eps)" for e
  proof -
    have "ep_Addr e \<in> set (map ep_Addr (dedupeEndpoints eps))" using that by simp
    then have "{d \<in> set eps. ep_Addr d = ep_Addr e} \<noteq> {}" unfolding dedupe_addrs by auto
    then have "weight_of eps (ep_Addr e) \<in> eff_weight ` {d \<in> set eps. ep_Addr d = ep_Addr e}"
      unfolding weight_of_def by (intro Max_in) auto
    then show ?thesis using dedupe_weight[OF that] by (auto simp: eff_weight_def split: if_splits)
  qed
  have "dedupeEndpoints (dedupeEndpoints eps) = dedupeEndpoints eps"
    by (rule dedupe_id) (use pos in \<open>simp_all add: dedupe_addrs\<close>)
  then show ?thesis using eq[unfolded dedupe_addrs] dedupe_addrs by blast
qed



text \<open>
  A node fails over after the configured number of failures in a row, and not before:
  it then counts as unhealthy from the last failure until the cooldown has passed, and as
  healthy again after it.
\<close>

lemma breaker_opens:
  assumes "0 < threshold" "0 < cooldown" "length ts < 2 ^ 31" "\<forall>t \<in> set ts. 0 < t"
    and "n' = foldl (\<lambda>n t. MarkFailure t threshold cooldown n) (MarkSuccess n) ts"
  shows "Healthy now n' \<longleftrightarrow> int (length ts) < threshold \<or> last ts + cooldown \<le> now"
proof -
  have "en_fails n' = of_nat (length ts) \<and>
      en_downUntil n' = (if int (length ts) < threshold then 0 else last ts + cooldown)"
    using assms(3) unfolding assms(5)
  proof (induction ts rule: rev_induct)
    case Nil
    then show ?case using assms(1) by (simp add: MarkSuccess_def)
  next
    case (snoc t ts)
    then have "sint (of_nat (Suc (length ts)) :: 32 word) = int (Suc (length ts))"
      by (intro sint_small) simp
    then show ?case
      using snoc assms(1,2) by (simp add: MarkFailure_def Let_def add.commute)
  qed
  moreover have "last ts + cooldown \<noteq> 0" if "ts \<noteq> []"
  proof -
    have "0 < last ts" using assms(4) last_in_set[OF that] by blast
    then show ?thesis using assms(2) by linarith
  qed
  ultimately show ?thesis using assms(1) by (cases "ts = []") (auto simp: Healthy_def Let_def)
qed

end
