(* ===== verification/NetBalancer.thy ===== *)
theory NetBalancer
  imports Endpoint
begin

text \<open>
  Load balancing over the endpoints of a client: \<^verbatim>\<open>micro/net/balancer.go\<close> and the choice of a
  node in \<^verbatim>\<open>micro/net/client.go\<close>. A balancer returns the index of the chosen candidate.
  \<^verbatim>\<open>rand.IntN(n)\<close> is an arbitrary number modulo \<open>n\<close>; all results hold for every number.
  The retry loop around the compare-and-swap of the weighted round robin is taken in a run
  without interference, where the first attempt succeeds.
\<close>

section \<open>The strategies\<close>

definition randIntN :: "nat \<Rightarrow> nat \<Rightarrow> nat" where
  "randIntN r n = r mod n"

definition RoundRobin_Pick :: "64 word \<Rightarrow> endpointNode list \<Rightarrow> 64 word \<times> nat" where
  "RoundRobin_Pick n candidates =
     (if length candidates = 1 then (n, 0)
      else (let n = n + 1; i = n - 1 in (n, unat i mod length candidates)))"

definition Random_Pick :: "nat \<Rightarrow> endpointNode list \<Rightarrow> nat" where
  "Random_Pick r candidates =
     (if length candidates = 1 then 0 else randIntN r (length candidates))"

text \<open>The loop of the least active strategy from candidate \<open>i\<close> on.\<close>

fun least_active_loop :: "(nat \<Rightarrow> nat) \<Rightarrow> endpointNode list \<Rightarrow> nat \<Rightarrow> nat \<Rightarrow> int \<Rightarrow> nat \<Rightarrow> nat" where
  "least_active_loop r [] i best bestLoad ties = best"
| "least_active_loop r (c # cs) i best bestLoad ties =
     (let load = Inflight c
      in if load < bestLoad then least_active_loop r cs (i + 1) i load 1
         else if load = bestLoad then
           (let ties = ties + 1
            in least_active_loop r cs (i + 1) (if randIntN (r i) ties = 0 then i else best) bestLoad ties)
         else least_active_loop r cs (i + 1) best bestLoad ties)"

definition LeastActive_Pick :: "(nat \<Rightarrow> nat) \<Rightarrow> endpointNode list \<Rightarrow> nat" where
  "LeastActive_Pick r candidates =
     (if length candidates = 1 then 0
      else least_active_loop r (tl candidates) 1 0 (Inflight (hd candidates)) 1)"

record wrrState =
  wrr_addrs :: "string list"
  wrr_weights :: "int list"
  wrr_current :: "int list"
  wrr_total :: int

definition wrrMatches :: "wrrState \<Rightarrow> endpointNode list \<Rightarrow> bool" where
  "wrrMatches st candidates =
     (if length (wrr_addrs st) \<noteq> length candidates then False
      else list_all (\<lambda>i. wrr_addrs st ! i = Addr (candidates ! i) \<and> wrr_weights st ! i = Weight (candidates ! i))
             [0..<length candidates])"

definition buildWRRState :: "endpointNode list \<Rightarrow> wrrState" where
  "buildWRRState candidates =
     \<lparr>wrr_addrs = map Addr candidates, wrr_weights = map Weight candidates,
      wrr_current = replicate (length candidates) 0, wrr_total = sum_list (map Weight candidates)\<rparr>"

text \<open>The loop over the weights: the increased values and the index of the best one.\<close>

fun wrr_scan :: "int list \<Rightarrow> int list \<Rightarrow> nat \<Rightarrow> nat \<Rightarrow> int \<Rightarrow> int list \<times> nat" where
  "wrr_scan (c # cs) (w # ws) i bestIdx bestVal =
     (let v = c + w;
          (rest, b) = (if v > bestVal then wrr_scan cs ws (i + 1) i v else wrr_scan cs ws (i + 1) bestIdx bestVal)
      in (v # rest, b))"
| "wrr_scan cs ws i bestIdx bestVal = ([], bestIdx)"

definition WRR_Pick :: "wrrState option \<Rightarrow> endpointNode list \<Rightarrow> wrrState option \<times> nat" where
  "WRR_Pick state candidates =
     (if length candidates = 1 then (state, 0)
      else
        (let st = (case state of
                     None \<Rightarrow> buildWRRState candidates
                   | Some st \<Rightarrow> if \<not> wrrMatches st candidates then buildWRRState candidates else st);
             (nextCurrent, bestIdx) = wrr_scan (wrr_current st) (wrr_weights st) 0 0 (- (2 ^ 30));
             nextCurrent = nextCurrent[bestIdx := nextCurrent ! bestIdx - wrr_total st];
             newSt = st\<lparr>wrr_current := nextCurrent\<rparr>;
             want = wrr_addrs st ! bestIdx
         in (Some newSt,
             case index_byte want (map Addr candidates) of
               Some k \<Rightarrow> k
             | None \<Rightarrow> bestIdx mod length candidates)))"

section \<open>The interface\<close>

datatype BalancerPolicy = PolicyRoundRobin | PolicyRandom | PolicyLeastActive | PolicyWeightedRoundRobin

datatype Balancer =
    RoundRobinBalancer "64 word"
  | RandomBalancer
  | LeastActiveBalancer
  | WeightedRoundRobinBalancer "wrrState option"

fun NewBalancer :: "BalancerPolicy \<Rightarrow> Balancer" where
  "NewBalancer PolicyRandom = RandomBalancer"
| "NewBalancer PolicyLeastActive = LeastActiveBalancer"
| "NewBalancer PolicyWeightedRoundRobin = WeightedRoundRobinBalancer None"
| "NewBalancer PolicyRoundRobin = RoundRobinBalancer 0"

fun Pick :: "(nat \<Rightarrow> nat) \<Rightarrow> Balancer \<Rightarrow> endpointNode list \<Rightarrow> Balancer \<times> nat" where
  "Pick r (RoundRobinBalancer n) cs = (let (n, i) = RoundRobin_Pick n cs in (RoundRobinBalancer n, i))"
| "Pick r RandomBalancer cs = (RandomBalancer, Random_Pick (r 0) cs)"
| "Pick r LeastActiveBalancer cs = (LeastActiveBalancer, LeastActive_Pick r cs)"
| "Pick r (WeightedRoundRobinBalancer st) cs =
     (let (st, i) = WRR_Pick st cs in (WeightedRoundRobinBalancer st, i))"

text \<open>
  The choice of a node by the client: the healthy nodes if there are any, otherwise all of
  them. \<^const>\<open>None\<close> is \<^verbatim>\<open>ErrNoEndpoint\<close>; the result is an index into the nodes.
\<close>

definition pickNode ::
  "('b \<Rightarrow> endpointNode list \<Rightarrow> 'b \<times> nat) \<Rightarrow> int \<Rightarrow> endpointNode list \<Rightarrow> 'b \<Rightarrow> 'b \<times> nat option" where
  "pickNode pick now nodes b =
     (if nodes = [] then (b, None)
      else
        (let healthy = filter (\<lambda>i. Healthy now (nodes ! i)) [0..<length nodes];
             candidates = (if healthy = [] then [0..<length nodes] else healthy);
             (b, j) = pick b (map (\<lambda>i. nodes ! i) candidates)
         in (b, Some (candidates ! j))))"

section \<open>What every balancer promises\<close>

text \<open>The contract of \<^verbatim>\<open>Balancer\<close>: of non-empty candidates, one is chosen.\<close>

locale balancer =
  fixes pick :: "'b \<Rightarrow> endpointNode list \<Rightarrow> 'b \<times> nat"
  assumes pick_candidate: "cs \<noteq> [] \<Longrightarrow> snd (pick b cs) < length cs"
begin

lemma pickNode_cases:
  assumes "nodes \<noteq> []"
  obtains i where "snd (pickNode pick now nodes b) = Some i" "i < length nodes"
    "(\<exists>n \<in> set nodes. Healthy now n) \<Longrightarrow> Healthy now (nodes ! i)"
proof -
  let ?h = "filter (\<lambda>i. Healthy now (nodes ! i)) [0..<length nodes]"
  let ?c = "if ?h = [] then [0..<length nodes] else ?h"
  let ?j = "snd (pick b (map (\<lambda>i. nodes ! i) ?c))"
  have "?c \<noteq> []" using assms by auto
  then have "?j < length ?c" using pick_candidate[of "map (\<lambda>i. nodes ! i) ?c" b] by (simp split: if_splits)
  then have mem: "?c ! ?j \<in> set ?c" by (rule nth_mem)
  show thesis
  proof (rule that)
    show "snd (pickNode pick now nodes b) = Some (?c ! ?j)"
      using assms by (simp add: pickNode_def Let_def split_def)
    show "?c ! ?j < length nodes" using mem by (auto split: if_splits)
    assume "\<exists>n \<in> set nodes. Healthy now n"
    then obtain k where "k < length nodes" "Healthy now (nodes ! k)" by (auto simp: in_set_conv_nth)
    then have "k \<in> set ?h" by simp
    then have "?h \<noteq> []" by (metis empty_iff empty_set)
    then show "Healthy now (nodes ! (?c ! ?j))" using mem by (auto split: if_splits)
  qed
qed

end

lemma least_active_loop_bound:
  "best < i \<Longrightarrow> least_active_loop r cs i best bestLoad ties < i + length cs"
proof (induction r cs i best bestLoad ties rule: least_active_loop.induct)
  case (2 r c cs i best bestLoad ties)
  show ?case using "2.IH" "2.prems" by (auto simp: Let_def less_Suc_eq)
qed simp

interpretation bal: balancer "Pick r" for r
proof
  fix b :: Balancer and cs :: "endpointNode list"
  assume cs: "cs \<noteq> []"
  then have len: "0 < length cs" by simp
  show "snd (Pick r b cs) < length cs"
  proof (cases b)
    case (RoundRobinBalancer n)
    then show ?thesis using len by (simp add: RoundRobin_Pick_def)
  next
    case RandomBalancer
    then show ?thesis using len by (simp add: Random_Pick_def randIntN_def)
  next
    case LeastActiveBalancer
    have "least_active_loop r (tl cs) 1 0 (Inflight (hd cs)) 1 < 1 + length (tl cs)"
      by (rule least_active_loop_bound) simp
    then show ?thesis using LeastActiveBalancer len by (simp add: LeastActive_Pick_def)
  next
    case (WeightedRoundRobinBalancer st)
    have "k < length cs" if "index_byte a (map Addr cs) = Some k" for a k
      using that by (auto simp: index_byte_Some_iff)
    then show ?thesis
      using WeightedRoundRobinBalancer len by (simp add: WRR_Pick_def Let_def split_def split: option.split)
  qed
qed

section \<open>Least active\<close>

lemma least_active_loop_min:
  "\<lbrakk>best < i; i + length cs = length all; drop i all = cs; bestLoad = Inflight (all ! best);
    \<forall>k < i. bestLoad \<le> Inflight (all ! k)\<rbrakk> \<Longrightarrow>
   \<forall>k < length all. Inflight (all ! least_active_loop r cs i best bestLoad ties) \<le> Inflight (all ! k)"
proof (induction r cs i best bestLoad ties rule: least_active_loop.induct)
  case (2 r c cs i best bestLoad ties)
  have c: "c = all ! i" "drop (i + 1) all = cs" "i < length all"
    using "2.prems"(2,3) by (auto simp: nth_via_drop drop_Suc tl_drop [symmetric] dest: arg_cong[where f = tl])
  have len: "i + 1 + length cs = length all" using "2.prems"(2) by simp
  consider "Inflight c < bestLoad" | "Inflight c = bestLoad" | "bestLoad < Inflight c" by linarith
  then show ?case
  proof cases
    case 1
    have "\<forall>k < i + 1. Inflight c \<le> Inflight (all ! k)"
      using "2.prems"(5) 1 c(1) by (force simp: less_Suc_eq)
    then show ?thesis using "2.IH"(1)[OF refl 1 _ len c(2)] c(1) 1 by simp
  next
    case 2
    let ?b = "if randIntN (r i) (ties + 1) = 0 then i else best"
    have "\<forall>k < i + 1. bestLoad \<le> Inflight (all ! k)"
      using "2.prems"(5) 2 c(1) by (force simp: less_Suc_eq)
    moreover have "bestLoad = Inflight (all ! ?b)" using "2.prems"(4) 2 c(1) by simp
    ultimately have "\<forall>k < length all. Inflight (all ! least_active_loop r cs (i + 1) ?b bestLoad (ties + 1)) \<le> Inflight (all ! k)"
      using "2.IH"(2)[OF refl _ 2 refl _ len c(2)] "2.prems"(1) 2 by simp
    then show ?thesis using 2 by (simp add: Let_def)
  next
    case 3
    have "\<forall>k < i + 1. bestLoad \<le> Inflight (all ! k)"
      using "2.prems"(5) 3 c(1) by (force simp: less_Suc_eq)
    then show ?thesis using "2.IH"(3)[OF refl _ _ _ len c(2) "2.prems"(4)] "2.prems"(1) 3 by simp
  qed
qed simp

section \<open>Weighted round robin\<close>

lemma Weight_pos: "1 \<le> Weight n"
  by (simp add: Weight_def)

lemma wrr_scan_values:
  "length cs = length ws \<Longrightarrow> fst (wrr_scan cs ws i b v) = map2 (+) cs ws"
  by (induction cs ws i b v rule: wrr_scan.induct) (auto simp: Let_def split_def)

text \<open>The index the scan returns is the one of a largest value, if one beats the start value.\<close>

lemma wrr_scan_best:
  assumes "length cs = length ws"
  shows "snd (wrr_scan cs ws i b v) = b \<and> (\<forall>y \<in> set (map2 (+) cs ws). y \<le> v) \<or>
         (\<exists>j < length cs. snd (wrr_scan cs ws i b v) = i + j \<and> v < map2 (+) cs ws ! j \<and>
            (\<forall>y \<in> set (map2 (+) cs ws). y \<le> map2 (+) cs ws ! j))"
  using assms
proof (induction cs arbitrary: ws i b v)
  case (Cons c cs)
  then obtain w ws' where ws: "ws = w # ws'" "length cs = length ws'" by (cases ws) auto
  let ?nx = "map2 (+) cs ws'" and ?u = "c + w"
  let ?b = "if ?u > v then i else b" and ?v = "max ?u v"
  have step: "snd (wrr_scan (c # cs) ws i b v) = snd (wrr_scan cs ws' (i + 1) ?b ?v)"
    by (simp add: ws(1) Let_def split_def max_def)
  have nx: "map2 (+) (c # cs) ws = ?u # ?nx" by (simp add: ws(1))
  from Cons.IH[OF ws(2), of "i + 1" ?b ?v]
  consider "snd (wrr_scan cs ws' (i + 1) ?b ?v) = ?b" "\<forall>y \<in> set ?nx. y \<le> ?v"
    | j where "j < length cs" "snd (wrr_scan cs ws' (i + 1) ?b ?v) = i + 1 + j" "?v < ?nx ! j"
        "\<forall>y \<in> set ?nx. y \<le> ?nx ! j" by blast
  then show ?case
  proof cases
    case 1
    show ?thesis
    proof (cases "?u > v")
      case True
      then show ?thesis unfolding step nx using 1 by (intro disjI2 exI[of _ 0]) auto
    next
      case False
      then show ?thesis unfolding step nx using 1 by (intro disjI1) auto
    qed
  next
    case 2
    then show ?thesis unfolding step nx by (intro disjI2 exI[of _ "Suc j"]) auto
  qed
qed simp

text \<open>The state and the picks after \<open>k\<close> picks from the same candidates.\<close>

fun wrr_after :: "nat \<Rightarrow> endpointNode list \<Rightarrow> wrrState option \<times> nat list" where
  "wrr_after 0 cs = (None, [])"
| "wrr_after (Suc k) cs =
     (let (st, ps) = wrr_after k cs; (st, i) = WRR_Pick st cs in (st, ps @ [i]))"

definition wrr_inv :: "endpointNode list \<Rightarrow> nat list \<Rightarrow> wrrState \<Rightarrow> bool" where
  "wrr_inv cs ps st \<longleftrightarrow>
     wrr_addrs st = map Addr cs \<and> wrr_weights st = map Weight cs \<and>
     wrr_total st = sum_list (map Weight cs) \<and> length (wrr_current st) = length cs \<and>
     sum_list (wrr_current st) = 0 \<and>
     (\<forall>i < length cs.
        wrr_current st ! i = int (length ps) * Weight (cs ! i) - wrr_total st * int (count_list ps i) \<and>
        1 - wrr_total st \<le> wrr_current st ! i)"

lemma total_weight_pos: "cs \<noteq> [] \<Longrightarrow> 1 \<le> sum_list (map Weight cs)"
proof -
  assume "cs \<noteq> []"
  then obtain c cs' where cs: "cs = c # cs'" by (cases cs) auto
  have "0 \<le> sum_list (map Weight cs')" by (intro sum_list_nonneg) (auto simp: Weight_def)
  then show ?thesis using Weight_pos[of c] by (simp add: cs)
qed

lemma sum_list_map2_plus:
  "length xs = length ys \<Longrightarrow> sum_list (map2 (+) xs ys) = sum_list xs + (sum_list ys :: int)"
  by (induction xs ys rule: list_induct2) simp_all

lemma sum_list_pos_ex: "0 < sum_list xs \<Longrightarrow> \<exists>x \<in> set xs. (1 :: int) \<le> x"
proof (rule ccontr)
  assume "0 < sum_list xs" "\<not> (\<exists>x \<in> set xs. 1 \<le> x)"
  then have "\<forall>x \<in> set xs. x \<le> 0" by force
  then have "sum_list xs \<le> 0" by (intro sum_list_nonpos) auto
  then show False using \<open>0 < sum_list xs\<close> by simp
qed

lemma index_byte_distinct: "distinct xs \<Longrightarrow> i < length xs \<Longrightarrow> index_byte (xs ! i) xs = Some i"
  unfolding index_byte_Some_iff by (auto simp: in_set_conv_nth nth_eq_iff_index_eq)

lemma wrr_inv_init: "cs \<noteq> [] \<Longrightarrow> wrr_inv cs [] (buildWRRState cs)"
  using total_weight_pos[of cs]
  by (auto simp: wrr_inv_def buildWRRState_def sum_list_replicate)

lemma wrr_inv_update:
  assumes "wrr_addrs st = map Addr cs" "wrr_weights st = map Weight cs" "wrr_total st = sum_list (map Weight cs)"
    and "length new = length cs" "sum_list new = 0"
    and "\<And>i. i < length cs \<Longrightarrow>
        new ! i = int (length ps) * Weight (cs ! i) - sum_list (map Weight cs) * int (count_list ps i) \<and>
        1 - sum_list (map Weight cs) \<le> new ! i"
  shows "wrr_inv cs ps (st\<lparr>wrr_current := new\<rparr>)"
  unfolding wrr_inv_def using assms(1-5) by (auto dest: assms(6))

lemma wrr_inv_matches: "wrr_inv cs ps st \<Longrightarrow> wrrMatches st cs"
  by (auto simp: wrr_inv_def wrrMatches_def list_all_iff)

lemma wrr_inv_step:
  assumes inv: "wrr_inv cs ps st" and cs: "2 \<le> length cs" "distinct (map Addr cs)"
    and state: "state = Some st \<or> state = None \<and> st = buildWRRState cs"
  shows "\<exists>st' i. WRR_Pick state cs = (Some st', i) \<and> i < length cs \<and> wrr_inv cs (ps @ [i]) st'"
proof -
  let ?T = "sum_list (map Weight cs)" and ?cur = "wrr_current st" and ?ws = "map Weight cs"
  let ?nx = "map2 (+) ?cur ?ws" and ?j = "snd (wrr_scan ?cur ?ws 0 0 (- (2 ^ 30)))"
  have st: "wrr_addrs st = map Addr cs" "wrr_weights st = ?ws" "wrr_total st = ?T" "length ?cur = length cs"
      "sum_list ?cur = 0"
    and cur: "\<And>i. i < length cs \<Longrightarrow>
        ?cur ! i = int (length ps) * Weight (cs ! i) - ?T * int (count_list ps i) \<and> 1 - ?T \<le> ?cur ! i"
    using inv by (auto simp: wrr_inv_def)
  have T: "1 \<le> ?T" using cs(1) by (intro total_weight_pos) auto
  have sum: "sum_list ?nx = ?T" using st(4,5) by (simp add: sum_list_map2_plus)
  then obtain y where y: "y \<in> set ?nx" "1 \<le> y" using sum_list_pos_ex[of ?nx] T by auto
  from wrr_scan_best[of ?cur ?ws 0 0 "- (2 ^ 30)"] y st(4)
  have j: "?j < length cs" "1 \<le> ?nx ! ?j" by fastforce+
  have nx: "?nx ! i = ?cur ! i + Weight (cs ! i)" if "i < length cs" for i using that st(4) by simp
  let ?new = "?nx[?j := ?nx ! ?j - ?T]"
  have pick: "WRR_Pick state cs = (Some (st\<lparr>wrr_current := ?new\<rparr>), ?j)"
    using cs(1) state wrr_inv_matches[OF inv] index_byte_distinct[OF cs(2)] j(1) wrr_scan_values[of ?cur ?ws] st
    by (auto simp: WRR_Pick_def Let_def split_def)
  have "sum_list ?new = 0" using sum_list_update_nat[of ?j ?nx "?nx ! ?j - ?T"] j(1) sum st(4) by simp
  moreover have "?new ! i = int (length (ps @ [?j])) * Weight (cs ! i) - ?T * int (count_list (ps @ [?j]) i) \<and>
      1 - ?T \<le> ?new ! i" if i: "i < length cs" for i
  proof (cases "i = ?j")
    case True
    then show ?thesis using cur[OF i] nx[OF i] j st(4) by (simp add: algebra_simps)
  next
    case False
    then show ?thesis using cur[OF i] nx[OF i] Weight_pos[of "cs ! i"] by (simp add: algebra_simps)
  qed
  moreover have "length ?new = length cs" using st(4) by simp
  ultimately have "wrr_inv cs (ps @ [?j]) (st\<lparr>wrr_current := ?new\<rparr>)"
    by (intro wrr_inv_update[OF st(1-3)])
  then show ?thesis using pick j(1) by blast
qed

lemma wrr_after_inv:
  assumes "2 \<le> length cs" "distinct (map Addr cs)"
  shows "\<exists>st ps. length ps = k \<and> wrr_inv cs ps st \<and> snd (wrr_after k cs) = ps \<and>
           (fst (wrr_after k cs) = Some st \<or> fst (wrr_after k cs) = None \<and> st = buildWRRState cs)"
proof (induction k)
  case 0
  have "cs \<noteq> []" using assms(1) by auto
  then show ?case using wrr_inv_init[of cs] by auto
next
  case (Suc k)
  then obtain st ps where IH: "length ps = k" "wrr_inv cs ps st" "snd (wrr_after k cs) = ps"
      "fst (wrr_after k cs) = Some st \<or> fst (wrr_after k cs) = None \<and> st = buildWRRState cs" by blast
  obtain st' i where "WRR_Pick (fst (wrr_after k cs)) cs = (Some st', i)" "wrr_inv cs (ps @ [i]) st'"
    using wrr_inv_step[OF IH(2) assms IH(4)] by blast
  then show ?case using IH(1,3) by (auto simp: split_def)
qed

section \<open>Properties\<close>

text \<open>
  C8: The smooth weighted round robin is fair: over as many picks as the weights sum up to,
  every candidate is picked exactly as often as its weight says.
\<close>

theorem wrr_fair:
  assumes "2 \<le> length cs" "distinct (map Addr cs)" "i < length cs"
  shows "int (count_list (snd (wrr_after (nat (sum_list (map Weight cs))) cs)) i) = Weight (cs ! i)"
proof -
  let ?T = "sum_list (map Weight cs)"
  have T: "1 \<le> ?T" using assms(1) by (intro total_weight_pos) auto
  obtain st ps where ps: "length ps = nat ?T" "wrr_inv cs ps st" "snd (wrr_after (nat ?T) cs) = ps"
    using wrr_after_inv[OF assms(1,2)] by blast
  have cur: "wrr_current st ! k = ?T * (Weight (cs ! k) - int (count_list ps k))" "1 - ?T \<le> wrr_current st ! k"
    if "k < length cs" for k
    using ps(1,2) that T by (auto simp: wrr_inv_def right_diff_distrib)
  have nonneg: "0 \<le> wrr_current st ! k" if "k < length cs" for k
  proof (rule ccontr)
    assume "\<not> 0 \<le> wrr_current st ! k"
    then have "Weight (cs ! k) - int (count_list ps k) \<le> - 1" using cur(1)[OF that] T by (simp add: zero_le_mult_iff)
    then have "?T * (Weight (cs ! k) - int (count_list ps k)) \<le> ?T * (- 1)" using T by (intro mult_left_mono) auto
    then show False using cur[OF that] by linarith
  qed
  have "\<forall>x \<in> set (wrr_current st). 0 \<le> x"
    using nonneg ps(2) by (auto simp: wrr_inv_def in_set_conv_nth)
  moreover have "sum_list (wrr_current st) = 0" using ps(2) by (simp add: wrr_inv_def)
  ultimately have "\<forall>x \<in> set (wrr_current st). x = 0" by (simp add: sum_list_nonneg_eq_0_iff)
  moreover have "length (wrr_current st) = length cs" using ps(2) by (simp add: wrr_inv_def)
  ultimately have "wrr_current st ! i = 0" using assms(3) by (metis nth_mem)
  then show ?thesis using cur(1)[OF assms(3)] T by (simp add: ps(3))
qed

definition demo_nodes :: "endpointNode list" where
  "demo_nodes = map new_endpointNode
     [\<lparr>ep_Addr = ''a:1'', ep_Weight = 5\<rparr>, \<lparr>ep_Addr = ''b:1'', ep_Weight = 1\<rparr>, \<lparr>ep_Addr = ''c:1'', ep_Weight = 1\<rparr>]"

theorem wrr_fair_witness:
  "count_list (snd (wrr_after 7 demo_nodes)) 0 = 5"
proof -
  have "int (count_list (snd (wrr_after (nat (sum_list (map Weight demo_nodes))) demo_nodes)) 0) = Weight (demo_nodes ! 0)"
    by (rule wrr_fair) (simp_all add: demo_nodes_def new_endpointNode_def Addr_def)
  moreover have "sum_list (map Weight demo_nodes) = 7" "Weight (demo_nodes ! 0) = 5"
    by (simp_all add: demo_nodes_def new_endpointNode_def Weight_def)
  ultimately show ?thesis by simp
qed

text \<open>
  The least active strategy picks a candidate with the fewest requests in flight,
  whatever the random numbers that break ties.
\<close>

lemma least_active_minimal:
  assumes "cs \<noteq> []" "k < length cs"
  shows "Inflight (cs ! LeastActive_Pick r cs) \<le> Inflight (cs ! k)"
proof (cases "length cs = 1")
  case True
  then show ?thesis using assms by (simp add: LeastActive_Pick_def)
next
  case False
  obtain c cs' where cs: "cs = c # cs'" using assms(1) by (cases cs) auto
  have "\<forall>k < length cs. Inflight (cs ! least_active_loop r cs' 1 0 (Inflight c) 1) \<le> Inflight (cs ! k)"
    by (rule least_active_loop_min) (simp_all add: cs)
  then show ?thesis using False assms(2) by (simp add: LeastActive_Pick_def cs)
qed

text \<open>
  Whatever the strategy, the client picks one of its nodes, and a healthy one whenever
  there is one; it reports that it has no endpoint only when it has no node.
\<close>

lemma pickNode_prefers_healthy:
  "case snd (pickNode (Pick r) now nodes b) of
     None \<Rightarrow> nodes = []
   | Some i \<Rightarrow> i < length nodes \<and> (list_ex (Healthy now) nodes = Healthy now (nodes ! i))"
proof (cases "nodes = []")
  case True
  then show ?thesis by (simp add: pickNode_def)
next
  case False
  obtain i where i: "snd (pickNode (Pick r) now nodes b) = Some i" "i < length nodes"
      "(\<exists>n \<in> set nodes. Healthy now n) \<Longrightarrow> Healthy now (nodes ! i)"
    using bal.pickNode_cases[OF False] by blast
  have "list_ex (Healthy now) nodes = Healthy now (nodes ! i)"
    using i(2,3) nth_mem[OF i(2)] by (auto simp: list_ex_iff)
  then show ?thesis using i(1,2) by simp
qed

end
