(* ===== verification/NetStream.thy ===== *)
theory NetStream
  imports Frame
begin

text \<open>
  One multiplexed connection of the RPC client: \<^verbatim>\<open>micro/net/stream.go\<close>. Many calls share a
  stream; each registers a channel under its request id, writes its frame and waits, while
  the read loop hands every response to the channel registered for its id. The functions
  are the critical sections of the code; the step relation below interleaves them. Channels
  hold at most one result and are objects of their own. Deadlines of the connection are not
  modelled, and the outcome of a write is an argument.
\<close>

section \<open>State\<close>

datatype stream_error = ErrConnClosed | ErrDuplicateID | ErrUnexpectedPong | ErrCtx | ErrIO string
  | ErrRemoteCall remote_error

datatype rpcResult = RFrame Frame | RErr stream_error

record stream =
  st_pending :: "u64 \<rightharpoonup> nat"
  st_chans :: "nat \<rightharpoonup> rpcResult option"   \<comment> \<open>channels created so far, with their buffer\<close>
  st_nextChan :: nat
  st_closed :: bool
  st_closeErr :: "stream_error option"
  st_inflight :: "32 word"
  st_lastActive :: int
  st_createdAt :: int
  st_written :: "Frame list"

definition newStream :: "int \<Rightarrow> stream" where
  "newStream now = \<lparr>st_pending = Map.empty, st_chans = Map.empty, st_nextChan = 0, st_closed = False,
     st_closeErr = None, st_inflight = 0, st_lastActive = now, st_createdAt = now, st_written = []\<rparr>"

definition touch :: "int \<Rightarrow> stream \<Rightarrow> stream" where
  "touch now s = s\<lparr>st_lastActive := now\<rparr>"

definition Alive :: "stream \<Rightarrow> bool" where
  "Alive s = (\<not> st_closed s)"

text \<open>\<^verbatim>\<open>select { case ch <- res: default: }\<close> on a channel with a buffer of one.\<close>

definition try_send :: "nat \<Rightarrow> rpcResult \<Rightarrow> stream \<Rightarrow> stream" where
  "try_send ch res s =
     (if st_chans s ch = Some None then s\<lparr>st_chans := (st_chans s)(ch \<mapsto> Some res)\<rparr> else s)"

definition dispatch :: "u64 \<Rightarrow> rpcResult \<Rightarrow> stream \<Rightarrow> stream" where
  "dispatch rid res s =
     (case st_pending s rid of
        None \<Rightarrow> s
      | Some ch \<Rightarrow> try_send ch res (s\<lparr>st_pending := (st_pending s)(rid := None)\<rparr>))"

text \<open>\<open>order\<close> is the order in which Go ranges over the pending calls.\<close>

definition failAll :: "u64 list \<Rightarrow> stream_error option \<Rightarrow> stream \<Rightarrow> stream" where
  "failAll order err s =
     (let err = (case err of None \<Rightarrow> ErrConnClosed | Some e \<Rightarrow> e)
      in if st_closed s then s
         else
           (let pending = st_pending s;
                s = s\<lparr>st_closed := True, st_closeErr := Some err, st_pending := Map.empty\<rparr>
            in fold (\<lambda>rid s. case pending rid of None \<Rightarrow> s | Some ch \<Rightarrow> try_send ch (RErr err) s) order s))"

definition register :: "u64 \<Rightarrow> stream \<Rightarrow> stream_error + nat \<times> stream" where
  "register rid s =
     (if st_closed s then Inl (case st_closeErr s of Some e \<Rightarrow> e | None \<Rightarrow> ErrConnClosed)
      else if st_pending s rid \<noteq> None then Inl ErrDuplicateID
      else
        (let ch = st_nextChan s
         in Inr (ch, s\<lparr>st_nextChan := ch + 1, st_chans := (st_chans s)(ch \<mapsto> None),
                       st_pending := (st_pending s)(rid \<mapsto> ch)\<rparr>)))"

definition unregister :: "u64 \<Rightarrow> stream \<Rightarrow> stream" where
  "unregister rid s = s\<lparr>st_pending := (st_pending s)(rid := None)\<rparr>"

definition stream_writeFrame :: "Frame \<Rightarrow> stream_error option \<Rightarrow> stream \<Rightarrow> stream" where
  "stream_writeFrame f werr s = (if werr = None then s\<lparr>st_written := st_written s @ [f]\<rparr> else s)"

text \<open>The body of the read loop for one frame.\<close>

definition readLoop_frame :: "int \<Rightarrow> Frame \<Rightarrow> stream_error option \<Rightarrow> stream \<Rightarrow> stream" where
  "readLoop_frame now f werr s =
     (let s = touch now s
      in if MsgType f = MessageTypePong \<or> MsgType f = MessageTypeHeartbeat then
           (if MsgType f = MessageTypePong \<or> RequestID f \<noteq> 0
            then dispatch (RequestID f) (RFrame f) s else s)
         else if MsgType f = MessageTypeResponse then dispatch (RequestID f) (RFrame f) s
         else if MsgType f = MessageTypePing then
           stream_writeFrame (NewFrame MessageTypePong (RequestID f) [] []) werr s
         else s)"

record Request =
  rq_RequestID :: u64
  rq_Header :: bytes
  rq_Body :: bytes
  rq_OneWay :: bool

record Response =
  rp_RequestID :: u64
  rp_Header :: bytes
  rp_Body :: bytes
  rp_Error :: "string option"   \<comment> \<open>the message of the error\<close>

text \<open>
  A call between its critical sections: its frame is about to be written, with the channel
  it registered unless it is one-way; or it waits; or it has returned.
\<close>

datatype call_state =
    Writing Request "nat option"
  | Waiting u64 nat
  | Returned "stream_error + Response"

definition request_frame :: "Request \<Rightarrow> Frame" where
  "request_frame req =
     (let f = NewFrame MessageTypeRequest (rq_RequestID req) (rq_Header req) (rq_Body req)
      in if rq_OneWay req then f\<lparr>Flags := Flags f OR FlagOneWay\<rparr> else f)"

text \<open>\<^verbatim>\<open>Call\<close> up to the write; \<open>ctxErr\<close> is whether the context of the call has ended.\<close>

definition inflight_done :: "stream \<Rightarrow> stream" where
  "inflight_done s = s\<lparr>st_inflight := st_inflight s - 1\<rparr>"

definition Call_begin :: "int \<Rightarrow> bool \<Rightarrow> Request \<Rightarrow> stream \<Rightarrow> stream \<times> call_state" where
  "Call_begin now ctxErr req s =
     (if ctxErr then (s, Returned (Inl ErrCtx))
      else if \<not> Alive s then (s, Returned (Inl ErrConnClosed))
      else
        (let s = touch now (s\<lparr>st_inflight := st_inflight s + 1\<rparr>)
         in if rq_OneWay req then (s, Writing req None)
            else case register (rq_RequestID req) s of
                Inl e \<Rightarrow> (inflight_done s, Returned (Inl e))
              | Inr (ch, s) \<Rightarrow> (s, Writing req (Some ch))))"

text \<open>The deferred calls of a call that registered \<open>rid\<close>, and of one that did not.\<close>

definition Call_end :: "u64 \<Rightarrow> stream \<Rightarrow> stream" where
  "Call_end rid s = inflight_done (unregister rid s)"

text \<open>
  The write, with its outcome \<open>werr\<close>, and what follows it up to the \<^verbatim>\<open>select\<close>; a failed write
  closes the stream unless the context of the call has ended.
\<close>

definition Call_write ::
  "u64 list \<Rightarrow> bool \<Rightarrow> stream_error option \<Rightarrow> Request \<Rightarrow> nat option \<Rightarrow> stream \<Rightarrow> stream \<times> call_state" where
  "Call_write order ctxErr werr req ch s =
     (let s = stream_writeFrame (request_frame req) werr s;
          rid = rq_RequestID req;
          ended = (if ch = None then inflight_done else Call_end rid)
      in case werr of
           Some e \<Rightarrow>
             if ctxErr then (ended s, Returned (Inl ErrCtx))
             else (ended (failAll order (Some e) s), Returned (Inl e))
         | None \<Rightarrow>
             (case ch of
                None \<Rightarrow> (ended s, Returned (Inr \<lparr>rp_RequestID = rid, rp_Header = [], rp_Body = [], rp_Error = None\<rparr>))
              | Some ch \<Rightarrow> (s, Waiting rid ch)))"

text \<open>What the \<^verbatim>\<open>select\<close> makes of a result.\<close>

definition Call_result :: "bool \<Rightarrow> rpcResult \<Rightarrow> stream_error + Response" where
  "Call_result ctxErr res =
     (case res of
        RErr e \<Rightarrow> if ctxErr then Inl ErrCtx else Inl e
      | RFrame f \<Rightarrow>
          if IsError f then Inl (ErrRemoteCall (remoteErrorFromFrame f))
          else Inr \<lparr>rp_RequestID = RequestID f, rp_Header = Header f, rp_Body = Body f, rp_Error = None\<rparr>)"

definition Close :: "u64 list \<Rightarrow> stream \<Rightarrow> stream" where
  "Close order s = failAll order (Some ErrConnClosed) s"

text \<open>\<^verbatim>\<open>Ping\<close> up to its \<^verbatim>\<open>select\<close>, and what it makes of the result.\<close>

definition Ping_begin ::
  "u64 list \<Rightarrow> bool \<Rightarrow> stream_error option \<Rightarrow> u64 \<Rightarrow> stream \<Rightarrow> stream \<times> (stream_error + nat)" where
  "Ping_begin order ctxErr werr rid s =
     (if ctxErr then (s, Inl ErrCtx)
      else case register rid s of
          Inl e \<Rightarrow> (s, Inl e)
        | Inr (ch, s) \<Rightarrow>
            (let s = stream_writeFrame (NewFrame MessageTypePing rid [] []) werr s
             in case werr of
                  Some e \<Rightarrow> (unregister rid (failAll order (Some e) s), Inl e)
                | None \<Rightarrow> (s, Inr ch)))"

definition Ping_end :: "int \<Rightarrow> u64 \<Rightarrow> rpcResult option \<Rightarrow> stream \<Rightarrow> stream \<times> stream_error option" where
  "Ping_end now rid res s =
     (case res of
        None \<Rightarrow> (unregister rid s, Some ErrCtx)
      | Some (RErr e) \<Rightarrow> (unregister rid s, Some e)
      | Some (RFrame f) \<Rightarrow>
          if MsgType f \<noteq> MessageTypePong then (unregister rid s, Some ErrUnexpectedPong)
          else (unregister rid (touch now s), None))"

definition writeDeadline :: "int \<Rightarrow> int option \<Rightarrow> int \<Rightarrow> int option" where
  "writeDeadline now ctxDeadline fallback =
     (let deadline = (if fallback > 0 then Some (now + fallback) else None)
      in case ctxDeadline of
           None \<Rightarrow> deadline
         | Some d \<Rightarrow> (case deadline of None \<Rightarrow> Some d | Some x \<Rightarrow> if d < x then Some d else deadline))"

section \<open>Interleaved calls\<close>

text \<open>
  Calls are numbered. A call begins with a request id no waiting call has (the client draws
  ids from a counter); the read loop may receive any frame; the connection may fail; a
  waiting call takes its result, or its context ends.
\<close>

record sys =
  sys_stream :: stream
  sys_calls :: "nat \<rightharpoonup> call_state"

text \<open>The request id and the channel of a call that has registered and not returned.\<close>

fun call_slot :: "call_state option \<Rightarrow> (u64 \<times> nat) option" where
  "call_slot (Some (Writing req (Some ch))) = Some (rq_RequestID req, ch)"
| "call_slot (Some (Waiting rid ch)) = Some (rid, ch)"
| "call_slot _ = None"

definition slots :: "sys \<Rightarrow> nat \<Rightarrow> (u64 \<times> nat) option" where
  "slots y c = call_slot (sys_calls y c)"

definition rid_free :: "u64 \<Rightarrow> sys \<Rightarrow> bool" where
  "rid_free rid y \<longleftrightarrow> (\<forall>c ch. slots y c \<noteq> Some (rid, ch))"

definition enumerates :: "u64 list \<Rightarrow> stream \<Rightarrow> bool" where
  "enumerates order s \<longleftrightarrow> set order = dom (st_pending s)"

inductive stream_step :: "sys \<Rightarrow> sys \<Rightarrow> bool" where
  begin_call: "\<lbrakk>sys_calls y c = None; rid_free (rq_RequestID req) y;
      Call_begin now ctxErr req (sys_stream y) = (s', st)\<rbrakk> \<Longrightarrow>
      stream_step y (y\<lparr>sys_stream := s', sys_calls := (sys_calls y)(c \<mapsto> st)\<rparr>)"
| write_frame: "\<lbrakk>sys_calls y c = Some (Writing req ch); enumerates order (sys_stream y);
      Call_write order ctxErr werr req ch (sys_stream y) = (s', st)\<rbrakk> \<Longrightarrow>
      stream_step y (y\<lparr>sys_stream := s', sys_calls := (sys_calls y)(c \<mapsto> st)\<rparr>)"
| receive: "stream_step y (y\<lparr>sys_stream := readLoop_frame now f werr (sys_stream y)\<rparr>)"
| fail: "\<lbrakk>enumerates order (sys_stream y)\<rbrakk> \<Longrightarrow>
      stream_step y (y\<lparr>sys_stream := failAll order err (sys_stream y)\<rparr>)"
| take_result: "\<lbrakk>sys_calls y c = Some (Waiting rid ch); st_chans (sys_stream y) ch = Some (Some res)\<rbrakk> \<Longrightarrow>
      stream_step y (y\<lparr>sys_stream := Call_end rid (sys_stream y),
                       sys_calls := (sys_calls y)(c \<mapsto> Returned (Call_result ctxErr res))\<rparr>)"
| cancel: "\<lbrakk>sys_calls y c = Some (Waiting rid ch)\<rbrakk> \<Longrightarrow>
      stream_step y (y\<lparr>sys_stream := Call_end rid (sys_stream y),
                       sys_calls := (sys_calls y)(c \<mapsto> Returned (Inl ErrCtx))\<rparr>)"

definition init_sys :: "int \<Rightarrow> sys" where
  "init_sys now = \<lparr>sys_stream = newStream now, sys_calls = Map.empty\<rparr>"

inductive reachable :: "sys \<Rightarrow> bool" where
  reach_init: "reachable (init_sys now)"
| reach_step: "reachable y \<Longrightarrow> stream_step y y' \<Longrightarrow> reachable y'"

section \<open>The invariant\<close>

text \<open>
  Over the parts of the state that matter: a registered channel is empty and belongs to a
  call; a call that is not registered has its result, and the result carries its id; two
  calls share neither an id nor a channel; a closed stream has nothing registered.
\<close>

definition core_inv ::
  "(u64 \<rightharpoonup> nat) \<Rightarrow> (nat \<rightharpoonup> rpcResult option) \<Rightarrow> nat \<Rightarrow> bool \<Rightarrow> (nat \<Rightarrow> (u64 \<times> nat) option) \<Rightarrow> bool" where
  "core_inv pend chans nxt closed sl \<longleftrightarrow>
     (\<forall>ch. chans ch \<noteq> None \<longrightarrow> ch < nxt) \<and>
     (closed \<longrightarrow> pend = Map.empty) \<and>
     (\<forall>rid ch. pend rid = Some ch \<longrightarrow> (\<exists>c. sl c = Some (rid, ch))) \<and>
     (\<forall>c c' rid ch rid' ch'. sl c = Some (rid, ch) \<and> sl c' = Some (rid', ch') \<and> c \<noteq> c' \<longrightarrow>
        rid \<noteq> rid' \<and> ch \<noteq> ch') \<and>
     (\<forall>c rid ch. sl c = Some (rid, ch) \<longrightarrow>
        pend rid = Some ch \<and> chans ch = Some None \<or>
        pend rid = None \<and> (\<exists>res. chans ch = Some (Some res) \<and> (\<forall>f. res = RFrame f \<longrightarrow> RequestID f = rid)))"

definition stream_inv :: "sys \<Rightarrow> bool" where
  "stream_inv y \<longleftrightarrow>
     core_inv (st_pending (sys_stream y)) (st_chans (sys_stream y)) (st_nextChan (sys_stream y))
       (st_closed (sys_stream y)) (slots y)"

lemma core_invI:
  assumes "\<And>ch. chans ch \<noteq> None \<Longrightarrow> ch < nxt" "closed \<Longrightarrow> pend = Map.empty"
    "\<And>rid ch. pend rid = Some ch \<Longrightarrow> \<exists>c. sl c = Some (rid, ch)"
    "\<And>c c' rid ch rid' ch'. \<lbrakk>sl c = Some (rid, ch); sl c' = Some (rid', ch'); c \<noteq> c'\<rbrakk> \<Longrightarrow> rid \<noteq> rid' \<and> ch \<noteq> ch'"
    "\<And>c rid ch. sl c = Some (rid, ch) \<Longrightarrow>
        pend rid = Some ch \<and> chans ch = Some None \<or>
        pend rid = None \<and> (\<exists>res. chans ch = Some (Some res) \<and> (\<forall>f. res = RFrame f \<longrightarrow> RequestID f = rid))"
  shows "core_inv pend chans nxt closed sl"
  unfolding core_inv_def using assms by blast

lemma core_invD:
  assumes "core_inv pend chans nxt closed sl"
  shows "chans ch \<noteq> None \<Longrightarrow> ch < nxt" "closed \<Longrightarrow> pend = Map.empty"
    "pend rid = Some ch \<Longrightarrow> \<exists>c. sl c = Some (rid, ch)"
    "\<lbrakk>sl c = Some (rid, ch); sl c' = Some (rid', ch'); c \<noteq> c'\<rbrakk> \<Longrightarrow> rid \<noteq> rid' \<and> ch \<noteq> ch'"
    "sl c = Some (rid, ch) \<Longrightarrow>
        pend rid = Some ch \<and> chans ch = Some None \<or>
        pend rid = None \<and> (\<exists>res. chans ch = Some (Some res) \<and> (\<forall>f. res = RFrame f \<longrightarrow> RequestID f = rid))"
  using assms unfolding core_inv_def by blast+

lemma core_init: "core_inv Map.empty Map.empty 0 False (\<lambda>_. None)"
  by (rule core_invI) auto

lemma core_pending:
  assumes "core_inv pend chans nxt closed sl" "pend rid = Some ch"
  shows "chans ch = Some None" "\<not> closed"
  using core_invD(3)[OF assms] core_invD(5)[OF assms(1)] core_invD(2)[OF assms(1)] assms(2) by force+

lemma core_pending_inj:
  assumes "core_inv pend chans nxt closed sl" "pend rid = Some ch" "pend rid' = Some ch"
  shows "rid = rid'"
proof -
  obtain c c' where "sl c = Some (rid, ch)" "sl c' = Some (rid', ch)"
    using core_invD(3)[OF assms(1,2)] core_invD(3)[OF assms(1,3)] by blast
  then show ?thesis using core_invD(4)[OF assms(1)] by (metis option.inject prod.inject)
qed

lemma core_register:
  assumes inv: "core_inv pend chans nxt False sl" and c: "sl c = None" "\<forall>d ch. sl d \<noteq> Some (rid, ch)"
  shows "core_inv (pend(rid \<mapsto> nxt)) (chans(nxt \<mapsto> None)) (nxt + 1) False (sl(c \<mapsto> (rid, nxt)))"
proof (rule core_invI)
  have old: "ch \<noteq> nxt" if "sl d = Some (r, ch)" for d r ch
    using core_invD(5)[OF inv that] core_invD(1)[OF inv, of ch] by auto
  show "ch < nxt + 1" if "(chans(nxt \<mapsto> None)) ch \<noteq> None" for ch
    using that core_invD(1)[OF inv, of ch] by (auto split: if_splits)
  show "\<exists>d. (sl(c \<mapsto> (rid, nxt))) d = Some (r, ch)" if p: "(pend(rid \<mapsto> nxt)) r = Some ch" for r ch
  proof (cases "r = rid")
    case True
    then show ?thesis using p by auto
  next
    case False
    then obtain d where "sl d = Some (r, ch)" using p core_invD(3)[OF inv, of r ch] by auto
    then show ?thesis using c(1) by (intro exI[of _ d]) auto
  qed
  show "r \<noteq> r' \<and> ch \<noteq> ch'"
    if "(sl(c \<mapsto> (rid, nxt))) d = Some (r, ch)" "(sl(c \<mapsto> (rid, nxt))) d' = Some (r', ch')" "d \<noteq> d'" for d d' r ch r' ch'
    using that core_invD(4)[OF inv, of d r ch d' r' ch'] c(2) old[of d r ch] old[of d' r' ch']
    by (auto split: if_splits)
  show "(pend(rid \<mapsto> nxt)) r = Some ch \<and> (chans(nxt \<mapsto> None)) ch = Some None \<or>
      (pend(rid \<mapsto> nxt)) r = None \<and>
      (\<exists>res. (chans(nxt \<mapsto> None)) ch = Some (Some res) \<and> (\<forall>f. res = RFrame f \<longrightarrow> RequestID f = r))"
    if s: "(sl(c \<mapsto> (rid, nxt))) d = Some (r, ch)" for d r ch
  proof (cases "d = c")
    case True
    then show ?thesis using s by auto
  next
    case False
    then have d: "sl d = Some (r, ch)" using s by simp
    then have "r \<noteq> rid" "ch \<noteq> nxt" using c(2) old by auto
    then show ?thesis using core_invD(5)[OF inv d] by auto
  qed
qed simp

lemma core_deliver:
  assumes inv: "core_inv pend chans nxt closed sl" and p: "pend rid = Some ch"
    and res: "\<forall>f. res = RFrame f \<longrightarrow> RequestID f = rid"
  shows "core_inv (pend(rid := None)) (chans(ch \<mapsto> Some res)) nxt closed sl"
proof (rule core_invI)
  show "k < nxt" if "(chans(ch \<mapsto> Some res)) k \<noteq> None" for k
    using that core_invD(1)[OF inv, of k] core_pending[OF inv p] by (auto split: if_splits)
  show "pend(rid := None) = Map.empty" if closed using core_pending(2)[OF inv p] that by simp
  show "\<exists>c. sl c = Some (r, k)" if "(pend(rid := None)) r = Some k" for r k
    using that core_invD(3)[OF inv, of r k] by (auto split: if_splits)
  show "(pend(rid := None)) r = Some k \<and> (chans(ch \<mapsto> Some res)) k = Some None \<or>
      (pend(rid := None)) r = None \<and>
      (\<exists>res'. (chans(ch \<mapsto> Some res)) k = Some (Some res') \<and> (\<forall>f. res' = RFrame f \<longrightarrow> RequestID f = r))"
    if s: "sl c = Some (r, k)" for c r k
  proof (cases "r = rid")
    case True
    then have "k = ch" using core_invD(5)[OF inv s] p by auto
    then show ?thesis using True res by auto
  next
    case False
    obtain d where d: "sl d = Some (rid, ch)" using core_invD(3)[OF inv p] by blast
    then have "c \<noteq> d" using s False by auto
    then have "k \<noteq> ch" using core_invD(4)[OF inv s d] by simp
    then show ?thesis using False core_invD(5)[OF inv s] by auto
  qed
qed (rule core_invD(4)[OF inv])

lemma core_fail:
  assumes inv: "core_inv pend chans nxt closed sl"
  shows "core_inv Map.empty (\<lambda>ch. if ch \<in> ran pend then Some (Some (RErr e)) else chans ch) nxt True sl"
proof (rule core_invI)
  show "ch < nxt" if "(if ch \<in> ran pend then Some (Some (RErr e)) else chans ch) \<noteq> None" for ch
    using that core_invD(1)[OF inv, of ch] core_pending(1)[OF inv] by (auto simp: ran_def split: if_splits)
  show "Map.empty r = Some k \<and> (if k \<in> ran pend then Some (Some (RErr e)) else chans k) = Some None \<or>
      Map.empty r = None \<and> (\<exists>res. (if k \<in> ran pend then Some (Some (RErr e)) else chans k) = Some (Some res) \<and>
        (\<forall>f. res = RFrame f \<longrightarrow> RequestID f = r))" if s: "sl c = Some (r, k)" for c r k
    using core_invD(5)[OF inv s] by (auto simp: ran_def)
qed (use core_invD(4)[OF inv] in auto)

lemma core_end:
  assumes inv: "core_inv pend chans nxt closed sl" and c: "sl c = Some (rid, ch)"
  shows "core_inv (pend(rid := None)) chans nxt closed (sl(c := None))"
proof (rule core_invI)
  show "pend(rid := None) = Map.empty" if closed using core_invD(2)[OF inv that] by simp
  show "\<exists>d. (sl(c := None)) d = Some (r, k)" if p: "(pend(rid := None)) r = Some k" for r k
  proof -
    have "r \<noteq> rid" "pend r = Some k" using p by (auto split: if_splits)
    then obtain d where "sl d = Some (r, k)" using core_invD(3)[OF inv] by blast
    then show ?thesis using c \<open>r \<noteq> rid\<close> by (intro exI[of _ d]) auto
  qed
  show "r \<noteq> r' \<and> k \<noteq> k'" if "(sl(c := None)) d = Some (r, k)" "(sl(c := None)) d' = Some (r', k')" "d \<noteq> d'" for d d' r k r' k'
    using that core_invD(4)[OF inv, of d r k d' r' k'] by (auto split: if_splits)
  show "(pend(rid := None)) r = Some k \<and> chans k = Some None \<or>
      (pend(rid := None)) r = None \<and> (\<exists>res. chans k = Some (Some res) \<and> (\<forall>f. res = RFrame f \<longrightarrow> RequestID f = r))"
    if s: "(sl(c := None)) d = Some (r, k)" for d r k
  proof -
    have d: "d \<noteq> c" "sl d = Some (r, k)" using s by (auto split: if_splits)
    then have "r \<noteq> rid" using core_invD(4)[OF inv d(2) c] by simp
    then show ?thesis using core_invD(5)[OF inv d(2)] by simp
  qed
qed (rule core_invD(1)[OF inv])

section \<open>Every step keeps the invariant\<close>

lemma try_send_pending [simp]:
  "st_pending (try_send ch res s) = st_pending s" "st_closed (try_send ch res s) = st_closed s"
  "st_nextChan (try_send ch res s) = st_nextChan s" "st_closeErr (try_send ch res s) = st_closeErr s"
  by (simp_all add: try_send_def)

definition fail_fold :: "(u64 \<rightharpoonup> nat) \<Rightarrow> stream_error \<Rightarrow> u64 list \<Rightarrow> stream \<Rightarrow> stream" where
  "fail_fold pend e order s =
     fold (\<lambda>rid s. case pend rid of None \<Rightarrow> s | Some ch \<Rightarrow> try_send ch (RErr e) s) order s"

lemma fail_fold_fields [simp]:
  "st_pending (fail_fold pend e order s) = st_pending s" "st_closed (fail_fold pend e order s) = st_closed s"
  "st_nextChan (fail_fold pend e order s) = st_nextChan s"
  by (induction order arbitrary: s) (simp_all add: fail_fold_def split: option.split)

lemma fail_fold_chans:
  assumes "\<forall>rid ch. pend rid = Some ch \<longrightarrow> st_chans s ch = Some None \<or> st_chans s ch = Some (Some (RErr e))"
  shows "st_chans (fail_fold pend e order s) =
           (\<lambda>ch. if \<exists>rid \<in> set order. pend rid = Some ch then Some (Some (RErr e)) else st_chans s ch)"
  using assms
proof (induction order arbitrary: s)
  case (Cons rid order)
  define s1 where "s1 = (case pend rid of None \<Rightarrow> s | Some ch \<Rightarrow> try_send ch (RErr e) s)"
  have step: "fail_fold pend e (rid # order) s = fail_fold pend e order s1"
    by (simp add: fail_fold_def s1_def)
  have chans: "st_chans s1 = (\<lambda>ch. if pend rid = Some ch then Some (Some (RErr e)) else st_chans s ch)"
    using Cons.prems by (auto simp: s1_def try_send_def fun_eq_iff split: option.splits)
  have "st_chans (fail_fold pend e order s1) =
      (\<lambda>ch. if \<exists>rid \<in> set order. pend rid = Some ch then Some (Some (RErr e)) else st_chans s1 ch)"
    by (rule Cons.IH) (use Cons.prems in \<open>auto simp: chans\<close>)
  then show ?case unfolding step chans by (auto simp: fun_eq_iff)
qed (simp add: fail_fold_def)

lemma failAll_core:
  assumes "core_inv (st_pending s) (st_chans s) (st_nextChan s) (st_closed s) sl" "enumerates order s"
  shows "core_inv (st_pending (failAll order err s)) (st_chans (failAll order err s))
           (st_nextChan (failAll order err s)) (st_closed (failAll order err s)) sl"
proof (cases "st_closed s")
  case True
  then show ?thesis using assms(1) by (simp add: failAll_def)
next
  case False
  let ?e = "case err of None \<Rightarrow> ErrConnClosed | Some e \<Rightarrow> e"
  let ?s = "s\<lparr>st_closed := True, st_closeErr := Some ?e, st_pending := Map.empty\<rparr>"
  have fa: "failAll order err s = fail_fold (st_pending s) ?e order ?s"
    using False by (simp add: failAll_def fail_fold_def Let_def)
  have "st_chans (fail_fold (st_pending s) ?e order ?s) =
      (\<lambda>ch. if ch \<in> ran (st_pending s) then Some (Some (RErr ?e)) else st_chans s ch)"
    using fail_fold_chans[of "st_pending s" ?s ?e order] core_pending(1)[OF assms(1)] assms(2)
    by (auto simp: enumerates_def ran_def fun_eq_iff)
  then show ?thesis using core_fail[OF assms(1), of ?e] by (simp add: fa)
qed

lemma dispatch_core:
  assumes "core_inv (st_pending s) (st_chans s) (st_nextChan s) (st_closed s) sl"
  shows "core_inv (st_pending (dispatch (RequestID f) (RFrame f) s)) (st_chans (dispatch (RequestID f) (RFrame f) s))
           (st_nextChan (dispatch (RequestID f) (RFrame f) s)) (st_closed (dispatch (RequestID f) (RFrame f) s)) sl"
proof (cases "st_pending s (RequestID f)")
  case None
  then show ?thesis using assms by (simp add: dispatch_def)
next
  case (Some ch)
  have "core_inv ((st_pending s)(RequestID f := None)) ((st_chans s)(ch \<mapsto> Some (RFrame f))) (st_nextChan s) (st_closed s) sl"
    by (rule core_deliver[OF assms Some]) simp
  then show ?thesis using Some core_pending(1)[OF assms Some] by (simp add: dispatch_def try_send_def)
qed

lemma slots_upd: "slots (y\<lparr>sys_stream := s, sys_calls := (sys_calls y)(c \<mapsto> st)\<rparr>) = (slots y)(c := call_slot (Some st))"
  by (auto simp: slots_def fun_eq_iff)

lemma slots_stream [simp]: "slots (y\<lparr>sys_stream := s\<rparr>) = slots y"
  by (simp add: slots_def fun_eq_iff)

lemma stream_inv_upd:
  assumes "core_inv (st_pending s) (st_chans s) (st_nextChan s) (st_closed s) ((slots y)(c := call_slot (Some st)))"
  shows "stream_inv (y\<lparr>sys_stream := s, sys_calls := (sys_calls y)(c \<mapsto> st)\<rparr>)"
  unfolding stream_inv_def slots_upd using assms by simp

lemma step_begin:
  assumes inv: "stream_inv y" and c: "sys_calls y c = None" and rid: "rid_free (rq_RequestID req) y"
    and b: "Call_begin now ctxErr req (sys_stream y) = (s', st)"
  shows "stream_inv (y\<lparr>sys_stream := s', sys_calls := (sys_calls y)(c \<mapsto> st)\<rparr>)"
proof -
  let ?s = "sys_stream y"
  have core: "core_inv (st_pending ?s) (st_chans ?s) (st_nextChan ?s) (st_closed ?s) (slots y)"
    using inv by (simp add: stream_inv_def)
  have sc: "slots y c = None" using c by (simp add: slots_def)
  then have same: "(slots y)(c := None) = slots y" by (auto simp: fun_eq_iff)
  show ?thesis
  proof (cases "ctxErr \<or> st_closed ?s \<or> rq_OneWay req \<or> st_pending ?s (rq_RequestID req) \<noteq> None")
    case True
    then have "st_pending s' = st_pending ?s \<and> st_chans s' = st_chans ?s \<and> st_nextChan s' = st_nextChan ?s \<and>
        st_closed s' = st_closed ?s \<and> call_slot (Some st) = None"
      using b by (auto simp: Call_begin_def Alive_def touch_def register_def inflight_done_def Let_def split: if_splits)
    then show ?thesis using core same by (intro stream_inv_upd) simp
  next
    case False
    then have s': "s' = touch now (?s\<lparr>st_inflight := st_inflight ?s + 1, st_nextChan := st_nextChan ?s + 1,
          st_chans := (st_chans ?s)(st_nextChan ?s \<mapsto> None),
          st_pending := (st_pending ?s)(rq_RequestID req \<mapsto> st_nextChan ?s)\<rparr>)"
        "st = Writing req (Some (st_nextChan ?s))"
      using b by (auto simp: Call_begin_def Alive_def touch_def register_def Let_def)
    have "core_inv (st_pending ?s) (st_chans ?s) (st_nextChan ?s) False (slots y)" using core False by simp
    from core_register[OF this sc, of "rq_RequestID req"]
    show ?thesis using rid False by (intro stream_inv_upd) (simp add: s' touch_def rid_free_def)
  qed
qed

lemma Call_end_core:
  assumes "core_inv (st_pending s) (st_chans s) (st_nextChan s) (st_closed s) sl" "sl c = Some (rid, ch)"
  shows "core_inv (st_pending (Call_end rid s)) (st_chans (Call_end rid s)) (st_nextChan (Call_end rid s))
           (st_closed (Call_end rid s)) (sl(c := None))"
  using core_end[OF assms] by (simp add: Call_end_def inflight_done_def unregister_def)

lemma step_write:
  assumes inv: "stream_inv y" and c: "sys_calls y c = Some (Writing req ch)"
    and order: "enumerates order (sys_stream y)"
    and w: "Call_write order ctxErr werr req ch (sys_stream y) = (s', st)"
  shows "stream_inv (y\<lparr>sys_stream := s', sys_calls := (sys_calls y)(c \<mapsto> st)\<rparr>)"
proof -
  let ?s = "stream_writeFrame (request_frame req) werr (sys_stream y)" and ?rid = "rq_RequestID req"
  have core: "core_inv (st_pending ?s) (st_chans ?s) (st_nextChan ?s) (st_closed ?s) (slots y)"
    using inv by (simp add: stream_inv_def stream_writeFrame_def)
  have en: "enumerates order ?s" using order by (simp add: enumerates_def stream_writeFrame_def)
  define s1 where "s1 = (if werr \<noteq> None \<and> \<not> ctxErr then failAll order werr ?s else ?s)"
  have core1: "core_inv (st_pending s1) (st_chans s1) (st_nextChan s1) (st_closed s1) (slots y)"
    using core failAll_core[OF core en, of werr] by (simp add: s1_def)
  have slot: "slots y c = map_option (Pair ?rid) ch" using c by (cases ch) (simp_all add: slots_def)
  show ?thesis
  proof (cases ch)
    case None
    then have "s' = inflight_done s1" "call_slot (Some st) = None" "(slots y)(c := None) = slots y"
      using w slot by (auto simp: Call_write_def s1_def Let_def fun_eq_iff split: option.splits if_splits)
    then show ?thesis using core1 by (intro stream_inv_upd) (simp add: inflight_done_def)
  next
    case (Some k)
    show ?thesis
    proof (cases "werr = None")
      case True
      then have "s' = s1" "call_slot (Some st) = slots y c"
        using w Some slot by (auto simp: Call_write_def s1_def Let_def)
      then show ?thesis using core1 by (intro stream_inv_upd) simp
    next
      case False
      then have "s' = Call_end ?rid s1" "call_slot (Some st) = None"
        using w Some by (auto simp: Call_write_def s1_def Let_def split: if_splits)
      then show ?thesis using Call_end_core[OF core1, of c ?rid k] slot Some by (intro stream_inv_upd) simp
    qed
  qed
qed

lemma stream_step_inv: "stream_step y y' \<Longrightarrow> stream_inv y \<Longrightarrow> stream_inv y'"
proof (induction rule: stream_step.induct)
  case (begin_call y c req now ctxErr s' st)
  then show ?case by (intro step_begin)
next
  case (write_frame y c req ch order ctxErr werr s' st)
  then show ?case by (intro step_write)
next
  case (receive y now f werr)
  let ?s = "sys_stream y"
  have core: "core_inv (st_pending (touch now ?s)) (st_chans (touch now ?s)) (st_nextChan (touch now ?s))
      (st_closed (touch now ?s)) (slots y)"
    using receive by (simp add: stream_inv_def touch_def)
  then show ?case
    using dispatch_core[OF core, of f]
    by (auto simp: stream_inv_def readLoop_frame_def Let_def stream_writeFrame_def)
next
  case (fail order y err)
  then show ?case using failAll_core[of "sys_stream y" "slots y" order err] by (simp add: stream_inv_def)
next
  case (take_result y c rid ch res ctxErr)
  then show ?case
    using Call_end_core[of "sys_stream y" "slots y" c rid ch]
    by (intro stream_inv_upd) (simp add: stream_inv_def slots_def)
next
  case (cancel y c rid ch)
  then show ?case
    using Call_end_core[of "sys_stream y" "slots y" c rid ch]
    by (intro stream_inv_upd) (simp add: stream_inv_def slots_def)
qed

lemma reachable_inv: "reachable y \<Longrightarrow> stream_inv y"
proof (induction rule: reachable.induct)
  case (reach_init now)
  have "slots (init_sys now) = (\<lambda>_. None)" by (simp add: slots_def init_sys_def fun_eq_iff)
  then show ?case using core_init by (simp add: stream_inv_def init_sys_def newStream_def)
next
  case (reach_step y y')
  then show ?case by (blast intro: stream_step_inv)
qed

section \<open>A concrete run\<close>

definition demo_request :: Request where
  "demo_request = \<lparr>rq_RequestID = 7, rq_Header = [], rq_Body = [1], rq_OneWay = False\<rparr>"

definition demo_waiting :: sys where
  "demo_waiting =
     (let (s, st) = Call_begin 0 False demo_request (newStream 0);
          (s, st) = Call_write [7] False None demo_request (Some 0) s
      in \<lparr>sys_stream = s, sys_calls = [0 \<mapsto> st]\<rparr>)"

lemma demo_waiting_fields:
  "sys_calls demo_waiting = [0 \<mapsto> Waiting 7 0]" "st_pending (sys_stream demo_waiting) = [7 \<mapsto> 0]"
  "st_chans (sys_stream demo_waiting) = [0 \<mapsto> None]" "st_closed (sys_stream demo_waiting) = False"
  by (simp_all add: demo_waiting_def Call_begin_def Call_write_def demo_request_def newStream_def Alive_def
      touch_def register_def stream_writeFrame_def Let_def)

lemma reachable_demo_waiting: "reachable demo_waiting"
proof -
  let ?b = "Call_begin 0 False demo_request (newStream 0)"
  have b: "?b = (fst ?b, Writing demo_request (Some 0))"
    by (simp add: Call_begin_def demo_request_def newStream_def Alive_def touch_def register_def Let_def)
  let ?y1 = "(init_sys 0)\<lparr>sys_stream := fst ?b, sys_calls := (sys_calls (init_sys 0))(0 \<mapsto> Writing demo_request (Some 0))\<rparr>"
  have "stream_step (init_sys 0) ?y1"
    by (rule stream_step.begin_call[where now = 0 and ctxErr = False and req = demo_request])
      (use b in \<open>simp_all add: init_sys_def rid_free_def slots_def\<close>)
  then have y1: "reachable ?y1" by (rule reach_step[OF reach_init])
  have pend: "st_pending (fst ?b) = [7 \<mapsto> 0]"
    by (simp add: Call_begin_def demo_request_def newStream_def Alive_def touch_def register_def Let_def)
  let ?w = "Call_write [7] False None demo_request (Some 0) (fst ?b)"
  have "stream_step ?y1 (?y1\<lparr>sys_stream := fst ?w, sys_calls := (sys_calls ?y1)(0 \<mapsto> snd ?w)\<rparr>)"
    by (rule stream_step.write_frame[where order = "[7]" and ctxErr = False and werr = None])
      (simp_all add: enumerates_def pend)
  then have "reachable (?y1\<lparr>sys_stream := fst ?w, sys_calls := (sys_calls ?y1)(0 \<mapsto> snd ?w)\<rparr>)"
    by (rule reach_step[OF y1])
  moreover have "?y1\<lparr>sys_stream := fst ?w, sys_calls := (sys_calls ?y1)(0 \<mapsto> snd ?w)\<rparr> = demo_waiting"
    by (simp add: demo_waiting_def init_sys_def split_def Let_def)
  ultimately show ?thesis by simp
qed

section \<open>Properties\<close>





end
