(* ===== verification/NetOptions.thy ===== *)
theory NetOptions
  imports NetBalancer NetStream
begin

text \<open>
  The options of the RPC client: the first half of \<^verbatim>\<open>micro/net/options.go\<close>, and the errors a
  call can end with. An option is a function on the record of settings. Durations are in
  nanoseconds; logger, metrics and TLS settings are left out.
\<close>

section \<open>Options\<close>

type_synonym resolver = "string \<Rightarrow> string \<Rightarrow> endpoint_error + string list"

record clientOptions =
  dialTimeout :: int
  readTimeout :: int
  writeTimeout :: int
  requestTimeout :: int
  keepAlive :: int
  idleTimeout :: int
  maxConnLifetime :: int
  maxHeaderSize :: u32
  maxBodySize :: u32
  maxIdleConns :: int
  maxOpenConns :: int
  retryAttempts :: int
  retryBackoff :: int
  heartbeatInterval :: int
  heartbeatTimeout :: int
  extraEndpoints :: "Endpoint list"
  co_balancer :: "Balancer option"
  dnsResolve :: bool
  co_resolver :: "resolver option"
  healthThreshold :: int
  healthCooldown :: int

abbreviation second :: int where "second \<equiv> 1000000000"
abbreviation millisecond :: int where "millisecond \<equiv> 1000000"

definition defaultClientOptions :: clientOptions where
  "defaultClientOptions = \<lparr>dialTimeout = 3 * second, readTimeout = 5 * second, writeTimeout = 5 * second,
     requestTimeout = 10 * second, keepAlive = 30 * second, idleTimeout = 60 * second, maxConnLifetime = 0,
     maxHeaderSize = defaultMaxHeaderSize, maxBodySize = defaultMaxBodySize, maxIdleConns = 10,
     maxOpenConns = 10, retryAttempts = 0, retryBackoff = 100 * millisecond,
     heartbeatInterval = 30 * second, heartbeatTimeout = 3 * second, extraEndpoints = [],
     co_balancer = Some (NewBalancer PolicyRoundRobin), dnsResolve = False, co_resolver = None,
     healthThreshold = 2, healthCooldown = 5 * second\<rparr>"

definition limits :: "clientOptions \<Rightarrow> frameLimits" where
  "limits o' = \<lparr>maxHeader = maxHeaderSize o', maxBody = maxBodySize o'\<rparr>"

type_synonym ClientOption = "clientOptions \<Rightarrow> clientOptions"

definition WithDialTimeout :: "int \<Rightarrow> ClientOption" where
  "WithDialTimeout v o' = o'\<lparr>dialTimeout := v\<rparr>"

definition WithReadTimeout :: "int \<Rightarrow> ClientOption" where
  "WithReadTimeout v o' = o'\<lparr>readTimeout := v\<rparr>"

definition WithWriteTimeout :: "int \<Rightarrow> ClientOption" where
  "WithWriteTimeout v o' = o'\<lparr>writeTimeout := v\<rparr>"

definition WithRequestTimeout :: "int \<Rightarrow> ClientOption" where
  "WithRequestTimeout v o' = o'\<lparr>requestTimeout := v\<rparr>"

definition WithKeepAlive :: "int \<Rightarrow> ClientOption" where
  "WithKeepAlive v o' = o'\<lparr>keepAlive := v\<rparr>"

definition WithIdleTimeout :: "int \<Rightarrow> ClientOption" where
  "WithIdleTimeout v o' = o'\<lparr>idleTimeout := v\<rparr>"

definition WithMaxIdleConns :: "int \<Rightarrow> ClientOption" where
  "WithMaxIdleConns v o' = o'\<lparr>maxIdleConns := v\<rparr>"

definition WithMaxOpenConns :: "int \<Rightarrow> ClientOption" where
  "WithMaxOpenConns v o' = o'\<lparr>maxOpenConns := v\<rparr>"

definition WithMaxConnLifetime :: "int \<Rightarrow> ClientOption" where
  "WithMaxConnLifetime v o' = o'\<lparr>maxConnLifetime := v\<rparr>"

definition WithDNSResolve :: "bool \<Rightarrow> ClientOption" where
  "WithDNSResolve v o' = o'\<lparr>dnsResolve := v\<rparr>"

definition WithResolver :: "resolver option \<Rightarrow> ClientOption" where
  "WithResolver v o' = o'\<lparr>co_resolver := v\<rparr>"

definition WithMaxConns :: "int \<Rightarrow> ClientOption" where
  "WithMaxConns n o' = o'\<lparr>maxIdleConns := n, maxOpenConns := n\<rparr>"

definition WithHeartbeat :: "int \<Rightarrow> int \<Rightarrow> ClientOption" where
  "WithHeartbeat interval timeout o' = o'\<lparr>heartbeatInterval := interval, heartbeatTimeout := timeout\<rparr>"

definition WithMaxMessageSize :: "u32 \<Rightarrow> u32 \<Rightarrow> ClientOption" where
  "WithMaxMessageSize h b o' =
     (let o' = (if h > 0 then o'\<lparr>maxHeaderSize := h\<rparr> else o')
      in if b > 0 then o'\<lparr>maxBodySize := b\<rparr> else o')"

definition WithRetry :: "int \<Rightarrow> int \<Rightarrow> ClientOption" where
  "WithRetry attempts backoff o' = o'\<lparr>retryAttempts := attempts, retryBackoff := backoff\<rparr>"

definition WithEndpoints :: "string list \<Rightarrow> ClientOption" where
  "WithEndpoints addrs o' =
     fold (\<lambda>a o'. case parseOneEndpoint a of
              Inl _ \<Rightarrow> o'
            | Inr ep \<Rightarrow> o'\<lparr>extraEndpoints := extraEndpoints o' @ [ep]\<rparr>) addrs o'"

definition WithEndpointList :: "Endpoint list \<Rightarrow> ClientOption" where
  "WithEndpointList eps o' = o'\<lparr>extraEndpoints := extraEndpoints o' @ eps\<rparr>"

definition WithBalancer :: "Balancer option \<Rightarrow> ClientOption" where
  "WithBalancer b o' = (if b \<noteq> None then o'\<lparr>co_balancer := b\<rparr> else o')"

definition WithBalancerPolicy :: "BalancerPolicy \<Rightarrow> ClientOption" where
  "WithBalancerPolicy policy o' = o'\<lparr>co_balancer := Some (NewBalancer policy)\<rparr>"

definition WithEndpointHealth :: "int \<Rightarrow> int \<Rightarrow> ClientOption" where
  "WithEndpointHealth threshold cooldown o' =
     (let o' = (if threshold > 0 then o'\<lparr>healthThreshold := threshold\<rparr> else o')
      in if cooldown > 0 then o'\<lparr>healthCooldown := cooldown\<rparr> else o')"

section \<open>Errors\<close>

datatype client_error =
    EndpointError endpoint_error | NoEndpointsConfigured | ErrNoEndpoint | ErrPoolClosed
  | DialError string | ResponseError string | StreamError stream_error

end
