(* ===== verification/StreamPool.thy ===== *)
theory StreamPool
  imports NetOptions
begin

text \<open>
  The pool of multiplexed streams the client keeps for one address: \<^verbatim>\<open>micro/net/pool.go\<close>.
  Streams are numbered and live in a store, since calls, the pool and the maintenance
  goroutine share them. The functions are the critical sections of the code; the step
  relation interleaves them. A stream may close at any moment without the pool's lock, so
  every reading of a stream inside a critical section has a store of its own.
\<close>

section \<open>State and operations\<close>

type_synonym store = "nat \<Rightarrow> stream"

record streamPool =
  sp_maxOpen :: int
  sp_idleTimeout :: int
  sp_maxLifetime :: int
  sp_heartbeatInterval :: int
  sp_heartbeatTimeout :: int
  sp_streams :: "nat list"
  sp_dialing :: int
  sp_closed :: bool
  sp_dialCount :: "64 word"
  sp_closedIdle :: "64 word"
  sp_closedLife :: "64 word"
  sp_closedBad :: "64 word"
  sp_heartbeatOK :: "64 word"
  sp_heartbeatErr :: "64 word"

record PoolStats =
  ps_Open :: int
  ps_DialCount :: "64 word"
  ps_ClosedIdle :: "64 word"
  ps_ClosedLife :: "64 word"
  ps_ClosedBad :: "64 word"
  ps_HeartbeatOK :: "64 word"
  ps_HeartbeatErr :: "64 word"
  ps_TotalInflight :: "32 word"

definition newStreamPool :: "clientOptions \<Rightarrow> streamPool" where
  "newStreamPool o' =
     \<lparr>sp_maxOpen = (if maxOpenConns o' \<le> 0 then 1 else maxOpenConns o'), sp_idleTimeout = idleTimeout o',
      sp_maxLifetime = maxConnLifetime o', sp_heartbeatInterval = heartbeatInterval o',
      sp_heartbeatTimeout = heartbeatTimeout o', sp_streams = [], sp_dialing = 0, sp_closed = False,
      sp_dialCount = 0, sp_closedIdle = 0, sp_closedLife = 0, sp_closedBad = 0,
      sp_heartbeatOK = 0, sp_heartbeatErr = 0\<rparr>"

definition pickLocked :: "store \<Rightarrow> streamPool \<Rightarrow> nat option" where
  "pickLocked h p =
     fst (fold (\<lambda>s (best, bestLoad).
            if \<not> Alive (h s) then (best, bestLoad)
            else if best = None \<or> sint (st_inflight (h s)) < bestLoad
              then (Some s, sint (st_inflight (h s)))
            else (best, bestLoad)) (sp_streams p) (None, - 1))"

definition compactLocked :: "store \<Rightarrow> streamPool \<Rightarrow> streamPool" where
  "compactLocked h p =
     p\<lparr>sp_streams := filter (\<lambda>s. Alive (h s)) (sp_streams p),
       sp_closedBad := sp_closedBad p + of_nat (length (filter (\<lambda>s. \<not> Alive (h s)) (sp_streams p)))\<rparr>"

definition removeLocked :: "nat \<Rightarrow> streamPool \<Rightarrow> streamPool" where
  "removeLocked target p = p\<lparr>sp_streams := filter (\<lambda>s. s \<noteq> target) (sp_streams p)\<rparr>"

definition occupancy :: "streamPool \<Rightarrow> int" where
  "occupancy p = int (length (sp_streams p)) + sp_dialing p"

text \<open>One pass of the loop of \<^verbatim>\<open>Get\<close> up to the point where it gives up the lock.\<close>

datatype get_next = GetReturn "client_error + nat" | GetDial | GetWait

definition Get_locked :: "bool \<Rightarrow> store \<Rightarrow> store \<Rightarrow> store \<Rightarrow> streamPool \<Rightarrow> streamPool \<times> get_next" where
  "Get_locked ctxErr h1 h2 h3 p =
     (if sp_closed p then (p, GetReturn (Inl ErrPoolClosed))
      else if ctxErr then (p, GetReturn (Inl (StreamError ErrCtx)))
      else
        (let p = compactLocked h1 p;
             reuse = (case pickLocked h2 p of
                        None \<Rightarrow> None
                      | Some s \<Rightarrow> if occupancy p \<ge> sp_maxOpen p \<or> sint (st_inflight (h2 s)) < 32
                                  then Some s else None)
         in case reuse of
              Some s \<Rightarrow> (p, GetReturn (Inr s))
            | None \<Rightarrow>
                if occupancy p < sp_maxOpen p then (p\<lparr>sp_dialing := sp_dialing p + 1\<rparr>, GetDial)
                else case pickLocked h3 p of
                    Some s \<Rightarrow> (p, GetReturn (Inr s))
                  | None \<Rightarrow> (p, GetWait)))"

text \<open>
  The part after the dial. The result says which stream to close, whether that counts as a
  closed connection in the metrics, and what \<^verbatim>\<open>Get\<close> returns; no result means the loop goes on.
\<close>

definition Get_dialed ::
  "client_error + nat \<Rightarrow> store \<Rightarrow> store \<Rightarrow> streamPool \<Rightarrow>
     streamPool \<times> (nat option \<times> bool) \<times> (client_error + nat) option" where
  "Get_dialed dialed h1 h2 p =
     (let p = p\<lparr>sp_dialing := sp_dialing p - 1\<rparr>
      in case dialed of
           Inl e \<Rightarrow> (p, (None, False), Some (Inl e))
         | Inr s \<Rightarrow>
             if sp_closed p then (p, (Some s, False), Some (Inl ErrPoolClosed))
             else
               (let p = compactLocked h1 p
                in if int (length (sp_streams p)) \<ge> sp_maxOpen p then
                     (p, (Some s, True), (case pickLocked h2 p of Some t \<Rightarrow> Some (Inr t) | None \<Rightarrow> None))
                   else (p\<lparr>sp_streams := sp_streams p @ [s]\<rparr>, (None, False), Some (Inr s))))"

definition dialStream_ok :: "streamPool \<Rightarrow> streamPool" where
  "dialStream_ok p = p\<lparr>sp_dialCount := sp_dialCount p + 1\<rparr>"

definition waitLocked_woken :: "bool \<Rightarrow> streamPool \<Rightarrow> client_error option" where
  "waitLocked_woken ctxErr p =
     (if sp_closed p then Some ErrPoolClosed else if ctxErr then Some (StreamError ErrCtx) else None)"

definition background_interval :: "streamPool \<Rightarrow> int" where
  "background_interval p =
     (let i = 5 * second;
          i = (if sp_heartbeatInterval p > 0 \<and> sp_heartbeatInterval p < i then sp_heartbeatInterval p else i)
      in if sp_idleTimeout p > 0 \<and> sp_idleTimeout p div 2 < i
         then max (sp_idleTimeout p div 2) (200 * millisecond) else i)"

text \<open>The locked part of \<^verbatim>\<open>maintain\<close>: the streams to close and the streams to ping.\<close>

record sweep =
  sw_pool :: streamPool
  sw_alive :: "nat list"
  sw_toClose :: "nat list"
  sw_toPing :: "nat list"

definition maintain_one :: "int \<Rightarrow> store \<Rightarrow> nat \<Rightarrow> sweep \<Rightarrow> sweep" where
  "maintain_one now h s w =
     (let p = sw_pool w; x = h s in
      if \<not> Alive x then w\<lparr>sw_pool := p\<lparr>sp_closedBad := sp_closedBad p + 1\<rparr>\<rparr>
      else if sp_maxLifetime p > 0 \<and> now - st_createdAt x > sp_maxLifetime p \<and> st_inflight x = 0 then
        w\<lparr>sw_toClose := sw_toClose w @ [s], sw_pool := p\<lparr>sp_closedLife := sp_closedLife p + 1\<rparr>\<rparr>
      else if sp_idleTimeout p > 0 \<and> st_inflight x = 0 \<and> now - st_lastActive x > sp_idleTimeout p then
        w\<lparr>sw_toClose := sw_toClose w @ [s], sw_pool := p\<lparr>sp_closedIdle := sp_closedIdle p + 1\<rparr>\<rparr>
      else
        (let w = (if sp_heartbeatInterval p > 0 \<and> now - st_lastActive x \<ge> sp_heartbeatInterval p
                  then w\<lparr>sw_toPing := sw_toPing w @ [s]\<rparr> else w)
         in w\<lparr>sw_alive := sw_alive w @ [s]\<rparr>))"

definition maintain_locked :: "int \<Rightarrow> store \<Rightarrow> store \<Rightarrow> streamPool \<Rightarrow> streamPool \<times> nat list \<times> nat list" where
  "maintain_locked now h1 h2 p =
     (if sp_closed p then (p, [], [])
      else
        (let p = compactLocked h1 p;
             w = fold (maintain_one now h2) (sp_streams p)
                   \<lparr>sw_pool = p, sw_alive = [], sw_toClose = [], sw_toPing = []\<rparr>
         in ((sw_pool w)\<lparr>sp_streams := sw_alive w\<rparr>, sw_toClose w, sw_toPing w)))"

definition ping_timeout :: "streamPool \<Rightarrow> int" where
  "ping_timeout p = (if sp_heartbeatTimeout p \<le> 0 then 3 * second else sp_heartbeatTimeout p)"

text \<open>The end of \<^verbatim>\<open>pingOne\<close>: the stream has been closed by then if the ping failed.\<close>

definition pingOne_end :: "stream_error option \<Rightarrow> nat \<Rightarrow> streamPool \<Rightarrow> streamPool" where
  "pingOne_end err s p =
     (if err \<noteq> None then removeLocked s (p\<lparr>sp_heartbeatErr := sp_heartbeatErr p + 1\<rparr>)
      else p\<lparr>sp_heartbeatOK := sp_heartbeatOK p + 1\<rparr>)"

definition pool_Close :: "streamPool \<Rightarrow> streamPool \<times> nat list" where
  "pool_Close p =
     (if sp_closed p then (p, []) else (p\<lparr>sp_closed := True, sp_streams := []\<rparr>, sp_streams p))"

definition pool_Stats :: "store \<Rightarrow> store \<Rightarrow> streamPool \<Rightarrow> streamPool \<times> PoolStats" where
  "pool_Stats h1 h2 p =
     (let p = compactLocked h1 p
      in (p, \<lparr>ps_Open = int (length (sp_streams p)), ps_DialCount = sp_dialCount p,
              ps_ClosedIdle = sp_closedIdle p, ps_ClosedLife = sp_closedLife p,
              ps_ClosedBad = sp_closedBad p, ps_HeartbeatOK = sp_heartbeatOK p,
              ps_HeartbeatErr = sp_heartbeatErr p,
              ps_TotalInflight = sum_list (map (\<lambda>s. st_inflight (h2 s)) (sp_streams p))\<rparr>))"

definition Len :: "store \<Rightarrow> store \<Rightarrow> streamPool \<Rightarrow> int" where
  "Len h1 h2 p = ps_Open (snd (pool_Stats h1 h2 p))"

section \<open>Interleaved goroutines\<close>

text \<open>
  A caller of \<^verbatim>\<open>Get\<close> dials without the lock, holds a freshly dialled stream, waits on the
  condition, or has returned. Streams that maintenance or \<^verbatim>\<open>Close\<close> has taken off the list are
  closed afterwards, one by one. Streams change at any time, but a closed one stays closed.
\<close>

datatype getter = Looping | Dialling | Dialled nat | Blocked | GetDone "client_error + nat"

record psys =
  y_pool :: streamPool
  y_store :: store
  y_next :: nat
  y_getters :: "nat \<Rightarrow> getter option"
  y_toClose :: "nat list"

definition only_closes :: "store \<Rightarrow> store \<Rightarrow> bool" where
  "only_closes h h' \<longleftrightarrow> (\<forall>s. st_closed (h s) \<longrightarrow> st_closed (h' s))"

definition close_stream :: "nat option \<Rightarrow> u64 list \<Rightarrow> store \<Rightarrow> store" where
  "close_stream t order h = (case t of None \<Rightarrow> h | Some s \<Rightarrow> h(s := Close order (h s)))"

fun after_get :: "get_next \<Rightarrow> getter" where
  "after_get (GetReturn r) = GetDone r"
| "after_get GetDial = Dialling"
| "after_get GetWait = Blocked"

definition after_dial :: "(client_error + nat) option \<Rightarrow> getter" where
  "after_dial r = (case r of None \<Rightarrow> Looping | Some r \<Rightarrow> GetDone r)"

inductive pool_step :: "psys \<Rightarrow> psys \<Rightarrow> bool" where
  streams_change: "\<lbrakk>only_closes (y_store y) h'\<rbrakk> \<Longrightarrow> pool_step y (y\<lparr>y_store := h'\<rparr>)"
| call_get: "\<lbrakk>y_getters y g = None\<rbrakk> \<Longrightarrow> pool_step y (y\<lparr>y_getters := (y_getters y)(g \<mapsto> Looping)\<rparr>)"
| get_pass: "\<lbrakk>y_getters y g = Some Looping; only_closes (y_store y) h1; only_closes h1 h2; only_closes h2 h3;
      Get_locked ctxErr h1 h2 h3 (y_pool y) = (p', next)\<rbrakk> \<Longrightarrow>
      pool_step y (y\<lparr>y_pool := p', y_store := h3, y_getters := (y_getters y)(g \<mapsto> after_get next)\<rparr>)"
| dial_ok: "\<lbrakk>y_getters y g = Some Dialling\<rbrakk> \<Longrightarrow>
      pool_step y (y\<lparr>y_pool := dialStream_ok (y_pool y), y_store := (y_store y)(y_next y := newStream now),
                     y_next := y_next y + 1, y_getters := (y_getters y)(g \<mapsto> Dialled (y_next y))\<rparr>)"
| dial_fails: "\<lbrakk>y_getters y g = Some Dialling; Get_dialed (Inl e) h1 h2 (y_pool y) = (p', c, r)\<rbrakk> \<Longrightarrow>
      pool_step y (y\<lparr>y_pool := p', y_getters := (y_getters y)(g \<mapsto> after_dial r)\<rparr>)"
| dialed: "\<lbrakk>y_getters y g = Some (Dialled s); only_closes (y_store y) h1; only_closes h1 h2;
      Get_dialed (Inr s) h1 h2 (y_pool y) = (p', (t, counted), r)\<rbrakk> \<Longrightarrow>
      pool_step y (y\<lparr>y_pool := p', y_store := close_stream t order h2,
                     y_getters := (y_getters y)(g \<mapsto> after_dial r)\<rparr>)"
| wake: "\<lbrakk>y_getters y g = Some Blocked\<rbrakk> \<Longrightarrow>
      pool_step y (y\<lparr>y_getters := (y_getters y)(g \<mapsto>
        (case waitLocked_woken ctxErr (y_pool y) of None \<Rightarrow> Looping | Some e \<Rightarrow> GetDone (Inl e)))\<rparr>)"
| maintain: "\<lbrakk>only_closes (y_store y) h1; only_closes h1 h2;
      maintain_locked now h1 h2 (y_pool y) = (p', toClose, toPing)\<rbrakk> \<Longrightarrow>
      pool_step y (y\<lparr>y_pool := p', y_store := h2, y_toClose := y_toClose y @ toClose\<rparr>)"
| close_one: "\<lbrakk>y_toClose y = s # rest\<rbrakk> \<Longrightarrow>
      pool_step y (y\<lparr>y_store := close_stream (Some s) order (y_store y), y_toClose := rest\<rparr>)"
| ping_done: "\<lbrakk>err \<noteq> None \<Longrightarrow> st_closed (y_store y s)\<rbrakk> \<Longrightarrow>
      pool_step y (y\<lparr>y_pool := pingOne_end err s (y_pool y)\<rparr>)"
| close_pool: "\<lbrakk>pool_Close (y_pool y) = (p', toClose)\<rbrakk> \<Longrightarrow>
      pool_step y (y\<lparr>y_pool := p', y_toClose := y_toClose y @ toClose\<rparr>)"
| stats: "\<lbrakk>only_closes (y_store y) h1; only_closes h1 h2\<rbrakk> \<Longrightarrow>
      pool_step y (y\<lparr>y_pool := fst (pool_Stats h1 h2 (y_pool y)), y_store := h2\<rparr>)"

definition init_psys :: "clientOptions \<Rightarrow> psys" where
  "init_psys o' = \<lparr>y_pool = newStreamPool o', y_store = (\<lambda>_. newStream 0), y_next = 0,
     y_getters = (\<lambda>_. None), y_toClose = []\<rparr>"

inductive pool_reachable :: "clientOptions \<Rightarrow> psys \<Rightarrow> bool" for o' where
  pool_init: "pool_reachable o' (init_psys o')"
| pool_next: "pool_reachable o' y \<Longrightarrow> pool_step y y' \<Longrightarrow> pool_reachable o' y'"

section \<open>The invariant\<close>

definition diallers :: "(nat \<Rightarrow> getter option) \<Rightarrow> nat set" where
  "diallers gs = {g. gs g = Some Dialling \<or> (\<exists>s. gs g = Some (Dialled s))}"

text \<open>
  The dial counter counts the callers between their two critical sections, streams and dials
  together stay within the limit, and every open stream has an owner: the list, the goroutine
  that is to close it, or the caller that dialled it.
\<close>

definition owned :: "nat list \<Rightarrow> nat list \<Rightarrow> (nat \<Rightarrow> getter option) \<Rightarrow> nat set" where
  "owned streams toClose gs = set streams \<union> set toClose \<union> {s. \<exists>g. gs g = Some (Dialled s)}"

definition pool_inv :: "psys \<Rightarrow> bool" where
  "pool_inv y \<longleftrightarrow>
     finite (diallers (y_getters y)) \<and> sp_dialing (y_pool y) = int (card (diallers (y_getters y))) \<and>
     occupancy (y_pool y) \<le> sp_maxOpen (y_pool y) \<and>
     (sp_closed (y_pool y) \<longrightarrow> sp_streams (y_pool y) = []) \<and>
     (\<forall>s < y_next y. st_closed (y_store y s) \<or> s \<in> owned (sp_streams (y_pool y)) (y_toClose y) (y_getters y))"

lemma pool_invI:
  assumes "finite (diallers (y_getters y))" "sp_dialing (y_pool y) = int (card (diallers (y_getters y)))"
    "occupancy (y_pool y) \<le> sp_maxOpen (y_pool y)"
    "sp_closed (y_pool y) \<Longrightarrow> sp_streams (y_pool y) = []"
    "\<And>s. s < y_next y \<Longrightarrow> \<not> st_closed (y_store y s) \<Longrightarrow> s \<in> owned (sp_streams (y_pool y)) (y_toClose y) (y_getters y)"
  shows "pool_inv y"
  using assms unfolding pool_inv_def by blast

lemma pool_invD:
  assumes "pool_inv y"
  shows "finite (diallers (y_getters y))" "sp_dialing (y_pool y) = int (card (diallers (y_getters y)))"
    "occupancy (y_pool y) \<le> sp_maxOpen (y_pool y)"
    "sp_closed (y_pool y) \<Longrightarrow> sp_streams (y_pool y) = []"
    "s < y_next y \<Longrightarrow> \<not> st_closed (y_store y s) \<Longrightarrow> s \<in> owned (sp_streams (y_pool y)) (y_toClose y) (y_getters y)"
  using assms unfolding pool_inv_def by blast+

lemma diallers_upd:
  "diallers (gs(g \<mapsto> x)) = (if x = Dialling \<or> (\<exists>s. x = Dialled s) then insert g (diallers gs) else diallers gs - {g})"
  by (auto simp: diallers_def)

lemma only_closes_refl [simp]: "only_closes h h"
  by (simp add: only_closes_def)

lemma only_closes_trans: "only_closes h1 h2 \<Longrightarrow> only_closes h2 h3 \<Longrightarrow> only_closes h1 h3"
  by (simp add: only_closes_def)

lemma Close_closed [simp]: "st_closed (Close order s)"
proof -
  have "st_closed (fail_fold pend e order t) = st_closed t" for pend e t by simp
  then show ?thesis
    by (cases "st_closed s") (simp_all add: Close_def failAll_def fail_fold_def[symmetric] Let_def)
qed

lemma close_stream_only_closes: "only_closes h (close_stream t order h)"
  by (auto simp: close_stream_def only_closes_def split: option.split)

lemma compactLocked_fields [simp]:
  "sp_dialing (compactLocked h p) = sp_dialing p" "sp_maxOpen (compactLocked h p) = sp_maxOpen p"
  "sp_closed (compactLocked h p) = sp_closed p"
  "sp_streams (compactLocked h p) = filter (\<lambda>s. Alive (h s)) (sp_streams p)"
  by (simp_all add: compactLocked_def)

lemma pool_keep:
  assumes inv: "pool_inv y" and mono: "only_closes (y_store y) h'"
    and p': "sp_dialing p' = sp_dialing (y_pool y)" "sp_maxOpen p' = sp_maxOpen (y_pool y)"
      "length (sp_streams p') \<le> length (sp_streams (y_pool y))" "sp_closed p' \<Longrightarrow> sp_streams p' = []"
    and gs: "diallers gs' = diallers (y_getters y)"
    and own: "\<And>s. s \<in> owned (sp_streams (y_pool y)) (y_toClose y) (y_getters y) \<Longrightarrow> \<not> st_closed (h' s) \<Longrightarrow>
      s \<in> owned (sp_streams p') tc' gs'"
  shows "pool_inv (y\<lparr>y_pool := p', y_store := h', y_getters := gs', y_toClose := tc'\<rparr>)"
proof (rule pool_invI)
  let ?y = "y\<lparr>y_pool := p', y_store := h', y_getters := gs', y_toClose := tc'\<rparr>"
  show "occupancy (y_pool ?y) \<le> sp_maxOpen (y_pool ?y)"
    using pool_invD(3)[OF inv] p' by (simp add: occupancy_def)
  show "s \<in> owned (sp_streams (y_pool ?y)) (y_toClose ?y) (y_getters ?y)"
    if "s < y_next ?y" "\<not> st_closed (y_store ?y s)" for s
    using pool_invD(5)[OF inv, of s] own[of s] that mono by (auto simp: only_closes_def)
qed (use pool_invD(1,2)[OF inv] p' gs in simp_all)

lemma maintain_one_inv:
  "sp_dialing (sw_pool (maintain_one now h s w)) = sp_dialing (sw_pool w)"
  "sp_maxOpen (sw_pool (maintain_one now h s w)) = sp_maxOpen (sw_pool w)"
  "sp_closed (sw_pool (maintain_one now h s w)) = sp_closed (sw_pool w)"
  "length (sw_alive (maintain_one now h s w)) \<le> Suc (length (sw_alive w))"
  "set (sw_alive w) \<union> set (sw_toClose w) \<subseteq> set (sw_alive (maintain_one now h s w)) \<union> set (sw_toClose (maintain_one now h s w))"
  "\<not> st_closed (h s) \<Longrightarrow> s \<in> set (sw_alive (maintain_one now h s w)) \<union> set (sw_toClose (maintain_one now h s w))"
  by (auto simp: maintain_one_def Let_def Alive_def)

lemma maintain_fold:
  assumes "w' = fold (maintain_one now h) ss w"
  shows "sp_dialing (sw_pool w') = sp_dialing (sw_pool w) \<and> sp_maxOpen (sw_pool w') = sp_maxOpen (sw_pool w) \<and>
    sp_closed (sw_pool w') = sp_closed (sw_pool w) \<and> length (sw_alive w') \<le> length ss + length (sw_alive w) \<and>
    set (sw_alive w) \<union> set (sw_toClose w) \<subseteq> set (sw_alive w') \<union> set (sw_toClose w') \<and>
    (\<forall>s \<in> set ss. \<not> st_closed (h s) \<longrightarrow> s \<in> set (sw_alive w') \<union> set (sw_toClose w'))"
  using assms
proof (induction ss arbitrary: w)
  case (Cons s ss)
  let ?w = "maintain_one now h s w"
  have IH: "sp_dialing (sw_pool w') = sp_dialing (sw_pool ?w)" "sp_maxOpen (sw_pool w') = sp_maxOpen (sw_pool ?w)"
    "sp_closed (sw_pool w') = sp_closed (sw_pool ?w)" "length (sw_alive w') \<le> length ss + length (sw_alive ?w)"
    "set (sw_alive ?w) \<union> set (sw_toClose ?w) \<subseteq> set (sw_alive w') \<union> set (sw_toClose w')"
    "\<forall>s \<in> set ss. \<not> st_closed (h s) \<longrightarrow> s \<in> set (sw_alive w') \<union> set (sw_toClose w')"
    using Cons.IH[of ?w] Cons.prems by simp_all
  note one = maintain_one_inv[where now = now and h = h and s = s and w = w]
  have "length (sw_alive w') \<le> length (s # ss) + length (sw_alive w)" using IH(4) one(4) by simp
  moreover have "set (sw_alive w) \<union> set (sw_toClose w) \<subseteq> set (sw_alive w') \<union> set (sw_toClose w')"
    using IH(5) one(5) by blast
  moreover have "\<forall>t \<in> set (s # ss). \<not> st_closed (h t) \<longrightarrow> t \<in> set (sw_alive w') \<union> set (sw_toClose w')"
    using IH(5,6) one(6) by auto
  ultimately show ?case using IH(1,2,3) one(1,2,3) by simp
qed simp

lemma maintain_locked_effect:
  assumes "maintain_locked now h1 h2 p = (p', toClose, toPing)" "only_closes h1 h2"
    and closed: "sp_closed p \<Longrightarrow> sp_streams p = []"
  shows "sp_dialing p' = sp_dialing p" "sp_maxOpen p' = sp_maxOpen p"
    "length (sp_streams p') \<le> length (sp_streams p)" "sp_closed p' \<Longrightarrow> sp_streams p' = []"
    "s \<in> set (sp_streams p) \<Longrightarrow> \<not> st_closed (h2 s) \<Longrightarrow> s \<in> set (sp_streams p') \<union> set toClose"
proof -
  define ss where "ss = filter (\<lambda>s. Alive (h1 s)) (sp_streams p)"
  define w' where "w' = fold (maintain_one now h2) ss
    \<lparr>sw_pool = compactLocked h1 p, sw_alive = [], sw_toClose = [], sw_toPing = []\<rparr>"
  note f = maintain_fold[OF w'_def]
  have len: "length ss \<le> length (sp_streams p)" by (simp add: ss_def)
  have open': "\<not> sp_closed p \<Longrightarrow> p' = (sw_pool w')\<lparr>sp_streams := sw_alive w'\<rparr> \<and> toClose = sw_toClose w'"
    using assms(1) by (simp add: maintain_locked_def Let_def w'_def ss_def)
  have shut: "sp_closed p \<Longrightarrow> p' = p \<and> toClose = []" using assms(1) by (simp add: maintain_locked_def)
  have fs: "sp_dialing (sw_pool w') = sp_dialing p" "sp_maxOpen (sw_pool w') = sp_maxOpen p"
    "sp_closed (sw_pool w') = sp_closed p" "length (sw_alive w') \<le> length (sp_streams p)"
    using f len by simp_all
  consider (o) "\<not> sp_closed p" "p' = (sw_pool w')\<lparr>sp_streams := sw_alive w'\<rparr>" | (c) "sp_closed p" "p' = p"
    using open' shut by blast
  then have "sp_dialing p' = sp_dialing p \<and> sp_maxOpen p' = sp_maxOpen p \<and>
    length (sp_streams p') \<le> length (sp_streams p) \<and> (sp_closed p' \<longrightarrow> sp_streams p' = [])"
    by cases (use fs closed in simp_all)
  then show "sp_dialing p' = sp_dialing p" "sp_maxOpen p' = sp_maxOpen p"
    "length (sp_streams p') \<le> length (sp_streams p)" "sp_closed p' \<Longrightarrow> sp_streams p' = []" by simp_all
  show "s \<in> set (sp_streams p') \<union> set toClose" if "s \<in> set (sp_streams p)" "\<not> st_closed (h2 s)"
  proof -
    have o: "\<not> sp_closed p" using that(1) closed by auto
    have "s \<in> set ss" using that assms(2) by (auto simp: ss_def Alive_def only_closes_def)
    then show ?thesis using f that(2) open'[OF o] by simp
  qed
qed

lemma Get_locked_effect:
  assumes "Get_locked ctxErr h1 h2 h3 p = (p', next)"
  shows "p' = p \<and> next \<noteq> GetDial \<or> p' = compactLocked h1 p \<and> next \<noteq> GetDial \<or>
    next = GetDial \<and> \<not> sp_closed p \<and> occupancy (compactLocked h1 p) < sp_maxOpen p \<and>
    p' = (compactLocked h1 p)\<lparr>sp_dialing := sp_dialing p + 1\<rparr>"
proof (cases "sp_closed p \<or> ctxErr")
  case True
  then show ?thesis using assms by (auto simp: Get_locked_def split: if_splits)
next
  case False
  let ?p = "compactLocked h1 p"
  consider (reuse) s where "(p', next) = (?p, GetReturn (Inr s))" | (wait) "(p', next) = (?p, GetWait)"
    | (dial) "(p', next) = (?p\<lparr>sp_dialing := sp_dialing ?p + 1\<rparr>, GetDial)" "occupancy ?p < sp_maxOpen ?p"
    using assms False by (auto simp: Get_locked_def Let_def split: option.splits if_splits)
  then show ?thesis using False by cases auto
qed

lemma occupancy_compact: "occupancy (compactLocked h p) \<le> occupancy p"
  by (simp add: occupancy_def)

lemma compact_owned:
  assumes "only_closes h1 h" "s \<in> owned (sp_streams p) tc gs" "\<not> st_closed (h s)"
  shows "s \<in> owned (sp_streams (compactLocked h1 p)) tc gs"
  using assms by (auto simp: owned_def Alive_def only_closes_def)

lemma owned_getter:
  assumes "s \<in> owned ss tc gs" "gs g = Some x" "\<And>t. x \<noteq> Dialled t"
  shows "s \<in> owned ss tc (gs(g \<mapsto> x'))"
proof -
  have "(gs(g \<mapsto> x')) k = Some (Dialled s)" if "gs k = Some (Dialled s)" for k
    using that assms(2,3) by (cases "k = g") auto
  then show ?thesis using assms(1) by (auto simp: owned_def simp del: fun_upd_apply)
qed

lemma step_get:
  assumes inv: "pool_inv y" and g: "y_getters y g = Some Looping"
    and h: "only_closes (y_store y) h1" "only_closes h1 h2" "only_closes h2 h3"
    and get: "Get_locked ctxErr h1 h2 h3 (y_pool y) = (p', next)"
  shows "pool_inv (y\<lparr>y_pool := p', y_store := h3, y_getters := (y_getters y)(g \<mapsto> after_get next)\<rparr>)"
proof -
  let ?gs = "(y_getters y)(g \<mapsto> after_get next)"
  have h13: "only_closes h1 h3" and h03: "only_closes (y_store y) h3"
    using h by (blast intro: only_closes_trans)+
  have notin: "g \<notin> diallers (y_getters y)" using g by (simp add: diallers_def)
  have own: "s \<in> owned (sp_streams p'') (y_toClose y) ?gs"
    if "p'' = y_pool y \<or> sp_streams p'' = sp_streams (compactLocked h1 (y_pool y))"
      "s \<in> owned (sp_streams (y_pool y)) (y_toClose y) (y_getters y)" "\<not> st_closed (h3 s)" for p'' s
    using that(1) owned_getter[OF that(2) g] owned_getter[OF compact_owned[OF h13 that(2,3)] g] by auto
  show ?thesis
  proof (cases "next = GetDial")
    case False
    then have nd: "diallers ?gs = diallers (y_getters y)"
      using notin by (cases "next") (simp_all add: diallers_upd)
    have p': "p' = y_pool y \<or> p' = compactLocked h1 (y_pool y)" using Get_locked_effect[OF get] False by blast
    have len: "length (sp_streams p') \<le> length (sp_streams (y_pool y))" using p' by auto
    have "pool_inv (y\<lparr>y_pool := p', y_store := h3, y_getters := ?gs, y_toClose := y_toClose y\<rparr>)"
    proof (rule pool_keep[OF inv h03 _ _ len _ nd])
      show "s \<in> owned (sp_streams p') (y_toClose y) ?gs"
        if "s \<in> owned (sp_streams (y_pool y)) (y_toClose y) (y_getters y)" "\<not> st_closed (h3 s)" for s
        by (rule own[OF _ that]) (use p' in blast)
    qed (use p' pool_invD(4)[OF inv] in auto)
    then show ?thesis by simp
  next
    case True
    then have d: "\<not> sp_closed (y_pool y)" "occupancy (compactLocked h1 (y_pool y)) < sp_maxOpen (y_pool y)"
        "p' = (compactLocked h1 (y_pool y))\<lparr>sp_dialing := sp_dialing (y_pool y) + 1\<rparr>"
      using Get_locked_effect[OF get] by blast+
    have ds: "diallers ?gs = insert g (diallers (y_getters y))" using True by (simp add: diallers_upd)
    show ?thesis
    proof (rule pool_invI)
      fix s
      assume s: "s < y_next (y\<lparr>y_pool := p', y_store := h3, y_getters := ?gs\<rparr>)"
        "\<not> st_closed (y_store (y\<lparr>y_pool := p', y_store := h3, y_getters := ?gs\<rparr>) s)"
      then have "\<not> st_closed (y_store y s)" using h03 by (auto simp: only_closes_def)
      then show "s \<in> owned (sp_streams (y_pool (y\<lparr>y_pool := p', y_store := h3, y_getters := ?gs\<rparr>)))
          (y_toClose (y\<lparr>y_pool := p', y_store := h3, y_getters := ?gs\<rparr>)) (y_getters (y\<lparr>y_pool := p', y_store := h3, y_getters := ?gs\<rparr>))"
        using own[of p' s] pool_invD(5)[OF inv, of s] s d(3) by simp
    qed (use pool_invD(1,2)[OF inv] notin d ds in \<open>simp_all add: occupancy_def\<close>)
  qed
qed

lemma card_diallers_pos:
  assumes "pool_inv y" "g \<in> diallers (y_getters y)"
  shows "sp_dialing (y_pool y) > 0"
  using pool_invD(1,2)[OF assms(1)] assms(2) by (auto simp: card_gt_0_iff)

lemma leave_dial:
  assumes inv: "pool_inv y" and g: "g \<in> diallers (y_getters y)" and x: "x \<noteq> Dialling" "\<And>s. x \<noteq> Dialled s"
    and mono: "only_closes (y_store y) h'"
    and p': "sp_dialing p' = sp_dialing (y_pool y) - 1" "occupancy p' \<le> sp_maxOpen p'" "sp_closed p' \<Longrightarrow> sp_streams p' = []"
    and own: "\<And>s. s \<in> owned (sp_streams (y_pool y)) (y_toClose y) (y_getters y) \<Longrightarrow> \<not> st_closed (h' s) \<Longrightarrow>
      s \<in> owned (sp_streams p') (y_toClose y) ((y_getters y)(g \<mapsto> x))"
  shows "pool_inv (y\<lparr>y_pool := p', y_store := h', y_getters := (y_getters y)(g \<mapsto> x)\<rparr>)"
proof (rule pool_invI)
  let ?y = "y\<lparr>y_pool := p', y_store := h', y_getters := (y_getters y)(g \<mapsto> x)\<rparr>"
  have ds: "diallers (y_getters ?y) = diallers (y_getters y) - {g}" using x by (simp add: diallers_upd)
  show "finite (diallers (y_getters ?y))" using ds pool_invD(1)[OF inv] by simp
  have "card (diallers (y_getters y)) > 0" using pool_invD(1)[OF inv] g by (auto simp: card_gt_0_iff)
  then show "sp_dialing (y_pool ?y) = int (card (diallers (y_getters ?y)))"
    unfolding ds using pool_invD(1,2)[OF inv] g p'(1) by (simp add: card_Diff_singleton)
  show "s \<in> owned (sp_streams (y_pool ?y)) (y_toClose ?y) (y_getters ?y)"
    if "s < y_next ?y" "\<not> st_closed (y_store ?y s)" for s
    using own[of s] pool_invD(5)[OF inv, of s] that mono by (auto simp: only_closes_def)
qed (use p' in simp_all)

lemma step_dial_ok:
  assumes inv: "pool_inv y" and g: "y_getters y g = Some Dialling"
  shows "pool_inv (y\<lparr>y_pool := dialStream_ok (y_pool y), y_store := (y_store y)(y_next y := newStream now),
           y_next := y_next y + 1, y_getters := (y_getters y)(g \<mapsto> Dialled (y_next y))\<rparr>)" (is "pool_inv ?y")
proof (rule pool_invI)
  have ds: "diallers (y_getters ?y) = diallers (y_getters y)"
    using g by (simp add: diallers_upd) (simp add: diallers_def insert_absorb)
  show "finite (diallers (y_getters ?y))" unfolding ds by (rule pool_invD(1)[OF inv])
  show "sp_dialing (y_pool ?y) = int (card (diallers (y_getters ?y)))"
    unfolding ds using pool_invD(2)[OF inv] by (simp add: dialStream_ok_def)
  show "s \<in> owned (sp_streams (y_pool ?y)) (y_toClose ?y) (y_getters ?y)"
    if s: "s < y_next ?y" "\<not> st_closed (y_store ?y s)" for s
  proof (cases "s = y_next y")
    case True
    then show ?thesis by (auto simp: owned_def)
  next
    case False
    then have "s \<in> owned (sp_streams (y_pool y)) (y_toClose y) (y_getters y)"
      using s pool_invD(5)[OF inv, of s] by simp
    from owned_getter[OF this g] show ?thesis by (simp add: dialStream_ok_def)
  qed
qed (use pool_invD(3,4)[OF inv] in \<open>simp_all add: dialStream_ok_def occupancy_def\<close>)

lemma step_dial_fails:
  assumes inv: "pool_inv y" and g: "y_getters y g = Some Dialling"
    and d: "Get_dialed (Inl e) h1 h2 (y_pool y) = (p', c, r)"
  shows "pool_inv (y\<lparr>y_pool := p', y_getters := (y_getters y)(g \<mapsto> after_dial r)\<rparr>)"
proof -
  have p': "p' = (y_pool y)\<lparr>sp_dialing := sp_dialing (y_pool y) - 1\<rparr>" and r: "r = Some (Inl e)"
    using d by (simp_all add: Get_dialed_def)
  have gd: "g \<in> diallers (y_getters y)" using g by (simp add: diallers_def)
  have "pool_inv (y\<lparr>y_pool := p', y_store := y_store y, y_getters := (y_getters y)(g \<mapsto> GetDone (Inl e))\<rparr>)"
  proof (rule leave_dial[OF inv gd])
    show "s \<in> owned (sp_streams p') (y_toClose y) ((y_getters y)(g \<mapsto> GetDone (Inl e)))"
      if "s \<in> owned (sp_streams (y_pool y)) (y_toClose y) (y_getters y)" for s
      using owned_getter[OF that g] by (simp add: p')
  qed (use pool_invD(3,4)[OF inv] in \<open>simp_all add: p' occupancy_def\<close>)
  then show ?thesis by (simp add: r after_dial_def)
qed

text \<open>The limit holds before the dial ends, so the branch for a full pool is never taken.\<close>

lemma Get_dialed_effect:
  assumes "Get_dialed (Inr s) h1 h2 p = (p', (t, cnt), r)" "occupancy p \<le> sp_maxOpen p" "sp_dialing p > 0"
  shows "sp_closed p \<and> p' = p\<lparr>sp_dialing := sp_dialing p - 1\<rparr> \<and> t = Some s \<and> r = Some (Inl ErrPoolClosed) \<or>
    \<not> sp_closed p \<and> t = None \<and> r = Some (Inr s) \<and>
    p' = (compactLocked h1 (p\<lparr>sp_dialing := sp_dialing p - 1\<rparr>))\<lparr>sp_streams := filter (\<lambda>s. Alive (h1 s)) (sp_streams p) @ [s]\<rparr>"
proof -
  have "length (filter (\<lambda>s. Alive (h1 s)) (sp_streams p)) \<le> length (sp_streams p)" by simp
  then have "\<not> sp_maxOpen p \<le> int (length (filter (\<lambda>s. Alive (h1 s)) (sp_streams p)))"
    using assms(2,3) unfolding occupancy_def by linarith
  then show ?thesis using assms(1) by (auto simp: Get_dialed_def Let_def split: if_splits)
qed

lemma step_dialed:
  assumes inv: "pool_inv y" and g: "y_getters y g = Some (Dialled s)"
    and h: "only_closes (y_store y) h1" "only_closes h1 h2"
    and d: "Get_dialed (Inr s) h1 h2 (y_pool y) = (p', (t, cnt), r)"
  shows "pool_inv (y\<lparr>y_pool := p', y_store := close_stream t order h2, y_getters := (y_getters y)(g \<mapsto> after_dial r)\<rparr>)"
proof -
  have gd: "g \<in> diallers (y_getters y)" using g by (simp add: diallers_def)
  have h02: "only_closes (y_store y) h2" using h by (rule only_closes_trans)
  have x: "after_dial (Some z) \<noteq> Dialling" "after_dial (Some z) \<noteq> Dialled u" for z u by (simp_all add: after_dial_def)
  have other: "k \<in> owned ss tc ((y_getters y)(g \<mapsto> x))" if "k \<in> owned ss tc (y_getters y)" "k \<noteq> s" for k ss tc x
  proof -
    have "((y_getters y)(g \<mapsto> x)) j = Some (Dialled k)" if "y_getters y j = Some (Dialled k)" for j
      using that g \<open>k \<noteq> s\<close> by (cases "j = g") auto
    then show ?thesis using that(1) by (auto simp: owned_def simp del: fun_upd_apply)
  qed
  from Get_dialed_effect[OF d pool_invD(3)[OF inv] card_diallers_pos[OF inv gd]]
  consider (shut) "sp_closed (y_pool y)" "p' = (y_pool y)\<lparr>sp_dialing := sp_dialing (y_pool y) - 1\<rparr>" "t = Some s"
      "r = Some (Inl ErrPoolClosed)"
    | (open') "\<not> sp_closed (y_pool y)" "t = None" "r = Some (Inr s)"
      "p' = (compactLocked h1 ((y_pool y)\<lparr>sp_dialing := sp_dialing (y_pool y) - 1\<rparr>))
         \<lparr>sp_streams := filter (\<lambda>s. Alive (h1 s)) (sp_streams (y_pool y)) @ [s]\<rparr>"
    by blast
  then show ?thesis
  proof cases
    case shut
    have mono: "only_closes (y_store y) (close_stream t order h2)"
      by (rule only_closes_trans[OF h02 close_stream_only_closes])
    show ?thesis unfolding shut(4)
    proof (rule leave_dial[OF inv gd x mono])
      show "k \<in> owned (sp_streams p') (y_toClose y) ((y_getters y)(g \<mapsto> after_dial (Some (Inl ErrPoolClosed))))"
        if "k \<in> owned (sp_streams (y_pool y)) (y_toClose y) (y_getters y)" "\<not> st_closed (close_stream t order h2 k)" for k
        using that other[of k] shut(2,3) by (auto simp: close_stream_def split: if_splits)
    qed (use pool_invD(3,4)[OF inv] shut in \<open>simp_all add: occupancy_def\<close>)
  next
    case open'
    have len: "length (filter (\<lambda>s. Alive (h1 s)) (sp_streams (y_pool y))) \<le> length (sp_streams (y_pool y))" by simp
    show ?thesis unfolding open'(2,3) close_stream_def option.case
    proof (rule leave_dial[OF inv gd x h02])
      show "k \<in> owned (sp_streams p') (y_toClose y) ((y_getters y)(g \<mapsto> after_dial (Some (Inr s))))"
        if k: "k \<in> owned (sp_streams (y_pool y)) (y_toClose y) (y_getters y)" "\<not> st_closed (h2 k)" for k
      proof (cases "k = s")
        case True
        then show ?thesis by (simp add: open'(4) owned_def)
      next
        case False
        from other[OF compact_owned[OF h(2) k] this]
        show ?thesis by (auto simp: open'(4) owned_def)
      qed
      show "occupancy p' \<le> sp_maxOpen p'"
      proof -
        have "int (length (filter (\<lambda>s. Alive (h1 s)) (sp_streams (y_pool y)))) + sp_dialing (y_pool y) \<le> sp_maxOpen (y_pool y)"
          using len pool_invD(3)[OF inv] unfolding occupancy_def by linarith
        then show ?thesis by (simp add: open'(4) occupancy_def)
      qed
    qed (use open' in simp_all)
  qed
qed

lemma pool_step_inv: "pool_step y y' \<Longrightarrow> pool_inv y \<Longrightarrow> pool_inv y'"
proof (induction rule: pool_step.induct)
  case (streams_change y h')
  have "pool_inv (y\<lparr>y_pool := y_pool y, y_store := h', y_getters := y_getters y, y_toClose := y_toClose y\<rparr>)"
    by (rule pool_keep[OF streams_change(2,1)]) (use pool_invD(4)[OF streams_change(2)] in auto)
  then show ?case by simp
next
  case (call_get y g)
  let ?gs = "(y_getters y)(g \<mapsto> Looping)"
  have ds: "diallers ?gs = diallers (y_getters y)" using call_get(1) by (auto simp: diallers_def)
  have own: "s \<in> owned ss tc ?gs" if "s \<in> owned ss tc (y_getters y)" for s ss tc
  proof -
    have "?gs k = Some (Dialled s)" if "y_getters y k = Some (Dialled s)" for k
      using that call_get(1) by (cases "k = g") auto
    then show ?thesis using that by (auto simp: owned_def simp del: fun_upd_apply)
  qed
  have "pool_inv (y\<lparr>y_pool := y_pool y, y_store := y_store y, y_getters := ?gs, y_toClose := y_toClose y\<rparr>)"
    by (rule pool_keep[OF call_get(2) _ _ _ _ _ ds]) (use pool_invD(4)[OF call_get(2)] own in auto)
  then show ?case by simp
next
  case (get_pass y g h1 h2 h3 ctxErr p' "next")
  then show ?case by (intro step_get)
next
  case (dial_ok y g now)
  then show ?case by (intro step_dial_ok)
next
  case (dial_fails y g e h1 h2 p' c r)
  then show ?case by (intro step_dial_fails)
next
  case (dialed y g s h1 h2 p' t cnt r order)
  then show ?case by (intro step_dialed)
next
  case (wake y g ctxErr)
  define x where "x = (case waitLocked_woken ctxErr (y_pool y) of None \<Rightarrow> Looping | Some e \<Rightarrow> GetDone (Inl e))"
  have x: "x \<noteq> Dialling" "x \<noteq> Dialled s" for s by (simp_all add: x_def split: option.split)
  then have ds: "diallers ((y_getters y)(g \<mapsto> x)) = diallers (y_getters y)"
    using wake(1) by (simp add: diallers_upd) (simp add: diallers_def)
  have "pool_inv (y\<lparr>y_pool := y_pool y, y_store := y_store y, y_getters := (y_getters y)(g \<mapsto> x), y_toClose := y_toClose y\<rparr>)"
  proof (rule pool_keep[OF wake(2) _ _ _ _ _ ds])
    show "s \<in> owned (sp_streams (y_pool y)) (y_toClose y) ((y_getters y)(g \<mapsto> x))"
      if "s \<in> owned (sp_streams (y_pool y)) (y_toClose y) (y_getters y)" for s
      using owned_getter[OF that wake(1)] by simp
  qed (use pool_invD(4)[OF wake(2)] in simp_all)
  then show ?case by (simp add: x_def)
next
  case (maintain y h1 h2 now p' toClose toPing)
  note m = maintain_locked_effect[OF maintain(3,2) pool_invD(4)[OF maintain(4)]]
  have "pool_inv (y\<lparr>y_pool := p', y_store := h2, y_getters := y_getters y, y_toClose := y_toClose y @ toClose\<rparr>)"
  proof (rule pool_keep[OF maintain(4) only_closes_trans[OF maintain(1,2)] m(1-4) refl])
    show "s \<in> owned (sp_streams p') (y_toClose y @ toClose) (y_getters y)"
      if "s \<in> owned (sp_streams (y_pool y)) (y_toClose y) (y_getters y)" "\<not> st_closed (h2 s)" for s
      using that m(5)[of s] by (auto simp: owned_def)
  qed
  then show ?case by simp
next
  case (close_one y s rest order)
  have "pool_inv (y\<lparr>y_pool := y_pool y, y_store := close_stream (Some s) order (y_store y), y_getters := y_getters y, y_toClose := rest\<rparr>)"
    by (rule pool_keep[OF close_one(2) close_stream_only_closes])
      (use pool_invD(4)[OF close_one(2)] close_one(1) in \<open>auto simp: owned_def close_stream_def split: if_splits\<close>)
  then show ?case by simp
next
  case (ping_done err y s)
  define p' where "p' = pingOne_end err s (y_pool y)"
  have p': "sp_dialing p' = sp_dialing (y_pool y)" "sp_maxOpen p' = sp_maxOpen (y_pool y)"
    "length (sp_streams p') \<le> length (sp_streams (y_pool y))" "sp_closed p' = sp_closed (y_pool y)"
    "set (sp_streams (y_pool y)) \<subseteq> set (sp_streams p') \<union> {k. k = s \<and> err \<noteq> None}"
    by (auto simp: p'_def pingOne_end_def removeLocked_def)
  have "pool_inv (y\<lparr>y_pool := p', y_store := y_store y, y_getters := y_getters y, y_toClose := y_toClose y\<rparr>)"
  proof (rule pool_keep[OF ping_done(2) only_closes_refl p'(1-3) _ refl])
    show "sp_streams p' = []" if "sp_closed p'" using p'(3,4) pool_invD(4)[OF ping_done(2)] that by simp
    show "k \<in> owned (sp_streams p') (y_toClose y) (y_getters y)"
      if "k \<in> owned (sp_streams (y_pool y)) (y_toClose y) (y_getters y)" "\<not> st_closed (y_store y k)" for k
      using that p'(5) ping_done(1) by (auto simp: owned_def)
  qed
  then show ?case by (simp add: p'_def)
next
  case (close_pool y p' toClose)
  have "pool_inv (y\<lparr>y_pool := p', y_store := y_store y, y_getters := y_getters y, y_toClose := y_toClose y @ toClose\<rparr>)"
    by (rule pool_keep[OF close_pool(2)])
      (use close_pool(1) pool_invD(4)[OF close_pool(2)] in \<open>auto simp: pool_Close_def owned_def split: if_splits\<close>)
  then show ?case by simp
next
  case (stats y h1 h2)
  have p: "fst (pool_Stats h1 h2 (y_pool y)) = compactLocked h1 (y_pool y)" by (simp add: pool_Stats_def Let_def)
  have "pool_inv (y\<lparr>y_pool := compactLocked h1 (y_pool y), y_store := h2, y_getters := y_getters y, y_toClose := y_toClose y\<rparr>)"
    by (rule pool_keep[OF stats(3) only_closes_trans[OF stats(1,2)]])
      (use pool_invD(4)[OF stats(3)] compact_owned[OF stats(2)] in auto)
  then show ?case by (simp add: p)
qed

lemma pool_reachable_inv: "pool_reachable o' y \<Longrightarrow> pool_inv y"
proof (induction rule: pool_reachable.induct)
  case pool_init
  then show ?case
    by (intro pool_invI) (simp_all add: init_psys_def newStreamPool_def diallers_def occupancy_def)
next
  case (pool_next y y')
  then show ?case by (blast intro: pool_step_inv)
qed

lemma pool_step_maxOpen: "pool_step y y' \<Longrightarrow> pool_inv y \<Longrightarrow> sp_maxOpen (y_pool y') = sp_maxOpen (y_pool y)"
proof (induction rule: pool_step.induct)
  case (get_pass y g h1 h2 h3 ctxErr p' "next")
  show ?case using Get_locked_effect[OF get_pass(5)] by auto
next
  case (dialed y g s h1 h2 p' t cnt r order)
  have "sp_dialing (y_pool y) > 0"
    by (rule card_diallers_pos[OF dialed(5), of g]) (use dialed(1) in \<open>simp add: diallers_def\<close>)
  then show ?case using Get_dialed_effect[OF dialed(4) pool_invD(3)[OF dialed(5)]] by auto
next
  case (maintain y h1 h2 now p' toClose toPing)
  then show ?case using maintain_locked_effect(2)[OF maintain(3,2) pool_invD(4)[OF maintain(4)]] by simp
qed (auto simp: dialStream_ok_def Get_dialed_def pingOne_end_def removeLocked_def pool_Close_def pool_Stats_def Let_def
      split: if_splits)

lemma pool_reachable_maxOpen: "pool_reachable o' y \<Longrightarrow> sp_maxOpen (y_pool y) = max 1 (maxOpenConns o')"
proof (induction rule: pool_reachable.induct)
  case (pool_next y y')
  then show ?case using pool_step_maxOpen[OF pool_next(2) pool_reachable_inv] by simp
qed (simp add: init_psys_def newStreamPool_def)

section \<open>A concrete run\<close>

text \<open>A caller dials, the pool is closed meanwhile, and the caller comes back with its stream.\<close>

definition run_dial :: psys where
  "run_dial = (init_psys defaultClientOptions)\<lparr>
     y_pool := (newStreamPool defaultClientOptions)\<lparr>sp_dialing := 1\<rparr>, y_getters := [0 \<mapsto> Dialling]\<rparr>"

definition run_shut :: psys where
  "run_shut = run_dial\<lparr>y_pool := fst (pool_Close (dialStream_ok (y_pool run_dial))),
     y_next := 1, y_getters := [0 \<mapsto> Dialled 0]\<rparr>"

definition run_end :: psys where
  "run_end = run_shut\<lparr>y_pool := (y_pool run_shut)\<lparr>sp_dialing := 0\<rparr>,
     y_store := close_stream (Some 0) [] (y_store run_shut),
     y_getters := [0 \<mapsto> GetDone (Inl ErrPoolClosed)]\<rparr>"

lemma compact_new: "compactLocked h (newStreamPool o') = newStreamPool o'"
  by (simp add: compactLocked_def newStreamPool_def)

lemma reachable_run_dial: "pool_reachable defaultClientOptions run_dial"
proof -
  let ?o = defaultClientOptions
  let ?y0 = "init_psys ?o" and ?y1 = "(init_psys ?o)\<lparr>y_getters := [0 \<mapsto> Looping]\<rparr>"
  have "pool_step ?y0 (?y0\<lparr>y_getters := (y_getters ?y0)(0 \<mapsto> Looping)\<rparr>)"
    by (rule pool_step.call_get) (simp add: init_psys_def)
  then have "pool_step ?y0 ?y1" by (simp add: init_psys_def)
  then have r1: "pool_reachable ?o ?y1" by (rule pool_next[OF pool_init])
  have get: "Get_locked False h h h (newStreamPool ?o) = ((newStreamPool ?o)\<lparr>sp_dialing := 1\<rparr>, GetDial)" for h
    by (simp add: Get_locked_def Let_def compact_new)
      (simp add: newStreamPool_def defaultClientOptions_def pickLocked_def occupancy_def)
  have "pool_step ?y1 (?y1\<lparr>y_pool := (newStreamPool ?o)\<lparr>sp_dialing := 1\<rparr>, y_store := y_store ?y1,
      y_getters := (y_getters ?y1)(0 \<mapsto> after_get GetDial)\<rparr>)"
    by (rule pool_step.get_pass[where ctxErr = False and ?h1.0 = "y_store ?y1" and ?h2.0 = "y_store ?y1"])
      (simp_all add: init_psys_def get)
  from pool_next[OF r1 this] show ?thesis by (simp add: run_dial_def init_psys_def)
qed

lemma reachable_run_shut: "pool_reachable defaultClientOptions run_shut"
proof -
  let ?y = "run_dial\<lparr>y_pool := dialStream_ok (y_pool run_dial), y_store := (y_store run_dial)(y_next run_dial := newStream 0),
    y_next := y_next run_dial + 1, y_getters := (y_getters run_dial)(0 \<mapsto> Dialled (y_next run_dial))\<rparr>"
  have "pool_step run_dial ?y" by (rule pool_step.dial_ok) (simp add: run_dial_def)
  then have r: "pool_reachable defaultClientOptions ?y" by (rule pool_next[OF reachable_run_dial])
  have "pool_step ?y (?y\<lparr>y_pool := fst (pool_Close (y_pool ?y)), y_toClose := y_toClose ?y @ snd (pool_Close (y_pool ?y))\<rparr>)"
    by (rule pool_step.close_pool) simp
  from pool_next[OF r this] show ?thesis
    by (simp add: run_shut_def run_dial_def init_psys_def newStreamPool_def dialStream_ok_def pool_Close_def fun_eq_iff fun_upd_idem)
qed

lemma run_end_reachable: "pool_reachable defaultClientOptions run_end"
proof -
  let ?h = "y_store run_shut" and ?p = "(y_pool run_shut)\<lparr>sp_dialing := 0\<rparr>"
  have d: "Get_dialed (Inr 0) ?h ?h (y_pool run_shut) = (?p, (Some 0, False), Some (Inl ErrPoolClosed))"
    by (simp add: Get_dialed_def run_shut_def run_dial_def pool_Close_def newStreamPool_def dialStream_ok_def)
  have "pool_step run_shut (run_shut\<lparr>y_pool := ?p, y_store := close_stream (Some 0) [] ?h,
      y_getters := (y_getters run_shut)(0 \<mapsto> after_dial (Some (Inl ErrPoolClosed)))\<rparr>)"
    by (rule pool_step.dialed[OF _ _ _ d]) (simp_all add: run_shut_def)
  from pool_next[OF reachable_run_shut this] show ?thesis by (simp add: run_end_def after_dial_def run_shut_def)
qed

section \<open>Properties\<close>



text \<open>
  C5: No stream is leaked: when the pool is closed, the streams taken off its list have been
  closed and no caller is between its two critical sections, every stream the pool has ever
  dialled is closed, also one whose dial ended after the pool was closed.
\<close>

theorem pool_no_leak:
  assumes "pool_reachable o' y" "sp_closed (y_pool y)" "y_toClose y = []" "diallers (y_getters y) = {}" "s < y_next y"
  shows "\<not> Alive (y_store y s)"
proof -
  note inv = pool_reachable_inv[OF assms(1)]
  have "s \<notin> owned (sp_streams (y_pool y)) (y_toClose y) (y_getters y)"
    using pool_invD(4)[OF inv assms(2)] assms(3,4) by (auto simp: owned_def diallers_def)
  then show ?thesis using pool_invD(5)[OF inv assms(5)] by (auto simp: Alive_def)
qed

theorem pool_no_leak_witness: "\<not> Alive (y_store run_end 0)"
  by (rule pool_no_leak[OF run_end_reachable])
    (simp_all add: run_end_def run_shut_def run_dial_def init_psys_def pool_Close_def newStreamPool_def
      dialStream_ok_def diallers_def)

end
