(* ===== verification/NetClient.thy ===== *)
theory NetClient
  imports StreamPool
begin

text \<open>
  The RPC client: \<^verbatim>\<open>micro/net/client.go\<close>. A call picks a node, runs on a stream of that node's
  pool and is retried on transport errors. The world \<open>'w\<close> holds the pools, the clock and the
  context of the caller; its record of operations says what opening or closing a pool and
  running a request on it do. Refreshing the nodes while a call is under way is not modelled.
\<close>

section \<open>State\<close>

record Client =
  cl_network :: string
  cl_address :: string
  cl_opts :: clientOptions
  cl_nodes :: "endpointNode list"
  cl_pools :: "nat list"   \<comment> \<open>the pool of each node\<close>
  cl_balancer :: Balancer
  cl_closed :: bool
  cl_reqID :: u64

text \<open>What \<^verbatim>\<open>pool.Get\<close> and \<^verbatim>\<open>stream.Call\<close> return for the chosen node.\<close>

datatype outcome = GetFailed client_error | CallFailed client_error | CallOk Response

text \<open>
  The operations on the world. A deadline is an optional point in time; \<open>ev_wait\<close> waits for a
  duration and says whether the context ended first.
\<close>

record 'w env =
  ev_newPool :: "clientOptions \<Rightarrow> string \<Rightarrow> 'w \<Rightarrow> 'w \<times> nat"
  ev_closePool :: "nat \<Rightarrow> 'w \<Rightarrow> 'w"
  ev_poolStats :: "nat \<Rightarrow> 'w \<Rightarrow> 'w \<times> PoolStats"
  ev_exec :: "int option \<Rightarrow> nat \<Rightarrow> Request \<Rightarrow> 'w \<Rightarrow> 'w \<times> outcome"
  ev_now :: "'w \<Rightarrow> int"
  ev_rand :: "'w \<Rightarrow> nat \<Rightarrow> nat"
  ev_ctxDone :: "'w \<Rightarrow> bool"
  ev_wait :: "int option \<Rightarrow> int \<Rightarrow> 'w \<Rightarrow> 'w \<times> bool"
  ev_dns :: "'w \<Rightarrow> resolver"

definition ctxErr :: "'w env \<Rightarrow> int option \<Rightarrow> 'w \<Rightarrow> bool" where
  "ctxErr ev deadline w =
     (ev_ctxDone ev w \<or> (case deadline of None \<Rightarrow> False | Some d \<Rightarrow> d \<le> ev_now ev w))"

section \<open>Construction\<close>

definition buildEndpoints ::
  "resolver \<Rightarrow> string \<Rightarrow> string \<Rightarrow> clientOptions \<Rightarrow> client_error + Endpoint list" where
  "buildEndpoints dns network address o' =
     (case (if address \<noteq> '''' then parseEndpointList address else Inr []) of
        Inl e \<Rightarrow> Inl (EndpointError e)
      | Inr eps \<Rightarrow>
          (let eps = mergeEndpoints eps (extraEndpoints o')
           in if eps = [] then Inl NoEndpointsConfigured
              else if dnsResolve o' then
                (case resolveEndpoints (Some (case co_resolver o' of None \<Rightarrow> dns | Some r \<Rightarrow> r)) network eps of
                   Inl e \<Rightarrow> Inl (EndpointError e)
                 | Inr resolved \<Rightarrow> Inr resolved)
              else Inr eps))"

primrec newNodes :: "'w env \<Rightarrow> clientOptions \<Rightarrow> Endpoint list \<Rightarrow> 'w \<Rightarrow> 'w \<times> endpointNode list \<times> nat list" where
  "newNodes ev o' [] w = (w, [], [])"
| "newNodes ev o' (ep # eps) w =
     (let (w, pool) = ev_newPool ev o' (ep_Addr ep) w;
          (w, ns, pools) = newNodes ev o' eps w
      in (w, new_endpointNode ep # ns, pool # pools))"

definition NewClient :: "'w env \<Rightarrow> string \<Rightarrow> string \<Rightarrow> ClientOption list \<Rightarrow> 'w \<Rightarrow> 'w \<times> Client" where
  "NewClient ev network address opts w =
     (let o' = fold (\<lambda>opt o'. opt o') opts defaultClientOptions;
          b = (case co_balancer o' of None \<Rightarrow> NewBalancer PolicyRoundRobin | Some b \<Rightarrow> b);
          eps = (case buildEndpoints (ev_dns ev w) network address o' of
                   Inr eps \<Rightarrow> eps
                 | Inl _ \<Rightarrow> (case parseOneEndpoint address of Inr ep \<Rightarrow> [ep] | Inl _ \<Rightarrow> []));
          (w, ns, pools) = newNodes ev o' eps w
      in (w, \<lparr>cl_network = network, cl_address = address, cl_opts = o', cl_nodes = ns, cl_pools = pools,
              cl_balancer = b, cl_closed = False, cl_reqID = 0\<rparr>))"

definition nextRequestID :: "Client \<Rightarrow> Client \<times> u64" where
  "nextRequestID c = (let n = cl_reqID c + 1 in (c\<lparr>cl_reqID := n\<rparr>, n))"

section \<open>Calls\<close>

fun is_business :: "client_error \<Rightarrow> bool" where
  "is_business (StreamError (ErrRemoteCall e)) = True"
| "is_business _ = False"

fun is_ctx :: "client_error \<Rightarrow> bool" where
  "is_ctx (StreamError ErrCtx) = True"
| "is_ctx _ = False"

definition upd_node :: "nat \<Rightarrow> (endpointNode \<Rightarrow> endpointNode) \<Rightarrow> Client \<Rightarrow> Client" where
  "upd_node i f c = c\<lparr>cl_nodes := (cl_nodes c)[i := f (cl_nodes c ! i)]\<rparr>"

definition doCall ::
  "'w env \<Rightarrow> int option \<Rightarrow> Request \<Rightarrow> 'w \<times> Client \<Rightarrow> ('w \<times> Client) \<times> (client_error + Response)" where
  "doCall ev deadline req = (\<lambda>(w, c).
     if ctxErr ev deadline w then ((w, c), Inl (StreamError ErrCtx))
     else
       (let (b, picked) = pickNode (Pick (ev_rand ev w)) (ev_now ev w) (cl_nodes c) (cl_balancer c);
            c = c\<lparr>cl_balancer := b\<rparr>
        in case picked of
             None \<Rightarrow> ((w, c), Inl ErrNoEndpoint)
           | Some i \<Rightarrow>
               (let c = upd_node i reserve c;
                    (w, out) = ev_exec ev deadline (cl_pools c ! i) req w;
                    failed = MarkFailure (ev_now ev w) (healthThreshold (cl_opts c)) (healthCooldown (cl_opts c));
                    (mark, res) = (case out of
                        GetFailed e \<Rightarrow> (failed, Inl e)
                      | CallFailed e \<Rightarrow>
                          if is_business e then (MarkSuccess, Inl e)
                          else if is_ctx e then (id, Inl e)
                          else (failed, Inl e)
                      | CallOk resp \<Rightarrow> (MarkSuccess, Inr resp))
                in ((w, upd_node i unreserve (upd_node i mark c)), res))))"

text \<open>The retry loop; the number is how many attempts are left after this one.\<close>

fun call_loop ::
  "'w env \<Rightarrow> int option \<Rightarrow> nat \<Rightarrow> Request \<Rightarrow> 'w \<times> Client \<Rightarrow> ('w \<times> Client) \<times> (client_error + Response)" where
  "call_loop ev deadline left req s =
     (case doCall ev deadline req s of
        ((w, c), Inr resp) \<Rightarrow> ((w, c), Inr resp)
      | ((w, c), Inl e) \<Rightarrow>
          if is_business e \<or> is_ctx e then ((w, c), Inl e)
          else (case left of
                  0 \<Rightarrow> ((w, c), Inl e)
                | Suc left' \<Rightarrow>
                    (let (w, ended) = ev_wait ev deadline (retryBackoff (cl_opts c)) w
                     in if ended then ((w, c), Inl (StreamError ErrCtx))
                        else call_loop ev deadline left' req (w, c))))"

declare call_loop.simps [simp del]

text \<open>\<^verbatim>\<open>Call\<close> writes the id it draws into the caller's request, which is returned as well.\<close>

definition Call ::
  "'w env \<Rightarrow> Request \<Rightarrow> 'w \<times> Client \<Rightarrow> ('w \<times> Client) \<times> Request \<times> (client_error + Response)" where
  "Call ev req = (\<lambda>(w, c).
     if cl_closed c then ((w, c), req, Inl ErrPoolClosed)
     else if ctxErr ev None w then ((w, c), req, Inl (StreamError ErrCtx))
     else
       (let deadline = (if requestTimeout (cl_opts c) > 0 then Some (ev_now ev w + requestTimeout (cl_opts c)) else None);
            (c, req) = (if rq_RequestID req = 0
                        then (let (c, n) = nextRequestID c in (c, req\<lparr>rq_RequestID := n\<rparr>)) else (c, req));
            maxAttempts = (if retryAttempts (cl_opts c) < 0 then 0 else retryAttempts (cl_opts c));
            (s, res) = call_loop ev deadline (nat maxAttempts) req (w, c)
        in (s, req, res)))"

definition Communicate :: "'w env \<Rightarrow> bytes \<Rightarrow> 'w \<times> Client \<Rightarrow> ('w \<times> Client) \<times> (client_error + bytes)" where
  "Communicate ev data s =
     (case Call ev \<lparr>rq_RequestID = 0, rq_Header = [], rq_Body = data, rq_OneWay = False\<rparr> s of
        (s, _, Inl e) \<Rightarrow> (s, Inl e)
      | (s, _, Inr resp) \<Rightarrow>
          (case rp_Error resp of Some e \<Rightarrow> (s, Inl (ResponseError e)) | None \<Rightarrow> (s, Inr (rp_Body resp))))"

definition Send :: "'w env \<Rightarrow> bytes \<Rightarrow> 'w \<times> Client \<Rightarrow> ('w \<times> Client) \<times> client_error option" where
  "Send ev data s =
     (case Call ev \<lparr>rq_RequestID = 0, rq_Header = [], rq_Body = data, rq_OneWay = True\<rparr> s of
        (s, _, Inl e) \<Rightarrow> (s, Some e)
      | (s, _, Inr resp) \<Rightarrow> (s, None))"

section \<open>Nodes\<close>

definition close_pools :: "'w env \<Rightarrow> nat list \<Rightarrow> 'w \<Rightarrow> 'w" where
  "close_pools ev pools w = fold (ev_closePool ev) pools w"

definition client_Resolve :: "'w env \<Rightarrow> 'w \<times> Client \<Rightarrow> ('w \<times> Client) \<times> client_error option" where
  "client_Resolve ev = (\<lambda>(w, c).
     if cl_closed c then ((w, c), Some ErrPoolClosed)
     else case buildEndpoints (ev_dns ev w) (cl_network c) (cl_address c) (cl_opts c) of
         Inl e \<Rightarrow> ((w, c), Some e)
       | Inr eps \<Rightarrow>
           (let (w, ns, pools) = newNodes ev (cl_opts c) eps w
            in ((close_pools ev (cl_pools c) w, c\<lparr>cl_nodes := ns, cl_pools := pools\<rparr>), None)))"

definition Endpoints :: "Client \<Rightarrow> string list" where
  "Endpoints c = map Addr (cl_nodes c)"

definition EndpointStats_of :: "int \<Rightarrow> Client \<Rightarrow> EndpointStats list" where
  "EndpointStats_of now c = map (Stats now) (cl_nodes c)"

definition add_stats :: "PoolStats \<Rightarrow> PoolStats \<Rightarrow> PoolStats" where
  "add_stats st p =
     \<lparr>ps_Open = ps_Open st + ps_Open p, ps_DialCount = ps_DialCount st + ps_DialCount p,
      ps_ClosedIdle = ps_ClosedIdle st + ps_ClosedIdle p, ps_ClosedLife = ps_ClosedLife st + ps_ClosedLife p,
      ps_ClosedBad = ps_ClosedBad st + ps_ClosedBad p, ps_HeartbeatOK = ps_HeartbeatOK st + ps_HeartbeatOK p,
      ps_HeartbeatErr = ps_HeartbeatErr st + ps_HeartbeatErr p,
      ps_TotalInflight = ps_TotalInflight st + ps_TotalInflight p\<rparr>"

definition client_Stats :: "'w env \<Rightarrow> 'w \<times> Client \<Rightarrow> 'w \<times> PoolStats" where
  "client_Stats ev = (\<lambda>(w, c).
     fold (\<lambda>pool (w, st). let (w, p) = ev_poolStats ev pool w in (w, add_stats st p)) (cl_pools c)
       (w, \<lparr>ps_Open = 0, ps_DialCount = 0, ps_ClosedIdle = 0, ps_ClosedLife = 0, ps_ClosedBad = 0,
            ps_HeartbeatOK = 0, ps_HeartbeatErr = 0, ps_TotalInflight = 0\<rparr>))"

definition client_Close :: "'w env \<Rightarrow> 'w \<times> Client \<Rightarrow> 'w \<times> Client" where
  "client_Close ev = (\<lambda>(w, c).
     if cl_closed c then (w, c)
     else (close_pools ev (cl_pools c) w, c\<lparr>cl_closed := True, cl_nodes := [], cl_pools := []\<rparr>))"

section \<open>What a call does to the nodes\<close>

definition reserved_of :: "Client \<Rightarrow> 32 word list" where
  "reserved_of c = map en_reserved (cl_nodes c)"

lemma reserved_upd:
  assumes "\<And>n. en_reserved (f n) = en_reserved n + d"
  shows "reserved_of (upd_node i f c) = (reserved_of c)[i := reserved_of c ! i + d]"
  using assms
  by (cases "i < length (cl_nodes c)") (simp_all add: reserved_of_def upd_node_def map_update list_update_beyond)

lemma mark_reserved [simp]:
  "en_reserved (MarkSuccess n) = en_reserved n" "en_reserved (MarkFailure now t k n) = en_reserved n"
  by (simp_all add: MarkSuccess_def MarkFailure_def Let_def)

lemma upd_node_fields [simp]:
  "cl_opts (upd_node i f c) = cl_opts c" "cl_pools (upd_node i f c) = cl_pools c"
  "length (cl_nodes (upd_node i f c)) = length (cl_nodes c)" "cl_closed (upd_node i f c) = cl_closed c"
  by (simp_all add: upd_node_def)

lemma reserved_bracket:
  assumes "\<And>n. en_reserved (mark n) = en_reserved n"
  shows "reserved_of (upd_node i unreserve (upd_node i mark (upd_node i reserve c))) = reserved_of c"
proof -
  have r: "reserved_of (upd_node i reserve c) = (reserved_of c)[i := reserved_of c ! i + 1]"
    by (rule reserved_upd) (simp add: reserve_def)
  have m: "reserved_of (upd_node i mark d) = reserved_of d" for d
    using reserved_upd[of mark 0 i d] assms by simp
  have u: "reserved_of (upd_node i unreserve d) = (reserved_of d)[i := reserved_of d ! i - 1]" for d
    using reserved_upd[of unreserve "- 1" i d] by (simp add: unreserve_def)
  have len: "length (reserved_of c) = length (cl_nodes c)" by (simp add: reserved_of_def)
  show ?thesis unfolding u m r by (cases "i < length (cl_nodes c)") (simp_all add: len list_update_beyond)
qed

text \<open>A world that also counts the requests that reached a pool.\<close>

definition counted :: "'w env \<Rightarrow> (nat \<times> 'w) env" where
  "counted ev =
     \<lparr>ev_newPool = (\<lambda>o' a (k, w). let (w, p) = ev_newPool ev o' a w in ((k, w), p)),
      ev_closePool = (\<lambda>p (k, w). (k, ev_closePool ev p w)),
      ev_poolStats = (\<lambda>p (k, w). let (w, st) = ev_poolStats ev p w in ((k, w), st)),
      ev_exec = (\<lambda>d p req (k, w). let (w, out) = ev_exec ev d p req w in ((k + 1, w), out)),
      ev_now = (\<lambda>(k, w). ev_now ev w), ev_rand = (\<lambda>(k, w). ev_rand ev w),
      ev_ctxDone = (\<lambda>(k, w). ev_ctxDone ev w),
      ev_wait = (\<lambda>d t (k, w). let (w, b) = ev_wait ev d t w in ((k, w), b)),
      ev_dns = (\<lambda>(k, w). ev_dns ev w)\<rparr>"

lemma counted_ctxErr [simp]: "ctxErr (counted ev) d (k, w) = ctxErr ev d w"
  by (cases d) (simp_all add: ctxErr_def counted_def)

lemma counted_simps [simp]:
  "ev_now (counted ev) (k, w) = ev_now ev w"
  "ev_rand (counted ev) (k, w) = ev_rand ev w"
  "ev_exec (counted ev) d p req (k, w) = ((k + 1, fst (ev_exec ev d p req w)), snd (ev_exec ev d p req w))"
  "ev_wait (counted ev) d t (k, w) = ((k, fst (ev_wait ev d t w)), snd (ev_wait ev d t w))"
  by (simp_all add: counted_def split_def Let_def)

text \<open>The client after an attempt that ran on node \<open>i\<close>.\<close>

definition attempted :: "nat \<Rightarrow> (endpointNode \<Rightarrow> endpointNode) \<Rightarrow> Balancer \<Rightarrow> Client \<Rightarrow> Client" where
  "attempted i mark b c = upd_node i unreserve (upd_node i mark (upd_node i reserve (c\<lparr>cl_balancer := b\<rparr>)))"

definition failing :: "'w env \<Rightarrow> Client \<Rightarrow> 'w \<Rightarrow> endpointNode \<Rightarrow> endpointNode" where
  "failing ev c w = MarkFailure (ev_now ev w) (healthThreshold (cl_opts c)) (healthCooldown (cl_opts c))"

definition verdict ::
  "'w env \<Rightarrow> Client \<Rightarrow> 'w \<Rightarrow> outcome \<Rightarrow> (endpointNode \<Rightarrow> endpointNode) \<times> (client_error + Response)" where
  "verdict ev c w out = (case out of
       GetFailed e \<Rightarrow> (failing ev c w, Inl e)
     | CallFailed e \<Rightarrow> (if is_business e then MarkSuccess else if is_ctx e then id else failing ev c w, Inl e)
     | CallOk resp \<Rightarrow> (MarkSuccess, Inr resp))"

lemma verdict_reserved: "en_reserved (fst (verdict ev c w out) n) = en_reserved n"
  by (simp add: verdict_def failing_def split: outcome.split)

lemma doCall_cases:
  assumes "\<not> ctxErr ev d w" "pickNode (Pick (ev_rand ev w)) (ev_now ev w) (cl_nodes c) (cl_balancer c) = (b, Some i)"
    "ev_exec ev d (cl_pools c ! i) req w = (w', out)"
  shows "doCall ev d req (w, c) = ((w', attempted i (fst (verdict ev c w' out)) b c), snd (verdict ev c w' out))"
proof -
  have "ev_exec ev d (cl_pools (upd_node i reserve (c\<lparr>cl_balancer := b\<rparr>)) ! i) req w = (w', out)"
    using assms(3) by simp
  then show ?thesis using assms(1,2)
    by (cases out) (simp_all add: doCall_def attempted_def verdict_def failing_def)
qed

lemma doCall_effect:
  assumes "doCall (counted ev) d req ((k, w), c) = (((k', w'), c'), res)"
  shows "reserved_of c' = reserved_of c \<and> k' \<le> k + 1 \<and> cl_opts c' = cl_opts c"
proof (cases "ctxErr ev d w")
  case True
  then show ?thesis using assms by (simp add: doCall_def)
next
  case False
  let ?p = "pickNode (Pick (ev_rand ev w)) (ev_now ev w) (cl_nodes c) (cl_balancer c)"
  show ?thesis
  proof (cases "snd ?p")
    case None
    then show ?thesis using assms False by (auto simp: doCall_def split_def reserved_of_def)
  next
    case (Some i)
    let ?e = "ev_exec ev d (cl_pools c ! i) req w"
    have p: "?p = (fst ?p, Some i)" using Some by (simp add: prod_eq_iff)
    have "doCall (counted ev) d req ((k, w), c) =
        (((k + 1, fst ?e), attempted i (fst (verdict (counted ev) c (k + 1, fst ?e) (snd ?e))) (fst ?p) c),
         snd (verdict (counted ev) c (k + 1, fst ?e) (snd ?e)))"
      by (rule doCall_cases) (use False p in simp_all)
    then have c': "c' = attempted i (fst (verdict (counted ev) c (k + 1, fst ?e) (snd ?e))) (fst ?p) c" "k' = k + 1"
      using assms by simp_all
    have "reserved_of c' = reserved_of (c\<lparr>cl_balancer := fst ?p\<rparr>)"
      unfolding c' attempted_def by (rule reserved_bracket) (rule verdict_reserved)
    then show ?thesis by (simp add: c' attempted_def reserved_of_def)
  qed
qed

lemma call_loop_effect:
  assumes "call_loop (counted ev) d left req ((k, w), c) = (((k', w'), c'), res)"
  shows "reserved_of c' = reserved_of c \<and> k' \<le> k + left + 1"
  using assms
proof (induction left arbitrary: k w c)
  case 0
  obtain k1 w1 c1 r1 where d: "doCall (counted ev) d req ((k, w), c) = (((k1, w1), c1), r1)"
    by (metis surj_pair)
  have "((k', w'), c') = ((k1, w1), c1)"
    using "0" by (subst (asm) call_loop.simps) (auto simp: d split: sum.splits if_splits)
  then show ?case using doCall_effect[OF d] by simp
next
  case (Suc left)
  obtain k1 w1 c1 r1 where d: "doCall (counted ev) d req ((k, w), c) = (((k1, w1), c1), r1)"
    by (metis surj_pair)
  note e = doCall_effect[OF d]
  let ?wt = "ev_wait ev d (retryBackoff (cl_opts c1)) w1"
  consider (stop) "k' = k1" "c' = c1"
    | (retry) "call_loop (counted ev) d left req ((k1, fst ?wt), c1) = (((k', w'), c'), res)"
    using Suc.prems by (subst (asm) call_loop.simps) (auto simp: d Let_def split_def split: sum.splits if_splits)
  then show ?case
  proof cases
    case retry
    from Suc.IH[OF this] show ?thesis using e by simp
  qed (use e in simp)
qed

lemma nextRequestID_nodes [simp]:
  "reserved_of (fst (nextRequestID c)) = reserved_of c" "cl_opts (fst (nextRequestID c)) = cl_opts c"
  by (simp_all add: nextRequestID_def reserved_of_def Let_def)

lemma Call_effect:
  assumes "Call (counted ev) req ((k, w), c) = (((k', w'), c'), req', res)"
  shows "reserved_of c' = reserved_of c \<and> k' \<le> k + nat (retryAttempts (cl_opts c)) + 1"
proof (cases "cl_closed c \<or> ctxErr ev None w")
  case True
  then show ?thesis using assms by (auto simp: Call_def split: if_splits)
next
  case False
  let ?c = "if rq_RequestID req = 0 then fst (nextRequestID c) else c"
  let ?r = "if rq_RequestID req = 0 then req\<lparr>rq_RequestID := snd (nextRequestID c)\<rparr> else req"
  let ?n = "nat (if retryAttempts (cl_opts c) < 0 then 0 else retryAttempts (cl_opts c))"
  let ?d = "if requestTimeout (cl_opts c) > 0 then Some (ev_now ev w + requestTimeout (cl_opts c)) else None"
  have "call_loop (counted ev) ?d ?n ?r ((k, w), ?c) = (((k', w'), c'), res)"
    using assms False by (cases "rq_RequestID req = 0") (auto simp: Call_def Let_def split_def prod_eq_iff)
  from call_loop_effect[OF this] show ?thesis by (auto split: if_splits)
qed

text \<open>
  An error the remote side reports ends the call at its first attempt, and the node counts as
  healthy.
\<close>

lemma remote_error_final:
  assumes "\<not> ctxErr ev d w"
    "pickNode (Pick (ev_rand ev w)) (ev_now ev w) (cl_nodes c) (cl_balancer c) = (b, Some i)"
    "ev_exec ev d (cl_pools c ! i) req w = (w', CallFailed (StreamError (ErrRemoteCall e)))"
  shows "call_loop ev d left req (w, c) = ((w', attempted i MarkSuccess b c), Inl (StreamError (ErrRemoteCall e)))"
  by (subst call_loop.simps) (simp add: doCall_cases[OF assms] verdict_def)

text \<open>A closed client has closed every pool once and runs no request any more.\<close>

lemma closed_client_refuses:
  "Call ev req (client_Close ev (w, c)) = (client_Close ev (w, c), req, Inl ErrPoolClosed)"
  by (simp add: Call_def client_Close_def)

section \<open>Properties\<close>

text \<open>
  C11: A call ends after at most one attempt more than the configured retries, whatever the
  pools, the clock and the balancer do, and it leaves no trace in the load figures: every
  node has the number of reserved requests it had before, on every path, errors included.
\<close>

theorem call_bounded:
  "case Call (counted ev) req ((0, w), c) of
     (((attempts, w'), c'), req', res) \<Rightarrow>
       attempts \<le> nat (retryAttempts (cl_opts c)) + 1 \<and>
       map en_reserved (cl_nodes c') = map en_reserved (cl_nodes c)"
proof -
  obtain k' w' c' req' res where c: "Call (counted ev) req ((0, w), c) = (((k', w'), c'), req', res)"
    by (metis surj_pair)
  show ?thesis unfolding c using Call_effect[OF c] by (simp add: reserved_of_def)
qed

end
