(* ===== verification/NetServer.thy ===== *)
theory NetServer
  imports NetStream "HOL-Library.Multiset"
begin

text \<open>
  The RPC server: \<^verbatim>\<open>micro/net/server.go\<close>, \<^verbatim>\<open>handler.go\<close>, \<^verbatim>\<open>rate_limiter.go\<close> and the server half of
  \<^verbatim>\<open>options.go\<close>. Every connection has a goroutine that reads frames and starts one goroutine
  per request. What a handler returns is an argument: a response, an error or a panic. Frames
  handed to \<^verbatim>\<open>sendFrame\<close> are recorded in order; the outcome of a write is an argument. Logger,
  metrics, TLS and the handler's context are left out.
\<close>

section \<open>Handlers and options\<close>

text \<open>
  A handler runs in a world \<open>'w\<close> and returns a response that may be nil and the message of an
  error, or it panics.
\<close>

datatype handled = HReturn "Response option" "string option" | HPanic string

type_synonym 'w handler = "Request \<Rightarrow> 'w \<Rightarrow> 'w \<times> handled"
type_synonym 'w middleware = "'w handler \<Rightarrow> 'w handler"

definition Chain :: "'w handler \<Rightarrow> 'w middleware list \<Rightarrow> 'w handler" where
  "Chain h mws = fold (\<lambda>mw h. mw h) (rev mws) h"

definition EchoHandler :: "'w handler" where
  "EchoHandler req w =
     (w, HReturn (Some \<lparr>rp_RequestID = rq_RequestID req, rp_Header = rq_Header req, rp_Body = rq_Body req,
                        rp_Error = None\<rparr>) None)"

definition unlimitedLimiter_Allow :: "'w \<Rightarrow> bool" where
  "unlimitedLimiter_Allow w = True"

record 'w serverOptions =
  so_readTimeout :: int
  so_writeTimeout :: int
  so_idleTimeout :: int
  so_maxConns :: int
  so_maxHeaderSize :: u32
  so_maxBodySize :: u32
  so_handler :: "'w handler"
  so_middlewares :: "'w middleware list"
  so_limiter :: "'w \<Rightarrow> bool"
  so_handlerTimeout :: int

abbreviation sec :: int where "sec \<equiv> 1000000000"

definition defaultServerOptions :: "'w serverOptions" where
  "defaultServerOptions = \<lparr>so_readTimeout = 5 * sec, so_writeTimeout = 5 * sec, so_idleTimeout = 120 * sec,
     so_maxConns = 1000, so_maxHeaderSize = defaultMaxHeaderSize, so_maxBodySize = defaultMaxBodySize,
     so_handler = EchoHandler, so_middlewares = [], so_limiter = unlimitedLimiter_Allow, so_handlerTimeout = 0\<rparr>"

definition server_limits :: "'w serverOptions \<Rightarrow> frameLimits" where
  "server_limits o' = \<lparr>maxHeader = so_maxHeaderSize o', maxBody = so_maxBodySize o'\<rparr>"

definition buildHandler :: "'w serverOptions \<Rightarrow> 'w handler" where
  "buildHandler o' = (if so_middlewares o' = [] then so_handler o' else Chain (so_handler o') (so_middlewares o'))"

type_synonym 'w ServerOption = "'w serverOptions \<Rightarrow> 'w serverOptions"

definition WithServerReadTimeout :: "int \<Rightarrow> 'w ServerOption" where
  "WithServerReadTimeout d o' = o'\<lparr>so_readTimeout := d\<rparr>"

definition WithServerWriteTimeout :: "int \<Rightarrow> 'w ServerOption" where
  "WithServerWriteTimeout d o' = o'\<lparr>so_writeTimeout := d\<rparr>"

definition WithServerIdleTimeout :: "int \<Rightarrow> 'w ServerOption" where
  "WithServerIdleTimeout d o' = o'\<lparr>so_idleTimeout := d\<rparr>"

definition WithMaxConnections :: "int \<Rightarrow> 'w ServerOption" where
  "WithMaxConnections n o' = o'\<lparr>so_maxConns := n\<rparr>"

definition WithHandler :: "'w handler \<Rightarrow> 'w ServerOption" where
  "WithHandler h o' = o'\<lparr>so_handler := h\<rparr>"

definition WithMiddleware :: "'w middleware list \<Rightarrow> 'w ServerOption" where
  "WithMiddleware mws o' = o'\<lparr>so_middlewares := so_middlewares o' @ mws\<rparr>"

definition WithHandlerTimeout :: "int \<Rightarrow> 'w ServerOption" where
  "WithHandlerTimeout d o' = o'\<lparr>so_handlerTimeout := d\<rparr>"

definition WithServerMaxMessageSize :: "u32 \<Rightarrow> u32 \<Rightarrow> 'w ServerOption" where
  "WithServerMaxMessageSize h b o' =
     (let o' = (if h > 0 then o'\<lparr>so_maxHeaderSize := h\<rparr> else o')
      in if b > 0 then o'\<lparr>so_maxBodySize := b\<rparr> else o')"

definition WithRateLimiter :: "('w \<Rightarrow> bool) \<Rightarrow> 'w ServerOption" where
  "WithRateLimiter l o' = o'\<lparr>so_limiter := l\<rparr>"

text \<open>The first middleware of the list is the outermost one.\<close>

lemma Chain_order: "Chain h (mw # mws) = mw (Chain h mws)" "Chain h [] = h"
  by (simp_all add: Chain_def)

section \<open>A connection\<close>

record connSlot =
  cs_draining :: bool
  cs_reading :: bool              \<comment> \<open>the read loop has not returned\<close>
  cs_released :: bool             \<comment> \<open>the place in the semaphore has been given back\<close>
  cs_open :: bool
  cs_forced :: bool               \<comment> \<open>closed by a shutdown that ran into its deadline\<close>
  cs_inflight :: "Frame list"     \<comment> \<open>requests whose goroutine runs\<close>
  cs_accepted :: "Frame list"     \<comment> \<open>requests handed to a goroutine, and those refused\<close>
  cs_refused :: "Frame list"
  cs_sent :: "Frame list"

definition new_slot :: connSlot where
  "new_slot = \<lparr>cs_draining = False, cs_reading = True, cs_released = False, cs_open = True, cs_forced = False, cs_inflight = [],
     cs_accepted = [], cs_refused = [], cs_sent = []\<rparr>"

definition beginDrain :: "connSlot \<Rightarrow> connSlot" where
  "beginDrain s = s\<lparr>cs_draining := True\<rparr>"

definition sendFrame :: "Frame \<Rightarrow> connSlot \<Rightarrow> connSlot" where
  "sendFrame f s = s\<lparr>cs_sent := cs_sent s @ [f]\<rparr>"

definition setReadDeadline :: "'w serverOptions \<Rightarrow> int \<Rightarrow> int option" where
  "setReadDeadline o' now =
     (let d = so_idleTimeout o'; d = (if d \<le> 0 then so_readTimeout o' else d)
      in if d \<le> 0 then None else Some (now + d))"

definition server_request :: "Frame \<Rightarrow> Request" where
  "server_request f = \<lparr>rq_RequestID = RequestID f, rq_Header = Header f, rq_Body = Body f, rq_OneWay = IsOneWay f\<rparr>"

definition stop_reading :: "connSlot \<Rightarrow> connSlot" where
  "stop_reading s = s\<lparr>cs_reading := False\<rparr>"

text \<open>
  One pass of the read loop. \<open>closed1\<close> is the server's flag at the top of the loop and \<open>closed2\<close>
  the same flag after the frame has arrived, \<open>draining2\<close> the connection's flag then; \<open>werr\<close> is
  whether writing fails, \<open>allow\<close> what the limiter says.
\<close>

definition handleConn_pass ::
  "bool \<Rightarrow> bool \<Rightarrow> bool \<Rightarrow> bool \<Rightarrow> bool \<Rightarrow> Frame option \<Rightarrow> connSlot \<Rightarrow> connSlot" where
  "handleConn_pass closed1 closed2 draining2 werr allow read s =
     (if closed1 \<or> cs_draining s then stop_reading (beginDrain s)
      else case read of
          None \<Rightarrow> stop_reading s
        | Some f \<Rightarrow>
            if IsHeartbeat f then
              (if MsgType f = MessageTypePing \<or> MsgType f = MessageTypeHeartbeat then
                 (let s = sendFrame (NewFrame MessageTypePong (RequestID f) [] []) s
                  in if werr then stop_reading s else s)
               else s)
            else if MsgType f \<noteq> MessageTypeRequest then s
            else if draining2 \<or> closed2 then
              stop_reading (sendFrame (NewErrorFrame (RequestID f) (Some ''server draining''))
                (s\<lparr>cs_refused := cs_refused s @ [f]\<rparr>))
            else if \<not> allow then
              sendFrame (NewErrorFrame (RequestID f) (Some ErrRateLimited_text))
                (s\<lparr>cs_refused := cs_refused s @ [f]\<rparr>)
            else s\<lparr>cs_inflight := cs_inflight s @ [f], cs_accepted := cs_accepted s @ [f]\<rparr>)"

definition safeHandle :: "handled \<Rightarrow> Response option \<times> string option" where
  "safeHandle out = (case out of HReturn resp err \<Rightarrow> (resp, err) | HPanic _ \<Rightarrow> (None, Some ErrHandlerPanic_text))"

definition response_frame :: "Frame \<Rightarrow> Response option \<times> string option \<Rightarrow> Frame" where
  "response_frame reqFrame = (\<lambda>(resp, err).
     case err of
       Some e \<Rightarrow> NewErrorFrame (RequestID reqFrame) (Some e)
     | None \<Rightarrow>
         (case resp of
            None \<Rightarrow> NewFrame MessageTypeResponse (RequestID reqFrame) [] []
          | Some r \<Rightarrow>
              (case rp_Error r of
                 Some e \<Rightarrow> NewErrorFrame (RequestID reqFrame) (Some e)
               | None \<Rightarrow> (NewFrame MessageTypeResponse (RequestID reqFrame) [] [])\<lparr>Header := rp_Header r, Body := rp_Body r\<rparr>)))"

text \<open>The goroutine of request \<open>f\<close>, from the handler's result to the deferred calls.\<close>

definition handleRequest :: "handled \<Rightarrow> Frame \<Rightarrow> connSlot \<Rightarrow> connSlot" where
  "handleRequest out f s =
     (let s = (if IsOneWay f then s else sendFrame (response_frame f (safeHandle out)) s)
      in s\<lparr>cs_inflight := remove1 f (cs_inflight s)\<rparr>)"

section \<open>The server\<close>

record server =
  sv_closed :: bool
  sv_maxConns :: nat
  sv_sem :: nat                     \<comment> \<open>filled places of the semaphore\<close>
  sv_conns :: "nat \<rightharpoonup> connSlot"     \<comment> \<open>every connection that got a place, open or closed\<close>

text \<open>The semaphore cannot be made with a negative size: that panics.\<close>

definition NewServer :: "'w serverOptions \<Rightarrow> server option" where
  "NewServer o' =
     (if so_maxConns o' < 0 then None
      else Some \<lparr>sv_closed = False, sv_maxConns = nat (so_maxConns o'), sv_sem = 0, sv_conns = Map.empty\<rparr>)"

text \<open>\<^verbatim>\<open>Accept\<close>: a connection takes a place of the semaphore or is closed at once.\<close>

definition accept :: "nat \<Rightarrow> server \<Rightarrow> server" where
  "accept c sv =
     (if sv_sem sv < sv_maxConns sv
      then sv\<lparr>sv_sem := sv_sem sv + 1, sv_conns := (sv_conns sv)(c \<mapsto> new_slot)\<rparr> else sv)"

definition set_conn :: "nat \<Rightarrow> connSlot \<Rightarrow> server \<Rightarrow> server" where
  "set_conn c s sv = sv\<lparr>sv_conns := (sv_conns sv)(c \<mapsto> s)\<rparr>"

text \<open>
  The deferred part of \<^verbatim>\<open>handleConn\<close>, once the requests of the connection are done: it first
  gives its place back and closes the connection afterwards.
\<close>

definition releaseConn :: "nat \<Rightarrow> connSlot \<Rightarrow> server \<Rightarrow> server" where
  "releaseConn c s sv = (set_conn c (s\<lparr>cs_released := True\<rparr>) sv)\<lparr>sv_sem := sv_sem sv - 1\<rparr>"

definition closeConn :: "nat \<Rightarrow> connSlot \<Rightarrow> server \<Rightarrow> server" where
  "closeConn c s sv = set_conn c (s\<lparr>cs_open := False\<rparr>) sv"

definition Shutdown_begin :: "server \<Rightarrow> server" where
  "Shutdown_begin sv = sv\<lparr>sv_closed := True\<rparr>"

inductive server_step :: "server \<Rightarrow> server \<Rightarrow> bool" where
  accepted: "\<lbrakk>sv_conns sv c = None\<rbrakk> \<Longrightarrow> server_step sv (accept c sv)"
| start_closed: "\<lbrakk>sv_conns sv c = Some s; cs_reading s; sv_closed sv\<rbrakk> \<Longrightarrow>
    server_step sv (set_conn c (stop_reading (beginDrain s)) sv)"
| read_pass: "\<lbrakk>sv_conns sv c = Some s; cs_reading s;
      closed1 \<longrightarrow> sv_closed sv; closed2 \<longrightarrow> sv_closed sv\<rbrakk> \<Longrightarrow>
    server_step sv (set_conn c (handleConn_pass closed1 closed2 draining2 werr allow read s) sv)"
| request_done: "\<lbrakk>sv_conns sv c = Some s; f \<in> set (cs_inflight s)\<rbrakk> \<Longrightarrow>
    server_step sv (set_conn c (handleRequest out f s) sv)"
| conn_done: "\<lbrakk>sv_conns sv c = Some s; \<not> cs_released s; \<not> cs_reading s; cs_inflight s = []\<rbrakk> \<Longrightarrow>
    server_step sv (releaseConn c s sv)"
| conn_closed: "\<lbrakk>sv_conns sv c = Some s; cs_released s\<rbrakk> \<Longrightarrow> server_step sv (closeConn c s sv)"
| shutdown: "server_step sv (Shutdown_begin sv)"
| drain: "\<lbrakk>sv_closed sv; sv_conns sv c = Some s\<rbrakk> \<Longrightarrow> server_step sv (set_conn c (beginDrain s) sv)"
| force: "\<lbrakk>sv_closed sv; sv_conns sv c = Some s\<rbrakk> \<Longrightarrow> server_step sv (set_conn c (s\<lparr>cs_forced := True\<rparr>) sv)"

inductive server_reachable :: "'w serverOptions \<Rightarrow> server \<Rightarrow> bool" for o' where
  server_init: "NewServer o' = Some sv \<Longrightarrow> server_reachable o' sv"
| server_next: "server_reachable o' sv \<Longrightarrow> server_step sv sv' \<Longrightarrow> server_reachable o' sv'"

section \<open>The ledger of a connection\<close>

definition two_way :: "Frame list \<Rightarrow> Frame list" where
  "two_way fs = filter (\<lambda>f. \<not> IsOneWay f) fs"

definition ids :: "Frame list \<Rightarrow> u64 multiset" where
  "ids fs = mset (map RequestID fs)"

definition answers :: "connSlot \<Rightarrow> Frame list" where
  "answers s = filter (\<lambda>f. MsgType f = MessageTypeResponse) (cs_sent s)"

text \<open>
  The answers sent and the two-way requests that still run are the two-way requests accepted
  and the requests refused, by request id and with multiplicity. A connection is closed only
  when it no longer reads and no request runs.
\<close>

definition slot_inv :: "connSlot \<Rightarrow> bool" where
  "slot_inv s \<longleftrightarrow>
     ids (answers s) + ids (two_way (cs_inflight s)) = ids (two_way (cs_accepted s)) + ids (cs_refused s) \<and>
     (cs_released s \<longrightarrow> \<not> cs_reading s \<and> cs_inflight s = []) \<and> (\<not> cs_open s \<longrightarrow> cs_released s)"

lemma ids_append [simp]: "ids (xs @ ys) = ids xs + ids ys" "ids [f] = {#RequestID f#}" "ids [] = {#}"
  by (simp_all add: ids_def)

lemma two_way_append [simp]: "two_way (xs @ ys) = two_way xs @ two_way ys"
  "two_way [f] = (if IsOneWay f then [] else [f])" "two_way [] = []"
  by (simp_all add: two_way_def)

lemma ids_remove1:
  assumes "f \<in> set fs"
  shows "ids (two_way fs) = ids (two_way (remove1 f fs)) + (if IsOneWay f then {#} else {#RequestID f#})"
  using assms by (induction fs) (auto simp: ids_def two_way_def)

lemma response_frame_fields [simp]:
  "MsgType (response_frame f r) = MessageTypeResponse" "RequestID (response_frame f r) = RequestID f"
  by (cases r; simp add: response_frame_def NewFrame_def split: option.split)+

lemma answers_send [simp]:
  "answers (sendFrame f s) = answers s @ (if MsgType f = MessageTypeResponse then [f] else [])"
  by (simp add: answers_def sendFrame_def)

lemma pong_not_response [simp]:
  "MsgType (NewFrame MessageTypePong i h b) \<noteq> MessageTypeResponse"
  by (simp add: NewFrame_def MessageType_defs)

lemma sendFrame_fields [simp]:
  "cs_inflight (sendFrame f s) = cs_inflight s" "cs_accepted (sendFrame f s) = cs_accepted s"
  "cs_refused (sendFrame f s) = cs_refused s" "cs_open (sendFrame f s) = cs_open s"
  "cs_reading (sendFrame f s) = cs_reading s" "cs_released (sendFrame f s) = cs_released s"
  by (simp_all add: sendFrame_def)

lemma slot_frame [simp]:
  "answers (stop_reading s) = answers s" "answers (beginDrain s) = answers s"
  "answers (s\<lparr>cs_refused := r\<rparr>) = answers s" "answers (s\<lparr>cs_inflight := i\<rparr>) = answers s"
  "answers (s\<lparr>cs_accepted := r\<rparr>) = answers s" "answers (s\<lparr>cs_open := b\<rparr>) = answers s"
  "answers (s\<lparr>cs_forced := b\<rparr>) = answers s" "answers (s\<lparr>cs_released := b\<rparr>) = answers s"
  by (simp_all add: answers_def stop_reading_def beginDrain_def)

lemma stop_drain_inv [simp]:
  "slot_inv s \<Longrightarrow> slot_inv (stop_reading s)" "slot_inv s \<Longrightarrow> slot_inv (beginDrain s)"
  "slot_inv s \<Longrightarrow> slot_inv (s\<lparr>cs_forced := b\<rparr>)"
  by (simp_all add: slot_inv_def) (simp_all add: stop_reading_def beginDrain_def)

lemma refuse_inv:
  assumes "slot_inv s" "\<not> cs_released s" "MsgType e = MessageTypeResponse" "RequestID e = RequestID f"
  shows "slot_inv (sendFrame e (s\<lparr>cs_refused := cs_refused s @ [f]\<rparr>))"
  using assms by (simp add: slot_inv_def)

lemma pong_inv: "slot_inv s \<Longrightarrow> slot_inv (sendFrame (NewFrame MessageTypePong i h b) s)"
  by (simp add: slot_inv_def)

lemma accept_inv:
  assumes "slot_inv s" "\<not> cs_released s"
  shows "slot_inv (s\<lparr>cs_inflight := cs_inflight s @ [f], cs_accepted := cs_accepted s @ [f]\<rparr>)"
  using assms by (auto simp: slot_inv_def)

lemma pass_inv:
  assumes "slot_inv s" "\<not> cs_released s"
  shows "slot_inv (handleConn_pass closed1 closed2 draining2 werr allow read s)"
proof (cases "closed1 \<or> cs_draining s")
  case True
  then show ?thesis using assms by (simp add: handleConn_pass_def)
next
  case False
  show ?thesis
  proof (cases read)
    case None
    then show ?thesis using False assms by (simp add: handleConn_pass_def)
  next
    case (Some f)
    show ?thesis using False assms
      by (simp add: handleConn_pass_def Some Let_def pong_inv refuse_inv accept_inv)
  qed
qed

lemma handleRequest_inv:
  assumes inv: "slot_inv s" and f: "f \<in> set (cs_inflight s)"
  shows "slot_inv (handleRequest out f s)"
proof -
  have "\<not> cs_released s" using inv f by (auto simp: slot_inv_def)
  then show ?thesis using inv ids_remove1[OF f] by (auto simp: slot_inv_def handleRequest_def Let_def handleRequest_def)
qed

section \<open>The invariant of the server\<close>

definition live :: "(nat \<rightharpoonup> connSlot) \<Rightarrow> nat set" where
  "live conns = {c. \<exists>s. conns c = Some s \<and> \<not> cs_released s}"

definition server_inv :: "server \<Rightarrow> bool" where
  "server_inv sv \<longleftrightarrow> (\<forall>c s. sv_conns sv c = Some s \<longrightarrow> slot_inv s) \<and>
     finite (live (sv_conns sv)) \<and> sv_sem sv = card (live (sv_conns sv)) \<and> sv_sem sv \<le> sv_maxConns sv"

lemma live_upd: "live (conns(c \<mapsto> s)) = (if cs_released s then live conns - {c} else insert c (live conns))"
  by (auto simp: live_def)

lemma ops_released [simp]:
  "cs_released (stop_reading s) = cs_released s" "cs_released (beginDrain s) = cs_released s"
  "cs_released (handleConn_pass closed1 closed2 draining2 werr allow read s) = cs_released s"
  "cs_released (handleRequest out f s) = cs_released s"
  by (auto simp: stop_reading_def beginDrain_def handleConn_pass_def handleRequest_def sendFrame_def Let_def
      split: option.split)

lemma set_conn_inv:
  assumes inv: "server_inv sv" and c: "sv_conns sv c = Some s" and s': "slot_inv s'" "cs_released s' = cs_released s"
  shows "server_inv (set_conn c s' sv)"
proof -
  have "live ((sv_conns sv)(c \<mapsto> s')) = live (sv_conns sv)"
    using c s'(2) by (auto simp: live_def)
  then show ?thesis using inv s'(1) by (simp add: server_inv_def set_conn_def)
qed

lemma server_slot: "server_inv sv \<Longrightarrow> sv_conns sv c = Some s \<Longrightarrow> slot_inv s"
  by (simp add: server_inv_def)

lemma server_step_inv: "server_step sv sv' \<Longrightarrow> server_inv sv \<Longrightarrow> server_inv sv'"
proof (induction rule: server_step.induct)
  case (accepted sv c)
  have "slot_inv new_slot" "\<not> cs_released new_slot" by (simp_all add: slot_inv_def new_slot_def answers_def)
  moreover have "c \<notin> live (sv_conns sv)" using accepted(1) by (simp add: live_def)
  ultimately show ?case using accepted(2) by (auto simp: server_inv_def accept_def live_upd)
next
  case (start_closed sv c s)
  then show ?case by (intro set_conn_inv) (auto dest: server_slot)
next
  case (read_pass sv c s closed1 closed2 draining2 werr allow read)
  have inv: "slot_inv s" using read_pass by (blast intro: server_slot)
  then have "\<not> cs_released s" using read_pass(2) by (auto simp: slot_inv_def)
  from pass_inv[OF inv this] show ?case by (rule set_conn_inv[OF read_pass(5,1)]) simp
next
  case (request_done sv c s f out)
  from handleRequest_inv[OF server_slot[OF request_done(3,1)] request_done(2)]
  show ?case by (rule set_conn_inv[OF request_done(3,1)]) simp
next
  case (conn_done sv c s)
  have "slot_inv s" using conn_done by (blast intro: server_slot)
  then have "slot_inv (s\<lparr>cs_released := True\<rparr>)" using conn_done(3,4) by (simp add: slot_inv_def)
  moreover have "c \<in> live (sv_conns sv)" using conn_done(1,2) by (simp add: live_def)
  ultimately show ?case using conn_done(5)
    by (auto simp: server_inv_def releaseConn_def set_conn_def live_upd card_Diff_singleton)
next
  case (conn_closed sv c s)
  have "slot_inv (s\<lparr>cs_open := False\<rparr>)"
    using server_slot[OF conn_closed(3,1)] conn_closed(2) by (auto simp: slot_inv_def)
  then show ?case unfolding closeConn_def by (rule set_conn_inv[OF conn_closed(3,1)]) simp
next
  case (shutdown sv)
  then show ?case by (simp add: server_inv_def Shutdown_begin_def)
next
  case (drain sv c s)
  then show ?case by (intro set_conn_inv) (auto dest: server_slot)
next
  case (force sv c s)
  then show ?case by (intro set_conn_inv) (auto dest: server_slot)
qed

lemma server_reachable_inv: "server_reachable o' sv \<Longrightarrow> server_inv sv"
proof (induction rule: server_reachable.induct)
  case (server_init sv)
  then show ?case by (auto simp: NewServer_def server_inv_def live_def split: if_splits)
next
  case (server_next sv sv')
  then show ?case by (blast intro: server_step_inv)
qed

lemma server_step_maxConns: "server_step sv sv' \<Longrightarrow> sv_maxConns sv' = sv_maxConns sv"
  by (induction rule: server_step.induct)
    (simp_all add: accept_def set_conn_def releaseConn_def closeConn_def Shutdown_begin_def)

lemma server_reachable_maxConns: "server_reachable o' sv \<Longrightarrow> int (sv_maxConns sv) = so_maxConns o'"
  by (induction rule: server_reachable.induct)
    (auto simp: NewServer_def server_step_maxConns split: if_splits)

section \<open>A concrete run\<close>

definition demo_frame :: Frame where
  "demo_frame = NewFrame MessageTypeRequest 7 [] [1]"

lemma demo_frame_fields:
  "RequestID demo_frame = 7" "MsgType demo_frame = MessageTypeRequest" "\<not> IsOneWay demo_frame" "\<not> IsHeartbeat demo_frame"
  by (simp_all add: demo_frame_def NewFrame_def IsOneWay_def IsHeartbeat_def MessageType_defs)

definition demo_slot :: connSlot where
  "demo_slot = new_slot\<lparr>cs_inflight := [demo_frame], cs_accepted := [demo_frame]\<rparr>"

definition demo_done :: connSlot where
  "demo_done = (stop_reading (handleRequest (HPanic ''boom'') demo_frame demo_slot))\<lparr>cs_released := True, cs_open := False\<rparr>"

definition demo_server :: server where
  "demo_server = \<lparr>sv_closed = False, sv_maxConns = 1000, sv_sem = 0, sv_conns = [0 \<mapsto> demo_done]\<rparr>"

lemma demo_server_reachable: "server_reachable (defaultServerOptions :: unit serverOptions) demo_server"
proof -
  let ?o = "defaultServerOptions :: unit serverOptions"
  let ?sv = "\<lambda>n s. \<lparr>sv_closed = False, sv_maxConns = 1000, sv_sem = n, sv_conns = [0 \<mapsto> s]\<rparr>"
  let ?start = "\<lparr>sv_closed = False, sv_maxConns = 1000, sv_sem = 0, sv_conns = Map.empty\<rparr>"
  have r0: "server_reachable ?o ?start" by (rule server_init) (simp add: NewServer_def defaultServerOptions_def)
  have "server_step ?start (accept 0 ?start)" by (rule accepted) simp
  from server_next[OF r0 this] have r1: "server_reachable ?o (?sv 1 new_slot)" by (simp add: accept_def)
  have "server_step (?sv 1 new_slot)
      (set_conn 0 (handleConn_pass False False False False True (Some demo_frame) new_slot) (?sv 1 new_slot))"
    by (rule read_pass) (simp_all add: new_slot_def)
  from server_next[OF r1 this] have r2: "server_reachable ?o (?sv 1 demo_slot)"
    by (simp add: set_conn_def handleConn_pass_def demo_frame_fields demo_slot_def new_slot_def)
  let ?h = "handleRequest (HPanic ''boom'') demo_frame demo_slot"
  have "server_step (?sv 1 demo_slot) (set_conn 0 ?h (?sv 1 demo_slot))"
    by (rule request_done) (simp_all add: demo_slot_def)
  from server_next[OF r2 this] have r3: "server_reachable ?o (?sv 1 ?h)" by (simp add: set_conn_def)
  have h: "\<not> cs_draining ?h" "cs_reading ?h" "cs_inflight ?h = []" "\<not> cs_released ?h"
    by (simp_all add: handleRequest_def demo_slot_def new_slot_def sendFrame_def Let_def)
  have "server_step (?sv 1 ?h) (set_conn 0 (handleConn_pass False False False False True None ?h) (?sv 1 ?h))"
    by (rule read_pass) (simp_all add: h(2))
  from server_next[OF r3 this] have r4: "server_reachable ?o (?sv 1 (stop_reading ?h))"
    by (simp add: set_conn_def handleConn_pass_def h(1))
  have "server_step (?sv 1 (stop_reading ?h)) (releaseConn 0 (stop_reading ?h) (?sv 1 (stop_reading ?h)))"
    by (rule conn_done) (use h in \<open>simp_all add: stop_reading_def\<close>)
  from server_next[OF r4 this] have r5: "server_reachable ?o (?sv 0 ((stop_reading ?h)\<lparr>cs_released := True\<rparr>))"
    by (simp add: releaseConn_def set_conn_def)
  let ?released = "?sv 0 ((stop_reading ?h)\<lparr>cs_released := True\<rparr>)"
  have "server_step ?released (closeConn 0 ((stop_reading ?h)\<lparr>cs_released := True\<rparr>) ?released)"
    by (rule conn_closed) simp_all
  from server_next[OF r5 this] show ?thesis
    by (simp add: closeConn_def set_conn_def demo_server_def demo_done_def)
qed

section \<open>Properties\<close>



text \<open>
  The server never serves more connections than configured: its semaphore holds exactly
  one place for each connection that still reads or has requests running, and for no other.
\<close>

lemma server_connection_limit:
  assumes "server_reachable o' sv"
  shows "card (live (sv_conns sv)) = sv_sem sv \<and> int (sv_sem sv) \<le> so_maxConns o'"
  using server_reachable_inv[OF assms] server_reachable_maxConns[OF assms] by (simp add: server_inv_def)

end
