(* ===== verification/OrmModel.thy ===== *)
theory OrmModel
  imports Go_Strings
begin

text \<open>
  Table metadata of the object-relational mapper: \<^verbatim>\<open>orm/internal/model/model.go\<close> and
  \<^verbatim>\<open>registry.go\<close>, with the errors of \<^verbatim>\<open>orm/internal/errs\<close>. A Go struct type is described by its
  fields with their names, kinds and \<^verbatim>\<open>orm\<close> tags. The field objects of a model are shared: the
  maps and the marked fields are references into the list of fields. Names are ASCII.
\<close>

section \<open>Data\<close>

datatype orm_error =
    ErrPointerOnly | ErrNoRows | ErrTooManyRows | ErrInsertZeroRow | ErrOptimisticLock | ErrNothingToUpdate
  | ErrUnsupportedFeature string | ErrInvalidTag string | ErrUnknownField string | ErrUnknownColumn string
  | ErrUnsupportedExpression | ErrNilValue string | ErrFieldType string | ErrNotSettable string | ErrRawTarget string | ErrDriver string | ErrHook string
  | ErrFailToRollback "orm_error option" string bool | ErrTooManyReturnedColumns
  | ErrPanic go_panic   \<comment> \<open>a panic of the Go runtime\<close>

datatype kind = KInt | KInt8 | KInt16 | KInt32 | KInt64 | KUint | KUint8 | KUint16 | KUint32 | KUint64
  | KString | KTime | KTimePtr | KIface   \<comment> \<open>an interface type that a time has\<close>
  | KOther

record structField =
  sf_Name :: string
  sf_Tag :: "string option"   \<comment> \<open>the value under the key \<^verbatim>\<open>orm\<close>\<close>
  sf_Kind :: kind
  sf_Offset :: nat

record structType =
  ty_Name :: string
  ty_Fields :: "structField list"
  ty_TableName :: "string option"   \<comment> \<open>what the method \<^verbatim>\<open>TableName\<close> returns, if there is one\<close>

datatype entity = PtrTo structType | NotAPointer string

record Field =
  fd_ColName :: string
  fd_GoName :: string
  fd_Kind :: kind
  fd_Offset :: nat

record Model =
  m_TableName :: string
  m_FieldMap :: "string \<rightharpoonup> nat"
  m_ColumnMap :: "string \<rightharpoonup> nat"
  m_Fields :: "Field list"
  m_CreatedAt :: "nat option"
  m_UpdatedAt :: "nat option"
  m_DeletedAt :: "nat option"
  m_Version :: "nat option"

type_synonym ModelOpt = "Model \<Rightarrow> orm_error + Model"

definition field_of :: "Model \<Rightarrow> string \<Rightarrow> Field option" where
  "field_of m name = map_option (\<lambda>i. m_Fields m ! i) (m_FieldMap m name)"

definition col_of :: "Model \<Rightarrow> nat \<Rightarrow> string" where
  "col_of m i = fd_ColName (m_Fields m ! i)"

section \<open>Names and tags\<close>

definition is_upper :: "char \<Rightarrow> bool" where
  "is_upper c \<longleftrightarrow> (65 :: nat) \<le> of_char c \<and> of_char c \<le> (90 :: nat)"

definition is_lower :: "char \<Rightarrow> bool" where
  "is_lower c \<longleftrightarrow> (97 :: nat) \<le> of_char c \<and> of_char c \<le> (122 :: nat)"

text \<open>Fields whose name starts with an upper case letter can be read and set by reflection.\<close>

definition exported :: "string \<Rightarrow> bool" where
  "exported name \<longleftrightarrow> name \<noteq> [] \<and> is_upper (hd name)"

fun camel_loop :: "char option \<Rightarrow> string \<Rightarrow> string" where
  "camel_loop prev [] = []"
| "camel_loop prev (c # cs) =
     (case prev of
        None \<Rightarrow> []
      | Some p \<Rightarrow>
          if is_upper c then
            (if \<not> is_upper p then ''_'' else if cs \<noteq> [] \<and> is_lower (hd cs) then ''_'' else [])
          else []) @ lower_char c # camel_loop (Some c) cs"

definition Camel2Case :: "string \<Rightarrow> string" where
  "Camel2Case s = (if s = [] then [] else camel_loop None s)"

fun tag_segments :: "string list \<Rightarrow> (string \<rightharpoonup> string) \<Rightarrow> orm_error + (string \<rightharpoonup> string)" where
  "tag_segments [] res = Inr res"
| "tag_segments (seg # segs) res =
     (if \<not> has_suffix '')'' seg then Inl (ErrInvalidTag seg)
      else case split_on CHR ''('' seg of
          [key, v] \<Rightarrow> tag_segments segs (res(key \<mapsto> trim_suffix '')'' v))
        | _ \<Rightarrow> Inl (ErrInvalidTag seg))"

definition parseTag :: "string option \<Rightarrow> orm_error + (string \<rightharpoonup> string)" where
  "parseTag tag = (case tag of None \<Rightarrow> Inr Map.empty | Some v \<Rightarrow> tag_segments (split_on CHR '';'' v) Map.empty)"

definition isIntegerKind :: "kind \<Rightarrow> bool" where
  "isIntegerKind k \<longleftrightarrow> k \<in> {KInt, KInt8, KInt16, KInt32, KInt64, KUint, KUint8, KUint16, KUint32, KUint64}"

section \<open>Models\<close>

definition mark :: "(string \<rightharpoonup> string) \<Rightarrow> string \<Rightarrow> string \<Rightarrow> string \<Rightarrow> nat \<Rightarrow> nat option \<Rightarrow> nat option" where
  "mark tags key goName name i old = (if tags key \<noteq> None \<or> name = goName then Some i else old)"

text \<open>The loop body of \<^verbatim>\<open>parseModel\<close> for field number \<open>i\<close>.\<close>

definition parse_field :: "nat \<Rightarrow> structField \<Rightarrow> Model \<Rightarrow> orm_error + Model" where
  "parse_field i f m =
     (case parseTag (sf_Tag f) of
        Inl e \<Rightarrow> Inl e
      | Inr tags \<Rightarrow>
          (let colName = (case tags ''column'' of Some c \<Rightarrow> c | None \<Rightarrow> []);
               colName = (if colName = [] then Camel2Case (sf_Name f) else colName)
           in Inr (m\<lparr>m_Fields := m_Fields m @ [\<lparr>fd_ColName = colName, fd_GoName = sf_Name f, fd_Kind = sf_Kind f,
                                               fd_Offset = sf_Offset f\<rparr>],
                     m_FieldMap := (m_FieldMap m)(sf_Name f \<mapsto> i), m_ColumnMap := (m_ColumnMap m)(colName \<mapsto> i),
                     m_CreatedAt := mark tags ''created_at'' ''CreatedAt'' (sf_Name f) i (m_CreatedAt m),
                     m_UpdatedAt := mark tags ''updated_at'' ''UpdatedAt'' (sf_Name f) i (m_UpdatedAt m),
                     m_DeletedAt := mark tags ''deleted_at'' ''DeletedAt'' (sf_Name f) i (m_DeletedAt m),
                     m_Version := (if isIntegerKind (sf_Kind f)
                                   then mark tags ''version'' ''Version'' (sf_Name f) i (m_Version m)
                                   else m_Version m)\<rparr>)))"

fun parse_fields_from :: "nat \<Rightarrow> structField list \<Rightarrow> Model \<Rightarrow> orm_error + Model" where
  "parse_fields_from i [] m = Inr m"
| "parse_fields_from i (f # fs) m = sum_bind (parse_field i f m) (parse_fields_from (Suc i) fs)"

definition empty_model :: Model where
  "empty_model = \<lparr>m_TableName = [], m_FieldMap = Map.empty, m_ColumnMap = Map.empty, m_Fields = [],
     m_CreatedAt = None, m_UpdatedAt = None, m_DeletedAt = None, m_Version = None\<rparr>"

definition parseModel :: "entity \<Rightarrow> orm_error + Model" where
  "parseModel entity =
     (case entity of
        NotAPointer _ \<Rightarrow> Inl ErrPointerOnly
      | PtrTo ty \<Rightarrow>
          sum_bind (parse_fields_from 0 (ty_Fields ty) empty_model)
            (\<lambda>m. let tableName = (case ty_TableName ty of Some t \<Rightarrow> t | None \<Rightarrow> [])
                 in Inr (m\<lparr>m_TableName := (if tableName = [] then Camel2Case (ty_Name ty) else tableName)\<rparr>)))"

fun apply_opts :: "ModelOpt list \<Rightarrow> Model \<Rightarrow> orm_error + Model" where
  "apply_opts [] m = Inr m"
| "apply_opts (opt # opts) m = sum_bind (opt m) (apply_opts opts)"

definition Registry :: "entity \<Rightarrow> ModelOpt list \<Rightarrow> orm_error + Model" where
  "Registry entity opts = sum_bind (parseModel entity) (apply_opts opts)"

type_synonym registry = "entity \<rightharpoonup> Model"

definition registry_Get :: "entity \<Rightarrow> registry \<Rightarrow> registry \<times> (orm_error + Model)" where
  "registry_Get entity r =
     (case r entity of
        Some m \<Rightarrow> (r, Inr m)
      | None \<Rightarrow>
          (case Registry entity [] of
             Inl e \<Rightarrow> (r, Inl e)
           | Inr m \<Rightarrow> (r(entity \<mapsto> m), Inr m)))"

definition WithTableName :: "string \<Rightarrow> ModelOpt" where
  "WithTableName t m = Inr (m\<lparr>m_TableName := t\<rparr>)"

definition set_col :: "nat \<Rightarrow> string \<Rightarrow> Field list \<Rightarrow> Field list" where
  "set_col i c fs = fs[i := (fs ! i)\<lparr>fd_ColName := c\<rparr>]"

definition WithColumName :: "string \<Rightarrow> string \<Rightarrow> ModelOpt" where
  "WithColumName field colName m =
     (case m_FieldMap m field of
        None \<Rightarrow> Inl (ErrUnknownField field)
      | Some fd \<Rightarrow>
          (case m_ColumnMap m (col_of m fd) of
             None \<Rightarrow> Inl (ErrUnknownColumn field)
           | Some old \<Rightarrow>
               Inr (m\<lparr>m_ColumnMap := ((m_ColumnMap m)(col_of m fd := None))(colName \<mapsto> old),
                      m_Fields := set_col fd colName (set_col old colName (m_Fields m))\<rparr>)))"

section \<open>Well-formed models\<close>

text \<open>
  The two maps and the marked fields refer to fields of the list, under the names these have,
  and the version field is an integer.
\<close>

definition in_range :: "Model \<Rightarrow> nat option \<Rightarrow> bool" where
  "in_range m i \<longleftrightarrow> (\<forall>k. i = Some k \<longrightarrow> k < length (m_Fields m))"

definition model_wf :: "Model \<Rightarrow> bool" where
  "model_wf m \<longleftrightarrow>
     (\<forall>name i. m_FieldMap m name = Some i \<longrightarrow> i < length (m_Fields m) \<and> fd_GoName (m_Fields m ! i) = name) \<and>
     (\<forall>c i. m_ColumnMap m c = Some i \<longrightarrow> i < length (m_Fields m) \<and> fd_ColName (m_Fields m ! i) = c) \<and>
     (\<forall>f \<in> set (m_Fields m). m_FieldMap m (fd_GoName f) \<noteq> None) \<and>
     in_range m (m_CreatedAt m) \<and> in_range m (m_UpdatedAt m) \<and> in_range m (m_DeletedAt m) \<and>
     (\<forall>i. m_Version m = Some i \<longrightarrow> i < length (m_Fields m) \<and> isIntegerKind (fd_Kind (m_Fields m ! i)))"

lemma empty_model_wf: "model_wf empty_model"
  by (simp add: model_wf_def empty_model_def in_range_def)

lemma parse_field_wf:
  assumes wf: "model_wf m" and i: "i = length (m_Fields m)" and p: "parse_field i f m = Inr m'"
  shows "model_wf m' \<and> length (m_Fields m') = Suc i"
proof -
  obtain tags where "parseTag (sf_Tag f) = Inr tags" using p by (auto simp: parse_field_def split: sum.splits)
  define c where "c = (let c = (case tags ''column'' of Some c \<Rightarrow> c | None \<Rightarrow> []) in if c = [] then Camel2Case (sf_Name f) else c)"
  define fd where "fd = \<lparr>fd_ColName = c, fd_GoName = sf_Name f, fd_Kind = sf_Kind f, fd_Offset = sf_Offset f\<rparr>"
  have m': "m_Fields m' = m_Fields m @ [fd]" "m_FieldMap m' = (m_FieldMap m)(sf_Name f \<mapsto> i)"
    "m_ColumnMap m' = (m_ColumnMap m)(c \<mapsto> i)"
    "m_CreatedAt m' = mark tags ''created_at'' ''CreatedAt'' (sf_Name f) i (m_CreatedAt m)"
    "m_UpdatedAt m' = mark tags ''updated_at'' ''UpdatedAt'' (sf_Name f) i (m_UpdatedAt m)"
    "m_DeletedAt m' = mark tags ''deleted_at'' ''DeletedAt'' (sf_Name f) i (m_DeletedAt m)"
    "m_Version m' = (if isIntegerKind (sf_Kind f) then mark tags ''version'' ''Version'' (sf_Name f) i (m_Version m) else m_Version m)"
    using p \<open>parseTag (sf_Tag f) = Inr tags\<close> by (auto simp: parse_field_def c_def fd_def Let_def)
  have keep: "(m_Fields m @ [fd]) ! k = m_Fields m ! k" if "k < length (m_Fields m)" for k
    using that by (simp add: nth_append)
  have new: "(m_Fields m @ [fd]) ! i = fd" by (simp add: i)
  have range: "in_range m' (mark tags key g n i old)" if "in_range m old" for key g n old
    using that by (auto simp: in_range_def mark_def m' i split: if_splits intro: less_SucI)
  have fdf: "fd_GoName fd = sf_Name f" "fd_ColName fd = c" "fd_Kind fd = sf_Kind f" by (simp_all add: fd_def)
  have "\<forall>name k. m_FieldMap m' name = Some k \<longrightarrow> k < length (m_Fields m') \<and> fd_GoName (m_Fields m' ! k) = name"
    using wf keep new fdf by (auto simp: m' model_wf_def i split: if_splits intro: less_SucI)
  moreover have "\<forall>d k. m_ColumnMap m' d = Some k \<longrightarrow> k < length (m_Fields m') \<and> fd_ColName (m_Fields m' ! k) = d"
    using wf keep new fdf by (auto simp: m' model_wf_def i split: if_splits intro: less_SucI)
  moreover have "\<forall>g \<in> set (m_Fields m'). m_FieldMap m' (fd_GoName g) \<noteq> None"
    using wf fdf by (auto simp: m' model_wf_def)
  moreover have "\<forall>k. m_Version m' = Some k \<longrightarrow> k < length (m_Fields m') \<and> isIntegerKind (fd_Kind (m_Fields m' ! k))"
    using wf keep new fdf by (auto simp: m' model_wf_def mark_def i split: if_splits intro: less_SucI)
  moreover have "in_range m' (m_CreatedAt m')" "in_range m' (m_UpdatedAt m')" "in_range m' (m_DeletedAt m')"
    using wf by (auto simp: m'(4-6) model_wf_def intro!: range)
  ultimately show ?thesis by (simp add: model_wf_def) (simp add: m' i)
qed

lemma parse_fields_from_wf:
  assumes "model_wf m" "i = length (m_Fields m)" "parse_fields_from i fs m = Inr m'"
  shows "model_wf m' \<and> length (m_Fields m') = i + length fs"
  using assms
proof (induction fs arbitrary: i m)
  case (Cons f fs)
  obtain m1 where m1: "parse_field i f m = Inr m1" "parse_fields_from (Suc i) fs m1 = Inr m'"
    using Cons.prems(3) by (auto simp: sum_bind_Inr_iff)
  have "model_wf m1" "length (m_Fields m1) = Suc i" using parse_field_wf[OF Cons.prems(1,2) m1(1)] by simp_all
  then show ?case using Cons.IH[of m1 "Suc i"] m1(2) by simp
qed simp

lemma parseModel_wf:
  assumes "parseModel e = Inr m"
  shows "model_wf m"
proof -
  obtain ty where e: "e = PtrTo ty" using assms by (auto simp: parseModel_def split: entity.splits)
  obtain m1 where m1: "parse_fields_from 0 (ty_Fields ty) empty_model = Inr m1" and "\<exists>t. m = m1\<lparr>m_TableName := t\<rparr>"
    using assms by (auto simp: parseModel_def e sum_bind_Inr_iff Let_def)
  moreover have "model_wf m1" using parse_fields_from_wf[OF empty_model_wf _ m1] by (simp add: empty_model_def)
  ultimately show ?thesis by (auto simp: model_wf_def in_range_def)
qed

lemma WithTableName_wf: "model_wf m \<Longrightarrow> WithTableName t m = Inr m' \<Longrightarrow> model_wf m'"
  by (auto simp: WithTableName_def model_wf_def in_range_def)

lemma set_col_nth:
  "k < length fs \<Longrightarrow> set_col i c fs ! k = (if k = i then (fs ! k)\<lparr>fd_ColName := c\<rparr> else fs ! k)"
  by (cases "k = i") (simp_all add: set_col_def)

lemma length_set_col [simp]: "length (set_col i c fs) = length fs"
  by (simp add: set_col_def)

lemma set_col_fields:
  assumes "k < length fs"
  shows "fd_GoName (set_col i c fs ! k) = fd_GoName (fs ! k)" "fd_Kind (set_col i c fs ! k) = fd_Kind (fs ! k)"
    "fd_ColName (set_col i c fs ! k) = (if k = i then c else fd_ColName (fs ! k))"
  using assms by (simp_all add: set_col_nth)

lemma WithColumName_wf:
  assumes wf: "model_wf m" and w: "WithColumName field c m = Inr m'"
  shows "model_wf m'"
proof -
  obtain fd old where fd: "m_FieldMap m field = Some fd" and old: "m_ColumnMap m (col_of m fd) = Some old"
    and m': "m' = m\<lparr>m_ColumnMap := ((m_ColumnMap m)(col_of m fd := None))(c \<mapsto> old),
      m_Fields := set_col fd c (set_col old c (m_Fields m))\<rparr>"
    using w by (auto simp: WithColumName_def split: option.splits)
  let ?fs = "set_col fd c (set_col old c (m_Fields m))"
  have len: "length ?fs = length (m_Fields m)" by simp
  have lt: "fd < length (m_Fields m)" "old < length (m_Fields m)" and oc: "fd_ColName (m_Fields m ! old) = col_of m fd"
    using wf fd old by (auto simp: model_wf_def)
  have go: "fd_GoName (?fs ! k) = fd_GoName (m_Fields m ! k)" "fd_Kind (?fs ! k) = fd_Kind (m_Fields m ! k)"
    "fd_ColName (?fs ! k) = (if k = fd \<or> k = old then c else fd_ColName (m_Fields m ! k))" if "k < length (m_Fields m)" for k
    using that by (simp_all add: set_col_fields)
  have names: "m_FieldMap m (fd_GoName g) \<noteq> None" if g: "g \<in> set ?fs" for g
  proof -
    obtain k where "k < length (m_Fields m)" "g = ?fs ! k" using g unfolding in_set_conv_nth len by blast
    then show ?thesis using wf go(1)[of k] nth_mem[of k "m_Fields m"] by (auto simp: model_wf_def)
  qed
  have cols: "k < length (m_Fields m) \<and> fd_ColName (?fs ! k) = d"
    if "(((m_ColumnMap m)(col_of m fd := None))(c \<mapsto> old)) d = Some k" for d k
  proof (cases "d = c")
    case True
    then show ?thesis using that lt go(3)[of old] by simp
  next
    case False
    then have d: "d \<noteq> col_of m fd" "m_ColumnMap m d = Some k" using that by (auto split: if_splits)
    then have k: "k < length (m_Fields m)" "fd_ColName (m_Fields m ! k) = d" using wf by (auto simp: model_wf_def)
    then have "k \<noteq> fd" "k \<noteq> old" using d(1) oc by (auto simp: col_of_def)
    then show ?thesis using k go(3)[OF k(1)] by simp
  qed
  have maps: "k < length (m_Fields m) \<and> fd_GoName (?fs ! k) = name" if "m_FieldMap m name = Some k" for name k
    using wf that go(1)[of k] by (auto simp: model_wf_def)
  have ver: "k < length (m_Fields m) \<and> isIntegerKind (fd_Kind (?fs ! k))" if "m_Version m = Some k" for k
    using wf that go(2)[of k] by (auto simp: model_wf_def)
  have marks: "in_range m' (m_CreatedAt m)" "in_range m' (m_UpdatedAt m)" "in_range m' (m_DeletedAt m)"
    using wf by (auto simp: model_wf_def in_range_def m')
  show ?thesis unfolding model_wf_def using names cols maps ver marks by (simp add: m')
qed

definition registry_wf :: "registry \<Rightarrow> bool" where
  "registry_wf r \<longleftrightarrow> (\<forall>e m. r e = Some m \<longrightarrow> model_wf m)"

lemma Registry_no_opts: "Registry e [] = parseModel e"
  by (simp add: Registry_def sum_bind_def split: sum.split)

lemma registry_Get_wf: "registry_wf r \<Longrightarrow> registry_wf (fst (registry_Get e r))"
  by (auto simp: registry_wf_def registry_Get_def Registry_no_opts parseModel_wf split: option.split sum.split)

lemma registry_gets_wf: "registry_wf r \<Longrightarrow> registry_wf (fold (\<lambda>e r. fst (registry_Get e r)) es r)"
  by (induction es arbitrary: r) (simp_all add: registry_Get_wf)

section \<open>Names\<close>

lemma lower_char_not_upper [simp]: "\<not> is_upper (lower_char c)"
  by (auto simp: is_upper_def lower_char_def Let_def)

lemma lower_char_id: "\<not> is_upper c \<Longrightarrow> lower_char c = c"
  by (auto simp: is_upper_def lower_char_def Let_def)

lemma underscore_not_upper [simp]: "\<not> is_upper CHR ''_''"
  by (simp add: is_upper_def)

lemma camel_no_upper: "c \<in> set (camel_loop prev s) \<Longrightarrow> \<not> is_upper c"
  by (induction prev s rule: camel_loop.induct) (auto split: option.splits if_splits)

lemma camel_id: "\<forall>c \<in> set s. \<not> is_upper c \<Longrightarrow> camel_loop prev s = s"
  by (induction prev s rule: camel_loop.induct) (auto simp: lower_char_id split: option.split)

text \<open>A column name derived from a field name is in lower case, and deriving it again changes nothing.\<close>

lemma Camel2Case_idem: "Camel2Case (Camel2Case s) = Camel2Case s"
  using camel_no_upper by (auto simp: Camel2Case_def intro: camel_id)

section \<open>Tags\<close>

definition print_pair :: "string \<times> string \<Rightarrow> string" where
  "print_pair = (\<lambda>(k, v). k @ ''('' @ v @ '')'')"

definition print_tag :: "(string \<times> string) list \<Rightarrow> string" where
  "print_tag kvs = join '';'' (map print_pair kvs)"

definition tag_ok :: "string \<times> string \<Rightarrow> bool" where
  "tag_ok = (\<lambda>(k, v). CHR ''('' \<notin> set k \<and> CHR '';'' \<notin> set k \<and> CHR ''('' \<notin> set v \<and> CHR '';'' \<notin> set v)"

lemma split_pair:
  assumes "tag_ok (k, v)"
  shows "split_on CHR ''('' (print_pair (k, v)) = [k, v @ '')'']" "has_suffix '')'' (print_pair (k, v))"
proof -
  have "split_on CHR ''('' (join ''('' [k, v @ '')'']) = [k, v @ '')'']"
    by (rule split_on_join) (use assms in \<open>auto simp: tag_ok_def\<close>)
  then show "split_on CHR ''('' (print_pair (k, v)) = [k, v @ '')'']" by (simp add: print_pair_def)
  show "has_suffix '')'' (print_pair (k, v))" by (simp add: print_pair_def)
qed

lemma tag_segments_print:
  assumes "\<forall>p \<in> set kvs. tag_ok p"
  shows "tag_segments (map print_pair kvs) res = Inr (res ++ map_of (rev kvs))"
  using assms
proof (induction kvs arbitrary: res)
  case (Cons p kvs)
  obtain k v where p: "p = (k, v)" by (cases p)
  have ok: "tag_ok (k, v)" using Cons.prems p by simp
  have "tag_segments (map print_pair (p # kvs)) res = tag_segments (map print_pair kvs) (res(k \<mapsto> v))"
    using split_pair[OF ok] by (simp add: p)
  also have "\<dots> = Inr (res(k \<mapsto> v) ++ map_of (rev kvs))" using Cons by simp
  also have "res(k \<mapsto> v) ++ map_of (rev kvs) = res ++ map_of (rev (p # kvs))"
    by (simp add: p map_of_append fun_eq_iff map_add_def split: option.split)
  finally show ?case .
qed simp

lemma print_pair_no_semicolon: "tag_ok p \<Longrightarrow> CHR '';'' \<notin> set (print_pair p)"
  by (cases p) (simp add: tag_ok_def print_pair_def)

text \<open>A printed tag is read back as the map it was printed from; of two equal keys the later counts.\<close>

lemma tag_roundtrip:
  assumes "kvs \<noteq> []" "\<forall>p \<in> set kvs. tag_ok p"
  shows "parseTag (Some (print_tag kvs)) = Inr (map_of (rev kvs))"
proof -
  have "split_on CHR '';'' (print_tag kvs) = map print_pair kvs"
    unfolding print_tag_def by (rule split_on_join) (use assms print_pair_no_semicolon in auto)
  then show ?thesis using tag_segments_print[OF assms(2), of Map.empty] by (simp add: parseTag_def)
qed

section \<open>Properties\<close>


end
