(* ===== verification/OrmBuilder.thy ===== *)
theory OrmBuilder
  imports OrmModel
begin

text \<open>
  The SQL builder of the mapper: \<^verbatim>\<open>orm/builder.go\<close>, \<^verbatim>\<open>expression.go\<close>, \<^verbatim>\<open>predicate.go\<close>, \<^verbatim>\<open>column.go\<close>,
  \<^verbatim>\<open>aggregate.go\<close>, \<^verbatim>\<open>table.go\<close>, \<^verbatim>\<open>assignment.go\<close> and \<^verbatim>\<open>dialect.go\<close>. A building step changes the
  builder and may fail; what it has written before stays. Values of the user are of type \<open>'v\<close>.
\<close>

section \<open>Expressions\<close>

text \<open>What is passed to the driver: a value of the user, an integer, or a point in time.\<close>

datatype 'v sqlarg = ArgVal 'v | ArgInt "64 word" | ArgTime int

record Table =
  tb_entity :: entity
  tb_alias :: string

record Column =
  c_name :: string
  c_table :: "Table option"
  c_alias :: string

record Aggregate =
  ag_fn :: string
  ag_arg :: string
  ag_alias :: string

datatype 'v expr =
    EColumn Column
  | EValue "'v sqlarg"
  | EAggregate Aggregate
  | ERaw string "'v sqlarg list"
  | EPred "'v predicate"
  | EMath "'v predicate"
and 'v predicate = Predicate "'v expr option" string "'v expr option"

text \<open>An argument of type \<^verbatim>\<open>any\<close> is an expression or a plain value.\<close>

type_synonym 'v anyarg = "'v expr + 'v sqlarg"

definition exprOf :: "'v anyarg \<Rightarrow> 'v expr" where
  "exprOf a = (case a of Inl e \<Rightarrow> e | Inr v \<Rightarrow> EValue v)"

definition Col :: "string \<Rightarrow> Column" where
  "Col name = \<lparr>c_name = name, c_table = None, c_alias = []\<rparr>"

definition Column_As :: "string \<Rightarrow> Column \<Rightarrow> Column" where
  "Column_As alias c = c\<lparr>c_alias := alias\<rparr>"

definition compare_with :: "string \<Rightarrow> 'v expr \<Rightarrow> 'v anyarg \<Rightarrow> 'v predicate" where
  "compare_with op l arg = Predicate (Some l) op (Some (exprOf arg))"

definition Column_EQ :: "Column \<Rightarrow> 'v anyarg \<Rightarrow> 'v predicate" where
  "Column_EQ c arg = compare_with ''='' (EColumn c) arg"

definition Column_GT :: "Column \<Rightarrow> 'v anyarg \<Rightarrow> 'v predicate" where
  "Column_GT c arg = compare_with ''>'' (EColumn c) arg"

definition Column_LT :: "Column \<Rightarrow> 'v anyarg \<Rightarrow> 'v predicate" where
  "Column_LT c arg = compare_with ''<'' (EColumn c) arg"

definition aggregate :: "string \<Rightarrow> string \<Rightarrow> Aggregate" where
  "aggregate fn arg = \<lparr>ag_fn = fn, ag_arg = arg, ag_alias = []\<rparr>"

definition Avg :: "string \<Rightarrow> Aggregate" where "Avg = aggregate ''AVG''"
definition Count :: "string \<Rightarrow> Aggregate" where "Count = aggregate ''COUNT''"
definition Sum :: "string \<Rightarrow> Aggregate" where "Sum = aggregate ''SUM''"
definition Max :: "string \<Rightarrow> Aggregate" where "Max = aggregate ''MAX''"
definition Min :: "string \<Rightarrow> Aggregate" where "Min = aggregate ''MIN''"

definition Aggregate_As :: "string \<Rightarrow> Aggregate \<Rightarrow> Aggregate" where
  "Aggregate_As alias a = a\<lparr>ag_alias := alias\<rparr>"

definition Aggregate_EQ :: "Aggregate \<Rightarrow> 'v anyarg \<Rightarrow> 'v predicate" where
  "Aggregate_EQ a arg = compare_with ''='' (EAggregate a) arg"

definition Aggregate_LT :: "Aggregate \<Rightarrow> 'v anyarg \<Rightarrow> 'v predicate" where
  "Aggregate_LT a arg = compare_with ''<'' (EAggregate a) arg"

definition Aggregate_GT :: "Aggregate \<Rightarrow> 'v anyarg \<Rightarrow> 'v predicate" where
  "Aggregate_GT a arg = compare_with ''>'' (EAggregate a) arg"

definition Raw :: "string \<Rightarrow> 'v sqlarg list \<Rightarrow> 'v expr" where
  "Raw raw args = ERaw raw args"

definition AsPredicate :: "'v expr \<Rightarrow> 'v predicate" where
  "AsPredicate r = Predicate (Some r) [] None"

definition Not :: "'v predicate \<Rightarrow> 'v predicate" where
  "Not p = Predicate None ''NOT'' (Some (EPred p))"

definition And :: "'v predicate \<Rightarrow> 'v predicate \<Rightarrow> 'v predicate" where
  "And l r = Predicate (Some (EPred l)) ''AND'' (Some (EPred r))"

definition Or :: "'v predicate \<Rightarrow> 'v predicate \<Rightarrow> 'v predicate" where
  "Or l r = Predicate (Some (EPred l)) ''OR'' (Some (EPred r))"

definition Math_Add :: "'v predicate \<Rightarrow> 'v anyarg \<Rightarrow> 'v predicate" where
  "Math_Add m v = compare_with ''+'' (EMath m) v"

definition Math_Sub :: "'v predicate \<Rightarrow> 'v anyarg \<Rightarrow> 'v predicate" where
  "Math_Sub m v = compare_with ''-'' (EMath m) v"

definition Math_Multi :: "'v predicate \<Rightarrow> 'v anyarg \<Rightarrow> 'v predicate" where
  "Math_Multi m v = compare_with ''*'' (EMath m) v"

definition Math_Div :: "'v predicate \<Rightarrow> 'v anyarg \<Rightarrow> 'v predicate" where
  "Math_Div m v = compare_with ''/'' (EMath m) v"

text \<open>Table references; \<open>TNil\<close> is the nil interface.\<close>

datatype 'v tableref = TNil | TTable Table | TJoin "'v tableref" string "'v tableref" "'v predicate list" "string list"

record 'v JoinBuilder =
  jb_left :: "'v tableref"
  jb_typ :: string
  jb_right :: "'v tableref"

definition TableOf :: "entity \<Rightarrow> Table" where
  "TableOf e = \<lparr>tb_entity = e, tb_alias = []\<rparr>"

definition Table_Col :: "Table \<Rightarrow> string \<Rightarrow> Column" where
  "Table_Col t col = \<lparr>c_name = col, c_table = Some t, c_alias = []\<rparr>"

definition Table_As :: "string \<Rightarrow> Table \<Rightarrow> Table" where
  "Table_As alias t = t\<lparr>tb_alias := alias\<rparr>"

text \<open>\<^verbatim>\<open>Table\<close> and \<^verbatim>\<open>Join\<close> have the same three methods.\<close>

definition Join :: "'v tableref \<Rightarrow> 'v tableref \<Rightarrow> 'v JoinBuilder" where
  "Join l r = \<lparr>jb_left = l, jb_typ = ''JOIN'', jb_right = r\<rparr>"

definition LeftJoin :: "'v tableref \<Rightarrow> 'v tableref \<Rightarrow> 'v JoinBuilder" where
  "LeftJoin l r = \<lparr>jb_left = l, jb_typ = ''LEFT JOIN'', jb_right = r\<rparr>"

definition RightJoin :: "'v tableref \<Rightarrow> 'v tableref \<Rightarrow> 'v JoinBuilder" where
  "RightJoin l r = \<lparr>jb_left = l, jb_typ = ''RIGHT JOIN'', jb_right = r\<rparr>"

definition On :: "'v predicate list \<Rightarrow> 'v JoinBuilder \<Rightarrow> 'v tableref" where
  "On ps j = TJoin (jb_left j) (jb_typ j) (jb_right j) ps []"

definition Using :: "string list \<Rightarrow> 'v JoinBuilder \<Rightarrow> 'v tableref" where
  "Using usg j = TJoin (jb_left j) (jb_typ j) (jb_right j) [] usg"

datatype 'v assignable = Assignment string "'v expr" | AColumn Column

definition Assign :: "string \<Rightarrow> 'v anyarg \<Rightarrow> 'v assignable" where
  "Assign column v = Assignment column (exprOf v)"

section \<open>The builder\<close>

datatype Dialect = MySQL | SQLite | StandardSql

record 'v builder =
  b_reg :: registry
  b_model :: Model
  b_dialect :: Dialect
  b_sql :: string
  b_args :: "'v sqlarg list"
  b_quoter :: char

type_synonym 'v build = "'v builder \<Rightarrow> 'v builder \<times> orm_error option"

text \<open>Steps one after the other, up to the first error.\<close>

fun run :: "'v build list \<Rightarrow> 'v build" where
  "run [] b = (b, None)"
| "run (f # fs) b = (case f b of (b, Some e) \<Rightarrow> (b, Some e) | (b, None) \<Rightarrow> run fs b)"

definition emit :: "string \<Rightarrow> 'v build" where
  "emit s b = (b\<lparr>b_sql := b_sql b @ s\<rparr>, None)"

definition add_args :: "'v sqlarg list \<Rightarrow> 'v build" where
  "add_args as b = (b\<lparr>b_args := b_args b @ as\<rparr>, None)"

definition fail :: "orm_error \<Rightarrow> 'v build" where
  "fail e b = (b, Some e)"

definition quoted :: "char \<Rightarrow> string \<Rightarrow> string" where
  "quoted q name = q # concat (map (\<lambda>c. if c = q then [q, q] else [c]) name) @ [q]"

definition quote :: "string \<Rightarrow> 'v build" where
  "quote name b = emit (quoted (b_quoter b) name) b"

text \<open>A step for each element, with a separator between them.\<close>

definition sep_by :: "string \<Rightarrow> 'v build list \<Rightarrow> 'v build list" where
  "sep_by sep fs = concat (map (\<lambda>(i, f). if i > 0 then [emit sep, f] else [f]) (enumerate 0 fs))"

definition buildColumn :: "Column \<Rightarrow> 'v build" where
  "buildColumn col b =
     (case c_table col of
        None \<Rightarrow>
          (case field_of (b_model b) (c_name col) of
             None \<Rightarrow> (b, Some (ErrUnknownField (c_name col)))
           | Some f \<Rightarrow> run (quote (fd_ColName f) # (if c_alias col \<noteq> [] then [emit '' AS '', quote (c_alias col)] else [])) b)
      | Some t \<Rightarrow>
          (case registry_Get (tb_entity t) (b_reg b) of
             (r, Inl e) \<Rightarrow> (b\<lparr>b_reg := r\<rparr>, Some e)
           | (r, Inr meta) \<Rightarrow>
               (let b = b\<lparr>b_reg := r\<rparr>
                in case field_of meta (c_name col) of
                     None \<Rightarrow> (b, Some (ErrUnknownField (c_name col)))
                   | Some f \<Rightarrow>
                       run [quote (if tb_alias t = [] then m_TableName meta else tb_alias t), emit ''.'',
                            quote (fd_ColName f)] b)))"

definition buildAggregate :: "Aggregate \<Rightarrow> 'v build" where
  "buildAggregate a =
     run ([emit (ag_fn a), emit ''('', buildColumn (Col (ag_arg a)), emit '')''] @
          (if ag_alias a \<noteq> [] then [emit '' AS '', quote (ag_alias a)] else []))"

fun buildExpression :: "'v expr \<Rightarrow> 'v build"
  and buildBinaryExpr :: "'v predicate \<Rightarrow> 'v build"
  and buildSubExpr :: "'v expr option \<Rightarrow> 'v build" where
  "buildExpression (EColumn c) = buildColumn (c\<lparr>c_alias := []\<rparr>)"
| "buildExpression (EValue v) = run [emit ''?'', add_args [v]]"
| "buildExpression (EAggregate a) = buildAggregate a"
| "buildExpression (EPred p) = buildBinaryExpr p"
| "buildExpression (ERaw raw args) = run [emit ''('', emit raw, add_args args, emit '')'']"
| "buildExpression (EMath m) = fail ErrUnsupportedExpression"
| "buildBinaryExpr (Predicate l op r) =
     run ([buildSubExpr l] @ (if op \<noteq> [] then [emit ('' '' @ op @ '' '')] else []) @
          (if r \<noteq> None then [buildSubExpr r] else []))"
| "buildSubExpr None = run []"
| "buildSubExpr (Some (EPred p)) = run [emit ''('', buildBinaryExpr p, emit '')'']"
| "buildSubExpr (Some e) = buildExpression e"

definition buildPredicates :: "'v predicate list \<Rightarrow> 'v build" where
  "buildPredicates ps =
     (case ps of
        [] \<Rightarrow> fail (ErrPanic IndexPanic)
      | p # ps \<Rightarrow> buildExpression (EPred (fold (\<lambda>r p. And p r) ps p)))"

definition buildAssignment :: "string \<Rightarrow> 'v expr \<Rightarrow> 'v build" where
  "buildAssignment column v = run [buildColumn (Col column), emit ''='', buildExpression v]"

definition buildWhereWithSoftDelete :: "'v predicate list \<Rightarrow> 'v build" where
  "buildWhereWithSoftDelete where' b =
     (case m_DeletedAt (b_model b) of
        None \<Rightarrow> (if where' = [] then (b, None) else run [emit '' WHERE '', buildPredicates where'] b)
      | Some i \<Rightarrow>
          run ([emit '' WHERE '', quote (col_of (b_model b) i), emit '' IS NULL''] @
               (if where' \<noteq> [] then [emit '' AND '', buildPredicates where'] else [])) b)"

section \<open>Dialects\<close>

record 'v Upsert =
  up_conflictColumns :: "string list"
  up_assigns :: "'v assignable list"

definition quoter :: "Dialect \<Rightarrow> char" where
  "quoter d = (case d of MySQL \<Rightarrow> CHR 0x60 | SQLite \<Rightarrow> CHR 0x60 | StandardSql \<Rightarrow> CHR 0x22)"

text \<open>
  The loop over the assignments. An \<^verbatim>\<open>Assignment\<close> returns from the function, so the ones after it
  are not written. \<open>col\<close> writes the two ends of a plain column.
\<close>

fun upsert_loop :: "(string \<Rightarrow> 'v build list) \<Rightarrow> bool \<Rightarrow> 'v assignable list \<Rightarrow> 'v build" where
  "upsert_loop col first [] b = (b, None)"
| "upsert_loop col first (a # as) b =
     (case run (if first then [] else [emit '','']) b of
        (b, Some e) \<Rightarrow> (b, Some e)
      | (b, None) \<Rightarrow>
          (case a of
             Assignment column v \<Rightarrow> buildAssignment column v b
           | AColumn c \<Rightarrow>
               (case field_of (b_model b) (c_name c) of
                  None \<Rightarrow> (b, Some (ErrUnknownField (c_name c)))
                | Some f \<Rightarrow>
                    (case run (col (fd_ColName f)) b of
                       (b, Some e) \<Rightarrow> (b, Some e)
                     | (b, None) \<Rightarrow> upsert_loop col False as b))))"

definition mysql_buildUpsert :: "'v Upsert \<Rightarrow> 'v build" where
  "mysql_buildUpsert u =
     run [emit '' ON DUPLICATE KEY UPDATE '',
          upsert_loop (\<lambda>c. [quote c, emit ''=VALUES('', quote c, emit '')'']) True (up_assigns u)]"

definition sqlite_buildUpsert :: "'v Upsert \<Rightarrow> 'v build" where
  "sqlite_buildUpsert u =
     run ([emit '' ON CONFLICT(''] @ sep_by '','' (map (\<lambda>c. buildColumn (Col c)) (up_conflictColumns u)) @
          [emit '') DO UPDATE SET '',
           upsert_loop (\<lambda>c. [quote c, emit ''=excluded.'', quote c]) True (up_assigns u)])"

definition buildUpsert :: "Dialect \<Rightarrow> 'v Upsert \<Rightarrow> 'v build" where
  "buildUpsert d u =
     (case d of MySQL \<Rightarrow> mysql_buildUpsert u | SQLite \<Rightarrow> sqlite_buildUpsert u
      | StandardSql \<Rightarrow> fail (ErrUnsupportedFeature ''upsert''))"

section \<open>Placeholders\<close>

text \<open>
  How a database reads a statement: a name in quotes ends at the next quote, a doubled quote
  stands for itself, and a question mark outside of quotes is a placeholder. \<open>scan\<close> counts the
  placeholders and says whether the text ends inside quotes.
\<close>

fun scan :: "char \<Rightarrow> bool \<Rightarrow> string \<Rightarrow> nat \<times> bool" where
  "scan q inq [] = (0, inq)"
| "scan q inq (c # cs) =
     (if c = q then scan q (\<not> inq) cs
      else (let (n, e) = scan q inq cs in (if c = CHR ''?'' \<and> \<not> inq then n + 1 else n, e)))"

definition lexes :: "char \<Rightarrow> string \<Rightarrow> nat \<Rightarrow> bool" where
  "lexes q s n \<longleftrightarrow> scan q False s = (n, False)"

lemma scan_append:
  "scan q inq (s @ t) = (let (n, e) = scan q inq s; (m, e') = scan q e t in (n + m, e'))"
  by (induction q inq s rule: scan.induct) (auto simp: Let_def split_def)

lemma lexes_append: "lexes q s n \<Longrightarrow> lexes q t m \<Longrightarrow> lexes q (s @ t) (n + m)"
  by (simp add: lexes_def scan_append)

lemma lexes_Nil [simp]: "lexes q [] n \<longleftrightarrow> n = 0"
  by (auto simp: lexes_def)

text \<open>Keywords and punctuation: neither a quote nor a question mark.\<close>

definition plain :: "char \<Rightarrow> string \<Rightarrow> bool" where
  "plain q s \<longleftrightarrow> q \<notin> set s \<and> CHR ''?'' \<notin> set s"

lemma lexes_plain: "plain q s \<Longrightarrow> lexes q s 0"
proof -
  have "q \<notin> set s \<Longrightarrow> CHR ''?'' \<notin> set s \<Longrightarrow> scan q False s = (0, False)" by (induction s) auto
  then show "plain q s \<Longrightarrow> lexes q s 0" by (simp add: plain_def lexes_def)
qed

lemma scan_inside: "scan q True (concat (map (\<lambda>c. if c = q then [q, q] else [c]) name) @ rest) = scan q True rest"
  by (induction name) (auto simp: split_def Let_def)

lemma lexes_quoted: "lexes q (quoted q name) 0"
  using scan_inside[of q name "[q]"] by (simp add: lexes_def quoted_def)

text \<open>
  The effect of a step that succeeds: it keeps the model and appends text that ends outside
  of quotes, in which the placeholders outnumber the arguments it adds by \<open>d\<close>.
\<close>

definition wrote_some :: "char \<Rightarrow> int \<Rightarrow> 'v builder \<Rightarrow> 'v builder \<Rightarrow> bool" where
  "wrote_some q d b b' \<longleftrightarrow> b_quoter b' = q \<and> b_model b' = b_model b \<and>
     (\<exists>s as n. b_sql b' = b_sql b @ s \<and> b_args b' = b_args b @ as \<and> lexes q s n \<and> int n = int (length as) + d)"

definition surplus :: "char \<Rightarrow> int \<Rightarrow> 'v build \<Rightarrow> bool" where
  "surplus q d f \<longleftrightarrow> (\<forall>b b'. b_quoter b = q \<and> f b = (b', None) \<longrightarrow> wrote_some q d b b')"

lemma surplusI: "(\<And>b b'. b_quoter b = q \<Longrightarrow> f b = (b', None) \<Longrightarrow> wrote_some q d b b') \<Longrightarrow> surplus q d f"
  by (simp add: surplus_def)

lemma surplusD: "surplus q d f \<Longrightarrow> b_quoter b = q \<Longrightarrow> f b = (b', None) \<Longrightarrow> wrote_some q d b b'"
  by (simp add: surplus_def)

lemma wrote_none: "b_quoter b = q \<Longrightarrow> wrote_some q 0 b b"
  by (auto simp: wrote_some_def intro!: exI[of _ "[]"])

lemma wrote_trans:
  assumes "wrote_some q d b1 b2" "wrote_some q e b2 b3"
  shows "wrote_some q (d + e) b1 b3"
proof -
  obtain s as n where 1: "b_sql b2 = b_sql b1 @ s" "b_args b2 = b_args b1 @ as" "lexes q s n" "int n = int (length as) + d"
    using assms(1) by (auto simp: wrote_some_def)
  obtain t bs m where 2: "b_sql b3 = b_sql b2 @ t" "b_args b3 = b_args b2 @ bs" "lexes q t m" "int m = int (length bs) + e" "b_quoter b3 = q"
    using assms(2) by (auto simp: wrote_some_def)
  have "b_sql b3 = b_sql b1 @ (s @ t) \<and> b_args b3 = b_args b1 @ (as @ bs) \<and> lexes q (s @ t) (n + m) \<and>
      int (n + m) = int (length (as @ bs)) + (d + e)"
    using 1 2 lexes_append[OF 1(3) 2(3)] by simp
  moreover have "b_model b3 = b_model b1" using assms by (simp add: wrote_some_def)
  ultimately show ?thesis using 2(5) unfolding wrote_some_def by blast
qed

lemma wrote_reg: "wrote_some q d (b\<lparr>b_reg := r\<rparr>) b' = wrote_some q d b b'"
  by (simp add: wrote_some_def)

named_theorems balanced \<open>the surplus of placeholders of building steps\<close>

lemma surplus_emit [balanced]: "plain q s \<Longrightarrow> surplus q 0 (emit s)"
  by (rule surplusI) (auto simp: emit_def wrote_some_def intro!: exI[of _ s] exI[of _ 0] lexes_plain)

lemma surplus_raw: "lexes q s n \<Longrightarrow> surplus q (int n) (emit s)"
  by (rule surplusI) (auto simp: emit_def wrote_some_def)

lemma surplus_args [balanced]: "surplus q (- int (length as)) (add_args as)"
proof (rule surplusI)
  fix b b' :: "'a builder"
  assume "b_quoter b = q" "add_args as b = (b', None)"
  then have "b_quoter b' = q" "b_model b' = b_model b" "b_sql b' = b_sql b @ []" "b_args b' = b_args b @ as"
    by (auto simp: add_args_def)
  then show "wrote_some q (- int (length as)) b b'"
    unfolding wrote_some_def by (intro conjI exI[of _ "[]"] exI[of _ as] exI[of _ 0]) simp_all
qed

lemma surplus_quote [balanced]: "surplus q 0 (quote name)"
  by (rule surplusI) (auto simp: quote_def emit_def wrote_some_def lexes_quoted)

lemma surplus_fail [balanced]: "surplus q d (fail e)"
  by (rule surplusI) (simp add: fail_def)

lemma surplus_run_Nil [balanced]: "surplus q 0 (run [])"
  by (rule surplusI) (simp add: wrote_none)

lemma surplus_run_Cons:
  assumes "surplus q d f" "surplus q e (run fs)"
  shows "surplus q (d + e) (run (f # fs))"
proof (rule surplusI)
  fix b b'
  assume b: "b_quoter b = q" "run (f # fs) b = (b', None)"
  then obtain b1 where b1: "f b = (b1, None)" "run fs b1 = (b', None)"
    by (auto split: prod.splits option.splits)
  have w: "wrote_some q d b b1" by (rule surplusD[OF assms(1) b(1) b1(1)])
  then have "b_quoter b1 = q" by (simp add: wrote_some_def)
  from wrote_trans[OF w surplusD[OF assms(2) this b1(2)]] show "wrote_some q (d + e) b b'" .
qed

text \<open>Steps that are balanced one by one are balanced together.\<close>

lemma surplus_run_all [balanced]: "(\<And>f. f \<in> set fs \<Longrightarrow> surplus q 0 f) \<Longrightarrow> surplus q 0 (run fs)"
proof (induction fs)
  case (Cons f fs)
  have "surplus q (0 + 0) (run (f # fs))" by (rule surplus_run_Cons) (use Cons in auto)
  then show ?case by (simp only: add_0)
qed (rule surplus_run_Nil)

lemma surplus_placeholder: 
  assumes "q \<noteq> CHR ''?''"
  shows "surplus q 0 (run [emit ''?'', add_args [v]])"
proof -
  have "lexes q ''?'' 1" using assms by (simp add: lexes_def)
  then have "surplus q (int 1 + (- int (length [v]) + 0)) (run [emit ''?'', add_args [v]])"
    by (intro surplus_run_Cons surplus_raw surplus_args surplus_run_Nil)
  moreover have "int 1 + (- int (length [v]) + 0) = 0" by simp
  ultimately show ?thesis by (simp only:)
qed

lemma surplus_raw_expr:
  assumes "lexes q raw (length args)" "plain q ''()''"
  shows "surplus q 0 (run [emit ''('', emit raw, add_args args, emit '')''])"
proof -
  have "surplus q (0 + (int (length args) + (- int (length args) + (0 + 0)))) (run [emit ''('', emit raw, add_args args, emit '')''])"
    using assms by (intro surplus_run_Cons surplus_raw surplus_args surplus_run_Nil surplus_emit) (simp_all add: plain_def)
  moreover have "0 + (int (length args) + (- int (length args) + (0 + 0))) = (0 :: int)" by simp
  ultimately show ?thesis by (simp only:)
qed

lemma surplus_sep_by: "plain q sep \<Longrightarrow> (\<And>f. f \<in> set fs \<Longrightarrow> surplus q 0 f) \<Longrightarrow> f \<in> set (sep_by sep fs) \<Longrightarrow> surplus q 0 f"
  by (auto simp: sep_by_def enumerate_eq_zip dest: set_zip_rightD intro: balanced split: if_splits)

definition is_quote :: "char \<Rightarrow> bool" where
  "is_quote q \<longleftrightarrow> q = CHR 0x60 \<or> q = CHR 0x22"

lemma quoter_is_quote [simp]: "is_quote (quoter d)"
  by (cases d) (simp_all add: quoter_def is_quote_def)

lemma is_quote_question: "is_quote q \<Longrightarrow> q \<noteq> CHR ''?''"
  by (auto simp: is_quote_def)

text \<open>
  Expressions the builder is given: raw SQL has as many placeholders as arguments and ends
  outside of quotes; operators and function names are plain, as the constructors make them.
\<close>

fun expr_ok :: "char \<Rightarrow> 'v expr \<Rightarrow> bool"
  and pred_ok :: "char \<Rightarrow> 'v predicate \<Rightarrow> bool"
  and opt_ok :: "char \<Rightarrow> 'v expr option \<Rightarrow> bool" where
  "expr_ok q (EColumn c) = True"
| "expr_ok q (EValue v) = True"
| "expr_ok q (EAggregate a) = plain q (ag_fn a)"
| "expr_ok q (ERaw raw args) = lexes q raw (length args)"
| "expr_ok q (EPred p) = pred_ok q p"
| "expr_ok q (EMath p) = True"
| "pred_ok q (Predicate l op r) \<longleftrightarrow> plain q op \<and> opt_ok q l \<and> opt_ok q r"
| "opt_ok q None = True"
| "opt_ok q (Some e) = expr_ok q e"

lemma plain_append [simp]: "plain q (s @ t) \<longleftrightarrow> plain q s \<and> plain q t"
  by (auto simp: plain_def)

lemma surplus_buildColumn [balanced]: "is_quote q \<Longrightarrow> surplus q 0 (buildColumn col)"
proof (rule surplusI)
  fix b b' :: "'a builder"
  assume q: "is_quote q" and b: "b_quoter b = q" "buildColumn col b = (b', None)"
  have lit: "plain q '' AS ''" "plain q ''.''" using q by (auto simp: plain_def is_quote_def)
  have named: "surplus q 0 (run (quote n # (if a \<noteq> [] then [emit '' AS '', quote a] else [])) :: 'a build)" for n a
    by (rule surplus_run_all) (use lit in \<open>auto intro: balanced\<close>)
  have dotted: "surplus q 0 (run [quote t, emit ''.'', quote n] :: 'a build)" for t n
    by (rule surplus_run_all) (use lit in \<open>auto intro: balanced\<close>)
  show "wrote_some q 0 b b'"
  proof (cases "c_table col")
    case None
    then obtain f where f: "field_of (b_model b) (c_name col) = Some f"
      using b(2) by (auto simp: buildColumn_def simp del: run.simps split: option.splits)
    have "run (quote (fd_ColName f) # (if c_alias col \<noteq> [] then [emit '' AS '', quote (c_alias col)] else [])) b = (b', None)"
      using b(2) None f by (simp add: buildColumn_def del: run.simps)
    then show ?thesis by (rule surplusD[OF named b(1)])
  next
    case (Some t)
    obtain r meta f where f: "registry_Get (tb_entity t) (b_reg b) = (r, Inr meta)" "field_of meta (c_name col) = Some f"
      using b(2) Some by (auto simp: buildColumn_def Let_def simp del: run.simps split: option.splits prod.splits sum.splits)
    have "run [quote (if tb_alias t = [] then m_TableName meta else tb_alias t), emit ''.'',
        quote (fd_ColName f)] (b\<lparr>b_reg := r\<rparr>) = (b', None)"
      using b(2) Some f by (simp add: buildColumn_def Let_def del: run.simps)
    then have "wrote_some q 0 (b\<lparr>b_reg := r\<rparr>) b'" by (rule surplusD[OF dotted, rotated]) (simp add: b(1))
    then show ?thesis by (simp only: wrote_reg)
  qed
qed

lemma surplus_buildAggregate [balanced]: "is_quote q \<Longrightarrow> plain q (ag_fn a) \<Longrightarrow> surplus q 0 (buildAggregate a)"
  unfolding buildAggregate_def
  by (rule surplus_run_all) (auto intro: balanced simp: plain_def is_quote_def)

lemma surplus_expression:
  fixes e :: "'v expr" and p :: "'v predicate" and x :: "'v expr option"
  assumes q: "is_quote q"
  shows "expr_ok q e \<Longrightarrow> surplus q 0 (buildExpression e)" "pred_ok q p \<Longrightarrow> surplus q 0 (buildBinaryExpr p)"
    "opt_ok q x \<Longrightarrow> surplus q 0 (buildSubExpr x)"
proof (induction e and p and x rule: buildExpression_buildBinaryExpr_buildSubExpr.induct)
  case (1 c)
  show ?case using q by (simp only: buildExpression.simps) (rule balanced)
next
  case (2 v)
  show ?case unfolding buildExpression.simps by (rule surplus_placeholder[OF is_quote_question[OF q]])
next
  case (3 a)
  then show ?case using q by (simp only: buildExpression.simps expr_ok.simps) (rule balanced)
next
  case (4 p)
  then show ?case by simp
next
  case (5 raw args)
  then show ?case unfolding buildExpression.simps
    by (intro surplus_raw_expr) (use q in \<open>auto simp: plain_def is_quote_def\<close>)
next
  case (6 m)
  show ?case unfolding buildExpression.simps by (rule balanced)
next
  case (7 l op r)
  have "plain q ('' '' @ op @ '' '')" using 7(3) q by (auto simp: plain_def is_quote_def)
  then show ?case unfolding buildBinaryExpr.simps
    by (intro surplus_run_all) (use 7 in \<open>auto intro: balanced split: if_splits\<close>)
next
  case 8
  show ?case unfolding buildSubExpr.simps by (rule surplus_run_Nil)
next
  case (9 p)
  have "plain q ''(''" "plain q '')''" using q by (auto simp: plain_def is_quote_def)
  then show ?case unfolding buildSubExpr.simps
    by (intro surplus_run_all) (use 9 in \<open>auto intro: balanced\<close>)
qed simp_all

lemma fold_And_ok: "pred_ok q p \<Longrightarrow> \<forall>r \<in> set ps. pred_ok q r \<Longrightarrow> is_quote q \<Longrightarrow> pred_ok q (fold (\<lambda>r p. And p r) ps p)"
  by (induction ps arbitrary: p) (auto simp: And_def plain_def is_quote_def)

lemma surplus_buildPredicates [balanced]:
  "is_quote q \<Longrightarrow> \<forall>p \<in> set ps. pred_ok q p \<Longrightarrow> surplus q 0 (buildPredicates ps)"
  by (cases ps) (auto simp: buildPredicates_def intro: balanced surplus_expression fold_And_ok)

lemma surplus_buildAssignment [balanced]: "is_quote q \<Longrightarrow> expr_ok q v \<Longrightarrow> surplus q 0 (buildAssignment c v)"
  unfolding buildAssignment_def
  by (rule surplus_run_all) (auto intro: balanced surplus_expression simp: plain_def is_quote_def)

lemma surplus_where [balanced]:
  assumes q: "is_quote q" and ps: "\<forall>p \<in> set ps. pred_ok q p"
  shows "surplus q 0 (buildWhereWithSoftDelete ps)"
proof (rule surplusI)
  fix b b' :: "'a builder"
  assume b: "b_quoter b = q" "buildWhereWithSoftDelete ps b = (b', None)"
  have lit: "plain q '' WHERE ''" "plain q '' IS NULL''" "plain q '' AND ''" using q by (auto simp: plain_def is_quote_def)
  have 1: "surplus q 0 (run [emit '' WHERE '', buildPredicates ps])"
    by (rule surplus_run_all) (use lit q ps in \<open>auto intro: balanced\<close>)
  have 2: "surplus q 0 (run ([emit '' WHERE '', quote c, emit '' IS NULL''] @ (if ps \<noteq> [] then [emit '' AND '', buildPredicates ps] else [])))" for c
    by (rule surplus_run_all) (use lit q ps in \<open>auto intro: balanced split: if_splits\<close>)
  show "wrote_some q 0 b b'"
    using b(2) surplusD[OF 1 b(1), of b'] surplusD[OF 2 b(1), of _ b'] wrote_none[OF b(1)]
    by (auto simp: buildWhereWithSoftDelete_def simp del: run.simps split: option.splits if_splits)
qed

definition assignable_ok :: "char \<Rightarrow> 'v assignable \<Rightarrow> bool" where
  "assignable_ok q a = (case a of Assignment c v \<Rightarrow> expr_ok q v | AColumn c \<Rightarrow> True)"

lemma surplus_upsert_loop:
  assumes q: "is_quote q" and col: "\<And>c. surplus q 0 (run (col c))" and as: "\<forall>a \<in> set as. assignable_ok q a"
  shows "surplus q 0 (upsert_loop col first as)"
  using as
proof (induction as arbitrary: first)
  case Nil
  show ?case by (rule surplusI) (simp add: wrote_none)
next
  case (Cons a as)
  let ?comma = "run (if first then [] else [emit '',''])"
  have comma: "surplus q 0 ?comma"
    by (rule surplus_run_all) (use q in \<open>auto intro: balanced simp: plain_def is_quote_def split: if_splits\<close>)
  have rest: "surplus q 0 (upsert_loop col False as)" using Cons by simp
  show ?case
  proof (rule surplusI)
    fix b b'
    assume b: "b_quoter b = q" "upsert_loop col first (a # as) b = (b', None)"
    obtain b1 where b1: "?comma b = (b1, None)"
      using b(2) by (auto simp del: run.simps split: prod.splits option.splits)
    have w1: "wrote_some q 0 b b1" by (rule surplusD[OF comma b(1) b1])
    then have q1: "b_quoter b1 = q" by (simp add: wrote_some_def)
    have "wrote_some q 0 b1 b'"
    proof (cases a)
      case (Assignment c v)
      have "surplus q 0 (buildAssignment c v)"
        using q Cons.prems Assignment by (auto simp: assignable_ok_def intro: balanced)
      moreover have "buildAssignment c v b1 = (b', None)" using b(2) b1 Assignment by (simp del: run.simps)
      ultimately show ?thesis using q1 by (blast intro: surplusD)
    next
      case (AColumn c)
      obtain f b2 where f: "field_of (b_model b1) (c_name c) = Some f" "run (col (fd_ColName f)) b1 = (b2, None)"
        "upsert_loop col False as b2 = (b', None)"
        using b(2) b1 AColumn by (auto simp del: run.simps split: option.splits prod.splits)
      have w2: "wrote_some q 0 b1 b2" by (rule surplusD[OF col q1 f(2)])
      then have "b_quoter b2 = q" by (simp add: wrote_some_def)
      from wrote_trans[OF w2 surplusD[OF rest this f(3)]] show ?thesis by simp
    qed
    from wrote_trans[OF w1 this] show "wrote_some q 0 b b'" by simp
  qed
qed

lemma surplus_buildUpsert [balanced]:
  assumes q: "is_quote q" and as: "\<forall>a \<in> set (up_assigns u). assignable_ok q a"
  shows "surplus q 0 (buildUpsert d u)"
proof (cases d)
  case MySQL
  have cols: "surplus q 0 (run [quote c, emit ''=VALUES('', quote c, emit '')''] :: 'a build)" for c
    by (rule surplus_run_all) (use q in \<open>auto intro: balanced simp: plain_def is_quote_def\<close>)
  show ?thesis unfolding MySQL buildUpsert_def Dialect.case mysql_buildUpsert_def
    by (rule surplus_run_all)
      (use q as cols in \<open>auto intro: balanced surplus_upsert_loop simp: plain_def is_quote_def simp del: run.simps\<close>)
next
  case SQLite
  have cols: "surplus q 0 (run [quote c, emit ''=excluded.'', quote c] :: 'a build)" for c
    by (rule surplus_run_all) (use q in \<open>auto intro: balanced simp: plain_def is_quote_def\<close>)
  have comma: "plain q '',''" using q by (auto simp: plain_def is_quote_def)
  have "surplus q 0 f" if "f \<in> set (sep_by '','' (map (\<lambda>c. buildColumn (Col c)) (up_conflictColumns u)))" for f :: "'a build"
    by (rule surplus_sep_by[OF comma _ that]) (use q in \<open>auto intro: balanced\<close>)
  then show ?thesis unfolding SQLite buildUpsert_def Dialect.case sqlite_buildUpsert_def
    by (intro surplus_run_all)
      (use q as cols in \<open>auto intro: balanced surplus_upsert_loop simp: plain_def is_quote_def simp del: run.simps\<close>)
next
  case StandardSql
  then show ?thesis by (simp add: buildUpsert_def surplus_fail)
qed

text \<open>Assignments after an \<^verbatim>\<open>Assignment\<close> are lost.\<close>

lemma upsert_drops_rest:
  "upsert_loop col first (Assignment c v # as) b = upsert_loop col first [Assignment c v] b"
  by simp

text \<open>
  With a soft-delete column and a condition that is a disjunction, the text binds the filter
  to the first alternative only: \<^verbatim>\<open>deleted_at IS NULL AND (p) OR (r)\<close>.
\<close>

lemma soft_delete_or:
  assumes "m_DeletedAt (b_model b) = Some i"
  shows "buildWhereWithSoftDelete [Or p r] b =
     run [emit '' WHERE '', quote (col_of (b_model b) i), emit '' IS NULL'', emit '' AND '',
          buildSubExpr (Some (EPred p)), emit '' OR '', buildSubExpr (Some (EPred r))] b"
  using assms
  by (simp add: buildWhereWithSoftDelete_def buildPredicates_def Or_def emit_def quote_def split: option.split prod.split)

end
