(* ===== verification/OrmQuery.thy ===== *)
theory OrmQuery
  imports OrmBuilder
begin

text \<open>
  The four statements: \<^verbatim>\<open>Build\<close> of \<^verbatim>\<open>orm/select.go\<close>, \<^verbatim>\<open>insert.go\<close>, \<^verbatim>\<open>updater.go\<close> and \<^verbatim>\<open>delete.go\<close>,
  with the field access of \<^verbatim>\<open>orm/internal/valuer\<close>. The type parameter of the Go code is the
  entity of the statement. An object of that type is a map from field names to values, in
  which integer fields hold an \<open>ArgInt\<close>; a nil pointer is \<open>None\<close>.
\<close>

section \<open>Objects\<close>

type_synonym 'v object = "string \<rightharpoonup> 'v sqlarg"

datatype Creator = ReflectValue | UnsafeValue

definition GetFieldValue :: "Creator \<Rightarrow> Model \<Rightarrow> 'v object option \<Rightarrow> string \<Rightarrow> orm_error + 'v sqlarg" where
  "GetFieldValue creator m val name =
     (case creator of
        ReflectValue \<Rightarrow>
          (case val of
             None \<Rightarrow> Inl (ErrPanic NilPanic)
           | Some ob \<Rightarrow>
               (case ob name of
                  None \<Rightarrow> Inl (ErrUnknownField name)
                | Some v \<Rightarrow> if exported name then Inr v else Inl (ErrPanic (UserPanic ''unexported field''))))
      | UnsafeValue \<Rightarrow>
          (if field_of m name = None then Inl (ErrUnknownField name)
           else case val of
               None \<Rightarrow> Inl (ErrNilValue name)
             | Some ob \<Rightarrow> (case ob name of None \<Rightarrow> Inl (ErrUnknownField name) | Some v \<Rightarrow> Inr v)))"

definition readVersionFromVal :: "'v object \<Rightarrow> Field \<Rightarrow> orm_error + 64 word" where
  "readVersionFromVal ob f =
     (case ob (fd_GoName f) of
        None \<Rightarrow> Inl (ErrUnknownField (fd_GoName f))
      | Some (ArgInt n) \<Rightarrow> Inr n
      | Some _ \<Rightarrow> Inl (ErrFieldType (fd_GoName f)))"

record 'v Query =
  q_SQL :: string
  q_Args :: "'v sqlarg list"

definition finish :: "'v builder \<times> orm_error option \<Rightarrow> 'v builder \<times> (orm_error + 'v Query)" where
  "finish = (\<lambda>(b, err).
     case err of Some e \<Rightarrow> (b, Inl e) | None \<Rightarrow> (b, Inr \<lparr>q_SQL = b_sql b, q_Args = b_args b\<rparr>))"

definition get_model :: "entity \<Rightarrow> 'v build" where
  "get_model e b =
     (case registry_Get e (b_reg b) of
        (r, Inl err) \<Rightarrow> (b\<lparr>b_reg := r\<rparr>, Some err)
      | (r, Inr m) \<Rightarrow> (b\<lparr>b_reg := r, b_model := m\<rparr>, None))"

definition new_builder :: "registry \<Rightarrow> Dialect \<Rightarrow> 'v builder" where
  "new_builder r d = \<lparr>b_reg = r, b_model = empty_model, b_dialect = d, b_sql = [], b_args = [], b_quoter = quoter d\<rparr>"

text \<open>Steps that look at the model.\<close>

definition with_model :: "(Model \<Rightarrow> 'v build) \<Rightarrow> 'v build" where
  "with_model f b = f (b_model b) b"

definition use_value :: "orm_error + 'v sqlarg \<Rightarrow> ('v sqlarg \<Rightarrow> 'v build) \<Rightarrow> 'v build" where
  "use_value r f = (case r of Inl e \<Rightarrow> fail e | Inr v \<Rightarrow> f v)"

definition placeholder :: "'v sqlarg \<Rightarrow> 'v build" where
  "placeholder v = run [emit ''?'', add_args [v]]"

text \<open>A placeholder whose value is fetched after the text has been written.\<close>

definition bind_value :: "orm_error + 'v sqlarg \<Rightarrow> 'v build" where
  "bind_value r = run [emit ''?'', use_value r (\<lambda>v. add_args [v])]"

section \<open>Select\<close>

datatype 'v selectable = SelColumn Column | SelAggregate Aggregate | SelRaw string "'v sqlarg list"

record OrderBy =
  ob_col :: string
  ob_order :: string

definition Asc :: "string \<Rightarrow> OrderBy" where "Asc col = \<lparr>ob_col = col, ob_order = ''ASC''\<rparr>"
definition Desc :: "string \<Rightarrow> OrderBy" where "Desc col = \<lparr>ob_col = col, ob_order = ''DESC''\<rparr>"

record 'v Selector =
  s_entity :: entity
  s_table :: "'v tableref"
  s_where :: "'v predicate list"
  s_columns :: "'v selectable list"
  s_groupBy :: "Column list"
  s_having :: "'v predicate list"
  s_orderBy :: "OrderBy list"
  s_offset :: "64 word"
  s_limit :: "64 word"

definition NewSelector :: "entity \<Rightarrow> 'v Selector" where
  "NewSelector e = \<lparr>s_entity = e, s_table = TNil, s_where = [], s_columns = [], s_groupBy = [], s_having = [],
     s_orderBy = [], s_offset = 0, s_limit = 0\<rparr>"

definition Selector_From :: "'v tableref \<Rightarrow> 'v Selector \<Rightarrow> 'v Selector" where "Selector_From x s = s\<lparr>s_table := x\<rparr>"
definition Selector_Where :: "'v predicate list \<Rightarrow> 'v Selector \<Rightarrow> 'v Selector" where "Selector_Where x s = s\<lparr>s_where := x\<rparr>"
definition Selector_Select :: "'v selectable list \<Rightarrow> 'v Selector \<Rightarrow> 'v Selector" where "Selector_Select x s = s\<lparr>s_columns := x\<rparr>"
definition Selector_GroupBy :: "Column list \<Rightarrow> 'v Selector \<Rightarrow> 'v Selector" where "Selector_GroupBy x s = s\<lparr>s_groupBy := x\<rparr>"
definition Selector_Having :: "'v predicate list \<Rightarrow> 'v Selector \<Rightarrow> 'v Selector" where "Selector_Having x s = s\<lparr>s_having := x\<rparr>"
definition Selector_OrderBy :: "OrderBy list \<Rightarrow> 'v Selector \<Rightarrow> 'v Selector" where "Selector_OrderBy x s = s\<lparr>s_orderBy := x\<rparr>"
definition Selector_Offset :: "64 word \<Rightarrow> 'v Selector \<Rightarrow> 'v Selector" where "Selector_Offset x s = s\<lparr>s_offset := x\<rparr>"
definition Selector_Limit :: "64 word \<Rightarrow> 'v Selector \<Rightarrow> 'v Selector" where "Selector_Limit x s = s\<lparr>s_limit := x\<rparr>"

definition Paginate :: "64 word \<Rightarrow> 64 word \<Rightarrow> 'v Selector \<Rightarrow> 'v Selector" where
  "Paginate page size' s =
     (let page = (if sint page < 1 then 1 else page);
          size' = (if sint size' \<le> 0 then 10 else size')
      in s\<lparr>s_limit := size', s_offset := (page - 1) * size'\<rparr>)"

definition build_selectable :: "'v selectable \<Rightarrow> 'v build" where
  "build_selectable col =
     (case col of SelColumn c \<Rightarrow> buildColumn c | SelAggregate a \<Rightarrow> buildAggregate a
      | SelRaw raw args \<Rightarrow> run [emit raw, add_args args])"

definition buildColumns :: "'v selectable list \<Rightarrow> 'v build" where
  "buildColumns cols = (if cols = [] then emit ''*'' else run (sep_by '','' (map build_selectable cols)))"

definition buildOrderBy :: "OrderBy list \<Rightarrow> 'v build" where
  "buildOrderBy os = run (sep_by '','' (map (\<lambda>o'. run [buildColumn (Col (ob_col o')), emit ('' '' @ ob_order o')]) os))"

definition build_table_name :: "Table \<Rightarrow> 'v build" where
  "build_table_name t b =
     (case registry_Get (tb_entity t) (b_reg b) of
        (r, Inl e) \<Rightarrow> (b\<lparr>b_reg := r\<rparr>, Some e)
      | (r, Inr meta) \<Rightarrow>
          run (quote (m_TableName meta) # (if tb_alias t \<noteq> [] then [emit '' AS '', quote (tb_alias t)] else []))
            (b\<lparr>b_reg := r\<rparr>))"

fun buildTable :: "'v tableref \<Rightarrow> 'v build" where
  "buildTable TNil = with_model (\<lambda>m. quote (m_TableName m))"
| "buildTable (TTable t) = build_table_name t"
| "buildTable (TJoin l typ r on using') =
     run ([emit ''('', buildTable l, emit ('' '' @ typ @ '' ''), buildTable r] @
          (if using' \<noteq> [] then [emit '' USING (''] @ sep_by '', '' (map (\<lambda>u. buildColumn (Col u)) using') @ [emit '')'']
           else []) @
          (if on \<noteq> [] then [emit '' ON '', buildPredicates on] else []) @ [emit '')''])"

definition limit_steps :: "64 word \<Rightarrow> 64 word \<Rightarrow> 'v build list" where
  "limit_steps limit offset =
     (if sint limit > 0 then [emit '' LIMIT '', placeholder (ArgInt limit)]
      else if sint offset > 0 then [emit '' LIMIT 18446744073709551615''] else []) @
     (if sint offset > 0 then [emit '' OFFSET '', placeholder (ArgInt offset)] else [])"

definition Selector_steps :: "'v Selector \<Rightarrow> 'v build list" where
  "Selector_steps s =
     [emit ''SELECT '', buildColumns (s_columns s), emit '' FROM '', buildTable (s_table s),
      buildWhereWithSoftDelete (s_where s)] @
     (if s_groupBy s \<noteq> [] then emit '' GROUP BY '' # sep_by '','' (map buildColumn (s_groupBy s)) else []) @
     (if s_having s \<noteq> [] then [emit '' HAVING '', buildPredicates (s_having s)] else []) @
     (if s_orderBy s \<noteq> [] then [emit '' ORDER BY '', buildOrderBy (s_orderBy s)] else []) @
     limit_steps (s_limit s) (s_offset s) @ [emit '';'']"

definition Selector_Build :: "'v Selector \<Rightarrow> 'v builder \<Rightarrow> 'v builder \<times> (orm_error + 'v Query)" where
  "Selector_Build s b = finish (run (get_model (s_entity s) # Selector_steps s) b)"

section \<open>Delete\<close>

record 'v Deleter =
  d_entity :: entity
  d_tableName :: string
  d_where :: "'v predicate list"

definition NewDeleter :: "entity \<Rightarrow> 'v Deleter" where
  "NewDeleter e = \<lparr>d_entity = e, d_tableName = [], d_where = []\<rparr>"

definition Deleter_From :: "string \<Rightarrow> 'v Deleter \<Rightarrow> 'v Deleter" where "Deleter_From x s = s\<lparr>d_tableName := x\<rparr>"
definition Deleter_Where :: "'v predicate list \<Rightarrow> 'v Deleter \<Rightarrow> 'v Deleter" where "Deleter_Where x s = s\<lparr>d_where := x\<rparr>"

definition table_or :: "string \<Rightarrow> 'v build" where
  "table_or name = (if name = [] then with_model (\<lambda>m. quote (m_TableName m)) else emit name)"

definition buildSoftDelete :: "int \<Rightarrow> 'v Deleter \<Rightarrow> nat \<Rightarrow> 'v build" where
  "buildSoftDelete now d i =
     run [emit ''UPDATE '', table_or (d_tableName d), emit '' SET '', with_model (\<lambda>m. quote (col_of m i)),
          emit ''='', placeholder (ArgTime now), buildWhereWithSoftDelete (d_where d), emit '';'']"

definition hardDelete :: "'v Deleter \<Rightarrow> 'v build" where
  "hardDelete d =
     run ([emit ''DELETE FROM '', table_or (d_tableName d)] @
          (if d_where d \<noteq> [] then [emit '' WHERE '', buildPredicates (d_where d)] else []) @ [emit '';''])"

definition Deleter_Build :: "int \<Rightarrow> 'v Deleter \<Rightarrow> 'v builder \<Rightarrow> 'v builder \<times> (orm_error + 'v Query)" where
  "Deleter_Build now d b =
     finish (run [get_model (d_entity d),
       with_model (\<lambda>m. case m_DeletedAt m of Some i \<Rightarrow> buildSoftDelete now d i | None \<Rightarrow> hardDelete d)] b)"

section \<open>Update\<close>

record 'v Updater =
  u_entity :: entity
  u_assigns :: "'v assignable list"
  u_val :: "'v object option"
  u_where :: "'v predicate list"

definition NewUpdater :: "entity \<Rightarrow> 'v Updater" where
  "NewUpdater e = \<lparr>u_entity = e, u_assigns = [], u_val = None, u_where = []\<rparr>"

definition Updater_Set :: "'v assignable list \<Rightarrow> 'v Updater \<Rightarrow> 'v Updater" where "Updater_Set x s = s\<lparr>u_assigns := x\<rparr>"
definition Updater_Update :: "'v object option \<Rightarrow> 'v Updater \<Rightarrow> 'v Updater" where "Updater_Update x s = s\<lparr>u_val := x\<rparr>"
definition Updater_Where :: "'v predicate list \<Rightarrow> 'v Updater \<Rightarrow> 'v Updater" where "Updater_Where x s = s\<lparr>u_where := x\<rparr>"

definition assigned_name :: "'v assignable \<Rightarrow> string" where
  "assigned_name a = (case a of Assignment c v \<Rightarrow> c | AColumn c \<Rightarrow> c_name c)"

definition versionColumnExplicitlySet :: "Model \<Rightarrow> 'v assignable list \<Rightarrow> bool" where
  "versionColumnExplicitlySet m assigns =
     (case m_Version m of
        None \<Rightarrow> False
      | Some i \<Rightarrow> list_ex (\<lambda>a. assigned_name a = fd_GoName (m_Fields m ! i)) assigns)"

definition increment :: "string \<Rightarrow> 'v build list" where
  "increment c = [quote c, emit ''='', quote c, emit ''+1'']"

definition build_assign :: "Creator \<Rightarrow> 'v object option \<Rightarrow> 'v assignable \<Rightarrow> 'v build" where
  "build_assign cr val a =
     (case a of
        Assignment c v \<Rightarrow> buildAssignment c v
      | AColumn c \<Rightarrow>
          with_model (\<lambda>m. use_value (GetFieldValue cr m val (c_name c))
            (\<lambda>v. run [buildColumn (Col (c_name c)), emit ''='', placeholder v])))"

text \<open>\<^verbatim>\<open>SET\<close> from the assignments, and from every field of the object but the version.\<close>

definition set_assigns :: "Creator \<Rightarrow> 'v Updater \<Rightarrow> 'v build" where
  "set_assigns cr u = with_model (\<lambda>m.
     run (emit '' SET '' # sep_by '','' (map (build_assign cr (u_val u)) (u_assigns u)) @
          (case m_Version m of
             Some i \<Rightarrow> if u_val u \<noteq> None \<and> \<not> versionColumnExplicitlySet m (u_assigns u)
                       then emit '','' # increment (col_of m i) else []
           | None \<Rightarrow> [])))"

definition updated_fields :: "Model \<Rightarrow> Field list" where
  "updated_fields m =
     filter (\<lambda>f. case m_Version m of Some i \<Rightarrow> fd_GoName f \<noteq> fd_GoName (m_Fields m ! i) | None \<Rightarrow> True) (m_Fields m)"

definition set_fields :: "Creator \<Rightarrow> 'v Updater \<Rightarrow> 'v build" where
  "set_fields cr u = with_model (\<lambda>m.
     if u_val u = None then fail ErrNothingToUpdate
     else
       run (emit '' SET '' #
            sep_by '','' (map (\<lambda>f. run [buildColumn (Col (fd_GoName f)), emit ''='',
              bind_value (GetFieldValue cr m (u_val u) (fd_GoName f))]) (updated_fields m)) @
            (case m_Version m of
               Some i \<Rightarrow> (if updated_fields m \<noteq> [] then [emit '',''] else []) @ increment (col_of m i)
             | None \<Rightarrow> [])))"

text \<open>The check of the version, after the conditions.\<close>

definition version_check :: "'v Updater \<Rightarrow> 'v build" where
  "version_check u = with_model (\<lambda>m.
     case (m_Version m, u_val u) of
       (Some i, Some ob) \<Rightarrow>
         run [emit (if m_DeletedAt m \<noteq> None \<or> u_where u \<noteq> [] then '' AND '' else '' WHERE ''),
              quote (col_of m i), emit ''='',
              bind_value (case readVersionFromVal ob (m_Fields m ! i) of Inl e \<Rightarrow> Inl e | Inr n \<Rightarrow> Inr (ArgInt n))]
     | _ \<Rightarrow> run [])"

definition Updater_steps :: "Creator \<Rightarrow> 'v Updater \<Rightarrow> 'v build list" where
  "Updater_steps cr u =
     [emit ''UPDATE '', with_model (\<lambda>m. quote (m_TableName m)),
      (if u_assigns u \<noteq> [] then set_assigns cr u else set_fields cr u),
      buildWhereWithSoftDelete (u_where u), version_check u, emit '';'']"

definition Updater_Build :: "Creator \<Rightarrow> 'v Updater \<Rightarrow> 'v builder \<Rightarrow> 'v builder \<times> (orm_error + 'v Query)" where
  "Updater_Build cr u b = finish (run (get_model (u_entity u) # Updater_steps cr u) b)"

section \<open>Insert\<close>

record 'v Inserter =
  i_entity :: entity
  i_values :: "'v object option list"
  i_columns :: "string list"
  i_chunkSize :: int
  i_upsert :: "'v Upsert option"

definition NewInserter :: "entity \<Rightarrow> 'v Inserter" where
  "NewInserter e = \<lparr>i_entity = e, i_values = [], i_columns = [], i_chunkSize = 0, i_upsert = None\<rparr>"

definition Inserter_Values :: "'v object option list \<Rightarrow> 'v Inserter \<Rightarrow> 'v Inserter" where "Inserter_Values x s = s\<lparr>i_values := i_values s @ x\<rparr>"
definition Inserter_Columns :: "string list \<Rightarrow> 'v Inserter \<Rightarrow> 'v Inserter" where "Inserter_Columns x s = s\<lparr>i_columns := i_columns s @ x\<rparr>"
definition Inserter_ChunkSize :: "int \<Rightarrow> 'v Inserter \<Rightarrow> 'v Inserter" where "Inserter_ChunkSize x s = s\<lparr>i_chunkSize := x\<rparr>"

text \<open>The builder of the conflict clause hands the inserter back when it is done.\<close>

record 'v UpsertBuilder =
  ub_inserter :: "'v Inserter"
  ub_conflictColumns :: "string list"

definition OnDuplicateKey :: "'v Inserter \<Rightarrow> 'v UpsertBuilder" where
  "OnDuplicateKey i = \<lparr>ub_inserter = i, ub_conflictColumns = []\<rparr>"

definition ConflictColumns :: "string list \<Rightarrow> 'v UpsertBuilder \<Rightarrow> 'v UpsertBuilder" where
  "ConflictColumns cols s = s\<lparr>ub_conflictColumns := cols\<rparr>"

definition UpsertBuilder_Update :: "'v assignable list \<Rightarrow> 'v UpsertBuilder \<Rightarrow> 'v Inserter" where
  "UpsertBuilder_Update assigns s =
     (ub_inserter s)\<lparr>i_upsert := Some \<lparr>up_conflictColumns = ub_conflictColumns s, up_assigns = assigns\<rparr>\<rparr>"

fun lookup_fields :: "Model \<Rightarrow> string list \<Rightarrow> orm_error + Field list" where
  "lookup_fields m [] = Inr []"
| "lookup_fields m (c # cs) =
     (case field_of m c of
        None \<Rightarrow> Inl (ErrUnknownField c)
      | Some f \<Rightarrow> sum_bind (lookup_fields m cs) (\<lambda>fs. Inr (f # fs)))"

definition insert_fields :: "Model \<Rightarrow> string list \<Rightarrow> orm_error + Field list" where
  "insert_fields m cols = (if cols \<noteq> [] then lookup_fields m cols else Inr (m_Fields m))"

definition reset_args :: "'v build" where
  "reset_args b = (b\<lparr>b_args := []\<rparr>, None)"

definition insert_row :: "Creator \<Rightarrow> Model \<Rightarrow> Field list \<Rightarrow> 'v object option \<Rightarrow> 'v build" where
  "insert_row cr m fs val =
     run ([emit ''(''] @
          sep_by '','' (map (\<lambda>f. bind_value (GetFieldValue cr m val (fd_GoName f))) fs) @ [emit '')''])"

definition insert_head :: "'v Inserter \<Rightarrow> 'v build list" where
  "insert_head i =
     [emit ''INSERT INTO '', with_model (\<lambda>m. quote (m_TableName m)), emit ''('',
      with_model (\<lambda>m. case insert_fields m (i_columns i) of
        Inl e \<Rightarrow> fail e | Inr fs \<Rightarrow> run (sep_by '','' (map (\<lambda>f. quote (fd_ColName f)) fs))),
      emit '')'', emit '' VALUES '']"

definition insert_tail :: "Creator \<Rightarrow> 'v Inserter \<Rightarrow> 'v build list" where
  "insert_tail cr i =
     [with_model (\<lambda>m. case insert_fields m (i_columns i) of
        Inl e \<Rightarrow> fail e | Inr fs \<Rightarrow> run (sep_by '','' (map (insert_row cr m fs) (i_values i))))] @
     (case i_upsert i of None \<Rightarrow> [] | Some u \<Rightarrow> [\<lambda>b. buildUpsert (b_dialect b) u b]) @ [emit '';'']"

definition Inserter_Build :: "Creator \<Rightarrow> 'v Inserter \<Rightarrow> 'v builder \<Rightarrow> 'v builder \<times> (orm_error + 'v Query)" where
  "Inserter_Build cr i b =
     (if i_values i = [] then (b, Inl ErrInsertZeroRow)
      else finish (run (get_model (i_entity i) # insert_head i @ [reset_args] @ insert_tail cr i) b))"

section \<open>The interface of the statements\<close>

text \<open>What implements \<^verbatim>\<open>QueryBuilder\<close>; a chunk of an insert carries its finished query.\<close>

datatype 'v QueryBuilder =
    QSelector "'v Selector" | QInserter "'v Inserter" | QUpdater "'v Updater" | QDeleter "'v Deleter"
  | QChunk "'v Query"

definition Build :: "Creator \<Rightarrow> int \<Rightarrow> 'v QueryBuilder \<Rightarrow> 'v builder \<Rightarrow> 'v builder \<times> (orm_error + 'v Query)" where
  "Build cr now qb b =
     (case qb of QSelector s \<Rightarrow> Selector_Build s b | QInserter i \<Rightarrow> Inserter_Build cr i b
      | QUpdater u \<Rightarrow> Updater_Build cr u b | QDeleter d \<Rightarrow> Deleter_Build now d b | QChunk qy \<Rightarrow> (b, Inr qy))"

section \<open>Placeholders and arguments\<close>

definition selectable_ok :: "char \<Rightarrow> 'v selectable \<Rightarrow> bool" where
  "selectable_ok q c =
     (case c of SelColumn c \<Rightarrow> True | SelAggregate a \<Rightarrow> plain q (ag_fn a) | SelRaw raw args \<Rightarrow> lexes q raw (length args))"

fun tableref_ok :: "char \<Rightarrow> 'v tableref \<Rightarrow> bool" where
  "tableref_ok q TNil = True"
| "tableref_ok q (TTable t) = True"
| "tableref_ok q (TJoin l typ r on using') \<longleftrightarrow>
     plain q typ \<and> tableref_ok q l \<and> tableref_ok q r \<and> (\<forall>p \<in> set on. pred_ok q p)"

text \<open>
  What the caller has to provide: raw SQL is sound in itself, a table name given as text is
  plain. Names of tables, columns and aliases from the model are arbitrary.
\<close>

definition statement_ok :: "char \<Rightarrow> 'v QueryBuilder \<Rightarrow> bool" where
  "statement_ok q qb =
     (case qb of
        QSelector s \<Rightarrow>
          (\<forall>c \<in> set (s_columns s). selectable_ok q c) \<and> tableref_ok q (s_table s) \<and>
          (\<forall>p \<in> set (s_where s) \<union> set (s_having s). pred_ok q p) \<and> (\<forall>o' \<in> set (s_orderBy s). plain q (ob_order o'))
      | QInserter i \<Rightarrow> (case i_upsert i of None \<Rightarrow> True | Some u \<Rightarrow> \<forall>a \<in> set (up_assigns u). assignable_ok q a)
      | QUpdater u \<Rightarrow> (\<forall>a \<in> set (u_assigns u). assignable_ok q a) \<and> (\<forall>p \<in> set (u_where u). pred_ok q p)
      | QDeleter d \<Rightarrow> plain q (d_tableName d) \<and> (\<forall>p \<in> set (d_where d). pred_ok q p)
      | QChunk qy \<Rightarrow> lexes q (q_SQL qy) (length (q_Args qy)))"

lemma get_model_run:
  assumes "run (get_model e # fs) b = (b', None)"
  obtains r m where "registry_Get e (b_reg b) = (r, Inr m)" "run fs (b\<lparr>b_reg := r, b_model := m\<rparr>) = (b', None)"
  using assms by (auto simp: get_model_def split: prod.splits sum.splits)

lemma surplus_with_model [balanced]: "(\<And>m. surplus q d (f m)) \<Longrightarrow> surplus q d (with_model f)"
  unfolding surplus_def with_model_def by blast

lemma surplus_use_value [balanced]: "(\<And>v. surplus q d (f v)) \<Longrightarrow> surplus q d (use_value r f)"
  by (auto simp: use_value_def intro: balanced split: sum.split)

lemma surplus_bind_value [balanced]:
  assumes "is_quote q"
  shows "surplus q 0 (bind_value r)" "surplus q 0 (placeholder v)"
proof -
  have "lexes q ''?'' 1" using assms by (auto simp: lexes_def is_quote_def)
  then have "surplus q (int 1 + (- int (length [undefined :: 'a sqlarg]) + 0)) (bind_value r)"
    unfolding bind_value_def
  proof (intro surplus_run_Cons surplus_raw surplus_use_value surplus_run_Nil)
    show "surplus q (- int (length [undefined :: 'a sqlarg])) (add_args [v])" for v :: "'a sqlarg"
      using surplus_args[of q "[v]"] by simp
  qed
  then show "surplus q 0 (bind_value r)" by simp
  show "surplus q 0 (placeholder v)"
    unfolding placeholder_def by (rule surplus_placeholder[OF is_quote_question[OF assms]])
qed

lemma surplus_build_selectable [balanced]:
  assumes "is_quote q" "selectable_ok q c"
  shows "surplus q 0 (build_selectable c)"
proof (cases c)
  case (SelRaw raw args)
  then have "lexes q raw (length args)" using assms(2) by (simp add: selectable_ok_def)
  then have "surplus q (int (length args) + (- int (length args) + 0)) (run [emit raw, add_args args])"
    by (intro surplus_run_Cons surplus_raw surplus_args surplus_run_Nil)
  then show ?thesis by (simp add: SelRaw build_selectable_def del: run.simps)
qed (use assms in \<open>auto simp: build_selectable_def selectable_ok_def intro: balanced\<close>)

lemma surplus_list [balanced]:
  assumes "is_quote q" "plain q sep" "\<And>f. f \<in> set fs \<Longrightarrow> surplus q 0 f"
  shows "surplus q 0 (run (sep_by sep fs))"
  by (rule surplus_run_all) (rule surplus_sep_by[OF assms(2,3)])

lemma surplus_buildColumns [balanced]:
  "is_quote q \<Longrightarrow> \<forall>c \<in> set cols. selectable_ok q c \<Longrightarrow> surplus q 0 (buildColumns cols)"
proof -
  assume q: "is_quote q" and cols: "\<forall>c \<in> set cols. selectable_ok q c"
  have lit: "plain q ''*''" "plain q '',''" using q by (auto simp: plain_def is_quote_def)
  have "surplus q 0 (run (sep_by '','' (map build_selectable cols)))"
    by (rule surplus_list[OF q lit(2)]) (use q cols in \<open>auto intro: balanced\<close>)
  then show ?thesis using lit(1) by (simp add: buildColumns_def surplus_emit)
qed

lemma surplus_buildOrderBy [balanced]:
  assumes "is_quote q" "\<forall>o' \<in> set os. plain q (ob_order o')"
  shows "surplus q 0 (buildOrderBy os)"
proof -
  have "surplus q 0 (run [buildColumn (Col (ob_col o')), emit ('' '' @ ob_order o')] :: 'a build)" if "o' \<in> set os" for o'
    by (rule surplus_run_all) (use assms that in \<open>auto simp: plain_def is_quote_def intro!: balanced\<close>)
  then show ?thesis unfolding buildOrderBy_def
    by (intro surplus_list) (use assms(1) in \<open>auto simp: plain_def is_quote_def simp del: run.simps\<close>)
qed

lemma surplus_table_name [balanced]:
  assumes q: "is_quote q"
  shows "surplus q 0 (build_table_name t)"
proof (rule surplusI)
  fix b b' :: "'a builder"
  assume b: "b_quoter b = q" "build_table_name t b = (b', None)"
  have lit: "plain q '' AS ''" using q by (auto simp: plain_def is_quote_def)
  have named: "surplus q 0 (run (quote n # (if a \<noteq> [] then [emit '' AS '', quote a] else [])) :: 'a build)" for n a
    by (rule surplus_run_all) (use lit in \<open>auto intro: balanced\<close>)
  obtain r m where m: "registry_Get (tb_entity t) (b_reg b) = (r, Inr m)"
    using b(2) by (auto simp: build_table_name_def simp del: run.simps split: prod.splits sum.splits)
  have "run (quote (m_TableName m) # (if tb_alias t \<noteq> [] then [emit '' AS '', quote (tb_alias t)] else [])) (b\<lparr>b_reg := r\<rparr>) = (b', None)"
    using b(2) m by (simp add: build_table_name_def del: run.simps)
  then have "wrote_some q 0 (b\<lparr>b_reg := r\<rparr>) b'" by (rule surplusD[OF named, rotated]) (simp add: b(1))
  then show "wrote_some q 0 b b'" by (simp only: wrote_reg)
qed

lemma surplus_buildTable [balanced]:
  assumes q: "is_quote q"
  shows "tableref_ok q t \<Longrightarrow> surplus q 0 (buildTable t)"
proof (induction t)
  case (TJoin l ty r ps us)
  have lit: "plain q ''(''" "plain q '')''" "plain q '' ''" "plain q '' USING (''" "plain q '', ''" "plain q '' ON ''"
    using q by (auto simp: plain_def is_quote_def)
  have "surplus q 0 f" if "f \<in> set (sep_by '', '' (map (\<lambda>u. buildColumn (Col u)) us))" for f :: "'a build"
    by (rule surplus_sep_by[OF lit(5) _ that]) (use q in \<open>auto intro: balanced\<close>)
  moreover have "surplus q 0 (emit (CHR '' '' # ty @ '' ''))"
    by (rule surplus_emit) (use TJoin.prems q in \<open>auto simp: plain_def is_quote_def\<close>)
  ultimately show ?case unfolding buildTable.simps
    by (intro surplus_run_all) (use TJoin q lit in \<open>auto intro: balanced split: if_splits\<close>)
qed (use q in \<open>auto intro: balanced\<close>)

lemma surplus_limit: "is_quote q \<Longrightarrow> f \<in> set (limit_steps l o') \<Longrightarrow> surplus q 0 f"
proof -
  assume q: "is_quote q" and f: "f \<in> set (limit_steps l o')"
  have "plain q '' LIMIT ''" "plain q '' LIMIT 18446744073709551615''" "plain q '' OFFSET ''"
    using q by (auto simp: plain_def is_quote_def)
  then show ?thesis using f q by (auto simp: limit_steps_def intro: balanced split: if_splits)
qed

lemma surplus_Selector:
  assumes q: "is_quote q" and ok: "statement_ok q (QSelector s)"
  shows "surplus q 0 (run (Selector_steps s))"
proof (rule surplus_run_all)
  have lit: "plain q ''SELECT ''" "plain q '' FROM ''" "plain q '' GROUP BY ''" "plain q '' HAVING ''"
    "plain q '' ORDER BY ''" "plain q '';''" "plain q '',''"
    using q by (auto simp: plain_def is_quote_def)
  have parts: "\<forall>c \<in> set (s_columns s). selectable_ok q c" "tableref_ok q (s_table s)"
    "\<forall>p \<in> set (s_where s). pred_ok q p" "\<forall>p \<in> set (s_having s). pred_ok q p"
    "\<forall>o' \<in> set (s_orderBy s). plain q (ob_order o')"
    using ok by (auto simp: statement_ok_def)
  have group: "surplus q 0 f" if "f \<in> set (sep_by '','' (map buildColumn (s_groupBy s)))" for f :: "'a build"
    by (rule surplus_sep_by[OF lit(7) _ that]) (use q in \<open>auto intro: balanced\<close>)
  show "surplus q 0 f" if "f \<in> set (Selector_steps s)" for f
    using that q lit parts group surplus_limit[OF q, of f]
    by (auto simp: Selector_steps_def intro: balanced split: if_splits)
qed

lemma surplus_table_or [balanced]: "is_quote q \<Longrightarrow> plain q t \<Longrightarrow> surplus q 0 (table_or t)"
  by (auto simp: table_or_def intro: balanced)

lemma surplus_Deleter:
  assumes q: "is_quote q" and ok: "statement_ok q (QDeleter d)"
  shows "surplus q 0 (run [with_model (\<lambda>m. case m_DeletedAt m of Some i \<Rightarrow> buildSoftDelete now d i | None \<Rightarrow> hardDelete d)])"
proof -
  have parts: "plain q (d_tableName d)" "\<forall>p \<in> set (d_where d). pred_ok q p" using ok by (auto simp: statement_ok_def)
  have lit: "plain q ''UPDATE ''" "plain q '' SET ''" "plain q ''=''" "plain q '';''" "plain q ''DELETE FROM ''" "plain q '' WHERE ''"
    using q by (auto simp: plain_def is_quote_def)
  have soft: "surplus q 0 (buildSoftDelete now d i)" for i
    unfolding buildSoftDelete_def by (rule surplus_run_all) (use q lit parts in \<open>auto intro: balanced\<close>)
  have hard: "surplus q 0 (hardDelete d)"
    unfolding hardDelete_def by (rule surplus_run_all) (use q lit parts in \<open>auto intro: balanced split: if_splits\<close>)
  have "surplus q 0 (case m_DeletedAt m of Some i \<Rightarrow> buildSoftDelete now d i | None \<Rightarrow> hardDelete d)" for m
    using soft hard by (simp split: option.split)
  then show ?thesis by (intro surplus_run_all) (auto intro: balanced)
qed

lemma surplus_increment: "is_quote q \<Longrightarrow> f \<in> set (increment c) \<Longrightarrow> surplus q 0 f"
proof -
  assume q: "is_quote q" and f: "f \<in> set (increment c)"
  have "plain q ''=''" "plain q ''+1''" using q by (auto simp: plain_def is_quote_def)
  then show ?thesis using f by (auto simp: increment_def intro: balanced)
qed

lemma surplus_set_assigns:
  assumes q: "is_quote q" and as: "\<forall>a \<in> set (u_assigns u). assignable_ok q a"
  shows "surplus q 0 (set_assigns cr u)"
proof -
  have lit: "plain q '' SET ''" "plain q '',''" "plain q ''=''" using q by (auto simp: plain_def is_quote_def)
  have col: "surplus q 0 (run [buildColumn (Col n), emit ''='', placeholder v] :: 'a build)" for n v
    by (rule surplus_run_all) (use q lit in \<open>auto intro: balanced\<close>)
  have one: "surplus q 0 (build_assign cr (u_val u) a)" if "a \<in> set (u_assigns u)" for a
  proof (cases a)
    case (Assignment c v)
    have "assignable_ok q a" using as that by blast
    then have "expr_ok q v" by (simp add: Assignment assignable_ok_def)
    then show ?thesis using q by (simp add: Assignment build_assign_def surplus_buildAssignment)
  next
    case (AColumn c)
    show ?thesis unfolding AColumn build_assign_def assignable.case
      by (intro surplus_with_model surplus_use_value col)
  qed
  have sep: "surplus q 0 f" if "f \<in> set (sep_by '','' (map (build_assign cr (u_val u)) (u_assigns u)))" for f
    by (rule surplus_sep_by[OF lit(2) _ that]) (use one in auto)
  show ?thesis unfolding set_assigns_def
    by (intro surplus_with_model surplus_run_all)
      (use q lit sep surplus_increment[OF q] in \<open>auto intro: balanced split: option.splits if_splits\<close>)
qed

lemma surplus_set_fields:
  assumes q: "is_quote q"
  shows "surplus q 0 (set_fields cr u)"
proof -
  have lit: "plain q '' SET ''" "plain q '',''" "plain q ''=''" using q by (auto simp: plain_def is_quote_def)
  have col: "surplus q 0 (run [buildColumn (Col n), emit ''='', bind_value v] :: 'a build)" for n v
    by (rule surplus_run_all) (use q lit in \<open>auto intro: balanced\<close>)
  have sep: "surplus q 0 f" if "f \<in> set (sep_by '','' (map (\<lambda>g. run [buildColumn (Col (fd_GoName g)), emit ''='', bind_value (v g)]) gs))"
    for f :: "'a build" and v gs
    by (rule surplus_sep_by[OF lit(2) _ that]) (use col in \<open>auto simp del: run.simps\<close>)
  have steps: "surplus q 0 f" if f: "f \<in> set (emit '' SET '' #
      sep_by '','' (map (\<lambda>g. run [buildColumn (Col (fd_GoName g)), emit ''='', bind_value (v g)]) gs) @
      (case x of Some i \<Rightarrow> (if gs \<noteq> [] then [emit '',''] else []) @ increment (c i) | None \<Rightarrow> []))" for f :: "'a build" and v gs x c
  proof -
    consider "f = emit '' SET ''" | "f = emit '',''" | i where "f \<in> set (increment (c i))"
      | "f \<in> set (sep_by '','' (map (\<lambda>g. run [buildColumn (Col (fd_GoName g)), emit ''='', bind_value (v g)]) gs))"
      using f by (auto simp del: run.simps split: option.splits if_splits)
    then show ?thesis by cases (use lit sep surplus_increment[OF q] in \<open>auto intro: balanced\<close>)
  qed
  show ?thesis unfolding set_fields_def
  proof (rule surplus_with_model)
    show "surplus q 0 (if u_val u = None then fail ErrNothingToUpdate
        else run (emit '' SET '' # sep_by '','' (map (\<lambda>f. run [buildColumn (Col (fd_GoName f)), emit ''='',
              bind_value (GetFieldValue cr m (u_val u) (fd_GoName f))]) (updated_fields m)) @
            (case m_Version m of Some i \<Rightarrow> (if updated_fields m \<noteq> [] then [emit '',''] else []) @ increment (col_of m i)
             | None \<Rightarrow> [])))" for m
    proof (cases "u_val u = None")
      case True
      then show ?thesis by (simp add: surplus_fail)
    next
      case False
      then show ?thesis unfolding if_not_P[OF False] by (intro surplus_run_all steps)
    qed
  qed
qed

lemma surplus_version_check [balanced]:
  assumes q: "is_quote q"
  shows "surplus q 0 (version_check u)"
proof -
  have lit: "plain q '' AND ''" "plain q '' WHERE ''" "plain q ''=''" using q by (auto simp: plain_def is_quote_def)
  have "surplus q 0 (run [emit '' AND '', quote n, emit ''='', bind_value v] :: 'a build)"
    "surplus q 0 (run [emit '' WHERE '', quote n, emit ''='', bind_value v] :: 'a build)" for n v
    by (rule surplus_run_all; use q lit in \<open>auto intro: balanced\<close>)+
  then show ?thesis unfolding version_check_def
    by (intro surplus_with_model) (auto intro: surplus_run_Nil simp del: run.simps split: option.split)
qed

lemma surplus_Updater:
  assumes q: "is_quote q" and ok: "statement_ok q (QUpdater u)"
  shows "surplus q 0 (run (Updater_steps cr u))"
proof (rule surplus_run_all)
  have lit: "plain q ''UPDATE ''" "plain q '';''" using q by (auto simp: plain_def is_quote_def)
  have parts: "\<forall>a \<in> set (u_assigns u). assignable_ok q a" "\<forall>p \<in> set (u_where u). pred_ok q p"
    using ok by (auto simp: statement_ok_def)
  show "surplus q 0 f" if "f \<in> set (Updater_steps cr u)" for f
    using that q lit parts surplus_set_assigns[OF q parts(1), of cr] surplus_set_fields[OF q, of cr u]
    by (auto simp: Updater_steps_def intro: balanced split: if_splits)
qed

text \<open>The head of an insert adds no arguments, so dropping the old ones after it is harmless.\<close>

definition keeps_args :: "'v build \<Rightarrow> bool" where
  "keeps_args f \<longleftrightarrow> (\<forall>b b'. f b = (b', None) \<longrightarrow> b_args b' = b_args b)"

lemma keepsD: "keeps_args f \<Longrightarrow> f b = (b', None) \<Longrightarrow> b_args b' = b_args b"
  unfolding keeps_args_def by blast

lemma keeps_run: "(\<And>f. f \<in> set fs \<Longrightarrow> keeps_args f) \<Longrightarrow> keeps_args (run fs)"
proof (induction fs)
  case (Cons f fs)
  show ?case unfolding keeps_args_def
  proof (intro allI impI)
    fix b b'
    assume "run (f # fs) b = (b', None)"
    then obtain b1 where b1: "f b = (b1, None)" "run fs b1 = (b', None)" by (auto split: prod.splits option.splits)
    have f: "keeps_args f" and fs: "keeps_args (run fs)" using Cons.prems Cons.IH by simp_all
    show "b_args b' = b_args b" using keepsD[OF f b1(1)] keepsD[OF fs b1(2)] by (rule trans[rotated])
  qed
qed (simp add: keeps_args_def)

lemma keeps_basic:
  "keeps_args (emit s)" "keeps_args (quote s)" "keeps_args (fail e)"
  by (auto simp: keeps_args_def emit_def quote_def fail_def)

lemma keeps_sep: "(\<And>f. f \<in> set fs \<Longrightarrow> keeps_args f) \<Longrightarrow> f \<in> set (sep_by s fs) \<Longrightarrow> keeps_args f"
  by (auto simp: sep_by_def enumerate_eq_zip keeps_basic dest: set_zip_rightD split: if_splits)

lemma keeps_with_model: "(\<And>m. keeps_args (f m)) \<Longrightarrow> keeps_args (with_model f)"
  unfolding keeps_args_def with_model_def by blast

lemma keeps_head: "keeps_args (run (insert_head i))"
proof (rule keeps_run)
  have cols: "keeps_args (case r of Inl e \<Rightarrow> fail e | Inr fs \<Rightarrow> run (sep_by '','' (map (\<lambda>f. quote (fd_ColName f)) fs)))" for r
    by (cases r) (auto simp: keeps_basic simp del: run.simps intro!: keeps_run elim!: keeps_sep[rotated])
  show "keeps_args f" if "f \<in> set (insert_head i)" for f
    using that cols by (auto simp: insert_head_def keeps_basic intro!: keeps_with_model simp del: run.simps)
qed

lemma surplus_head: "is_quote q \<Longrightarrow> surplus q 0 (run (insert_head i))"
proof (rule surplus_run_all)
  fix f
  assume q: "is_quote q" and f: "f \<in> set (insert_head i)"
  have lit: "plain q ''INSERT INTO ''" "plain q ''(''" "plain q '')''" "plain q '' VALUES ''" "plain q '',''"
    using q by (auto simp: plain_def is_quote_def)
  have "surplus q 0 (run (sep_by '','' (map (\<lambda>f. quote (fd_ColName f)) fs)) :: 'a build)" for fs
    by (rule surplus_list[OF q lit(5)]) (auto intro: balanced)
  then have "surplus q 0 (case r of Inl e \<Rightarrow> fail e | Inr fs \<Rightarrow> (run (sep_by '','' (map (\<lambda>f. quote (fd_ColName f)) fs)) :: 'a build))" for r
    by (cases r) (simp_all add: surplus_fail del: run.simps)
  then show "surplus q 0 f" using f q lit by (auto simp: insert_head_def intro: balanced simp del: run.simps)
qed

lemma surplus_tail:
  assumes q: "is_quote q" and ok: "statement_ok q (QInserter i)"
  shows "surplus q 0 (run (insert_tail cr i))"
proof (rule surplus_run_all)
  fix f
  assume f: "f \<in> set (insert_tail cr i)"
  have lit: "plain q ''(''" "plain q '')''" "plain q '',''" "plain q '';''"
    using q by (auto simp: plain_def is_quote_def)
  have cells: "surplus q 0 f" if "f \<in> set (sep_by '','' (map (\<lambda>f. bind_value (v f)) fs))" for f :: "'a build" and v and fs :: "Field list"
    by (rule surplus_sep_by[OF lit(3) _ that]) (use q in \<open>auto intro: balanced\<close>)
  have row: "surplus q 0 (insert_row cr m fs val)" for m fs and val :: "'a object option"
    unfolding insert_row_def by (rule surplus_run_all) (use lit cells in \<open>auto intro: balanced\<close>)
  have "surplus q 0 (run (sep_by '','' (map (insert_row cr m fs) vals)) :: 'a build)" for m fs vals
    by (rule surplus_list[OF q lit(3)]) (use row in auto)
  then have rows: "surplus q 0 (case r of Inl e \<Rightarrow> fail e | Inr fs \<Rightarrow> run (sep_by '','' (map (insert_row cr m fs) (i_values i))))" for r m
    by (cases r) (simp_all add: surplus_fail del: run.simps)
  have up: "surplus q 0 (\<lambda>b. buildUpsert (b_dialect b) u b)" if "i_upsert i = Some u" for u
  proof -
    have "surplus q 0 (buildUpsert d u)" for d
      using ok that by (intro surplus_buildUpsert[OF q]) (simp add: statement_ok_def)
    then show ?thesis unfolding surplus_def by blast
  qed
  show "surplus q 0 f"
    using f rows up lit by (auto simp: insert_tail_def intro: balanced simp del: run.simps split: option.splits)
qed

lemma run_append: "run (fs @ gs) b = (case run fs b of (b, Some e) \<Rightarrow> (b, Some e) | (b, None) \<Rightarrow> run gs b)"
  by (induction fs arbitrary: b) (auto split: prod.split option.split)

lemma finish_Inr: "finish r = (b', Inr qy) \<Longrightarrow> r = (b', None) \<and> q_SQL qy = b_sql b' \<and> q_Args qy = b_args b'"
  by (cases r) (auto simp: finish_def split: option.splits)

lemma build_lexes:
  assumes "surplus q 0 (run fs)" "b_quoter b = q" "b_sql b = []" "b_args b = []" "finish (run (get_model e # fs) b) = (b', Inr qy)"
  shows "lexes q (q_SQL qy) (length (q_Args qy))"
proof -
  from finish_Inr[OF assms(5)] have r: "run (get_model e # fs) b = (b', None)" "q_SQL qy = b_sql b'" "q_Args qy = b_args b'"
    by auto
  from get_model_run[OF r(1)] obtain r m where m: "run fs (b\<lparr>b_reg := r, b_model := m\<rparr>) = (b', None)" by blast
  have "wrote_some q 0 (b\<lparr>b_reg := r, b_model := m\<rparr>) b'" by (rule surplusD[OF assms(1) _ m]) (simp add: assms(2))
  then show ?thesis unfolding r(2,3) wrote_some_def using assms(3,4) by auto
qed

text \<open>An insert may start from arguments left behind by an earlier chunk.\<close>

lemma insert_lexes:
  assumes q: "is_quote q" and ok: "statement_ok q (QInserter i)" and b: "b_quoter b = q" "b_sql b = []"
    and r: "Inserter_Build cr i b = (b', Inr qy)"
  shows "lexes q (q_SQL qy) (length (q_Args qy))"
proof -
  have "finish (run (get_model (i_entity i) # insert_head i @ [reset_args] @ insert_tail cr i) b) = (b', Inr qy)"
    using r by (auto simp: Inserter_Build_def split: if_splits)
  from finish_Inr[OF this] have "run (get_model (i_entity i) # insert_head i @ [reset_args] @ insert_tail cr i) b = (b', None)"
    and qy: "q_SQL qy = b_sql b'" "q_Args qy = b_args b'" by auto
  from get_model_run[OF this(1)] obtain r m where
    run: "run (insert_head i @ [reset_args] @ insert_tail cr i) (b\<lparr>b_reg := r, b_model := m\<rparr>) = (b', None)" by blast
  let ?b = "b\<lparr>b_reg := r, b_model := m\<rparr>"
  obtain b1 where b1: "run (insert_head i) ?b = (b1, None)" "run ([reset_args] @ insert_tail cr i) b1 = (b', None)"
    using run by (auto simp: run_append split: prod.splits option.splits)
  have tail: "run (insert_tail cr i) (b1\<lparr>b_args := []\<rparr>) = (b', None)" using b1(2) by (simp add: reset_args_def)
  have a1: "b_args b1 = b_args ?b" by (rule keepsD[OF keeps_head b1(1)])
  have "wrote_some q 0 ?b b1" by (rule surplusD[OF surplus_head[OF q] _ b1(1)]) (simp add: b(1))
  then have s1: "b_quoter b1 = q" "lexes q (b_sql b1) 0" using a1 b(2) by (auto simp: wrote_some_def)
  have "wrote_some q 0 (b1\<lparr>b_args := []\<rparr>) b'" by (rule surplusD[OF surplus_tail[OF q ok] _ tail]) (simp add: s1)
  then obtain s as n where "b_sql b' = b_sql b1 @ s" "b_args b' = as" "lexes q s n" "n = length as"
    by (auto simp: wrote_some_def)
  then show ?thesis using lexes_append[OF s1(2)] by (auto simp: qy)
qed

section \<open>The version check\<close>

lemma version_check_effect:
  assumes "version_check u b = (b', None)" "m_Version (b_model b) = Some i" "u_val u = Some ob"
    "ob (fd_GoName (m_Fields (b_model b) ! i)) = Some (ArgInt n)"
  shows "\<exists>pre. b_sql b' = pre @ quoted (b_quoter b) (col_of (b_model b) i) @ ''=?''"
    "b_args b' = b_args b @ [ArgInt n]" "b_quoter b' = b_quoter b"
  using assms
  by (auto simp: version_check_def with_model_def readVersionFromVal_def bind_value_def use_value_def emit_def quote_def
      add_args_def)

lemma update_ends_with_version:
  assumes q: "is_quote q" and ok: "statement_ok q (QUpdater u)" and b: "b_quoter b = q"
    and m: "m_Version (b_model b) = Some i" "u_val u = Some ob" "ob (fd_GoName (m_Fields (b_model b) ! i)) = Some (ArgInt n)"
    and run: "run (Updater_steps cr u) b = (b', None)"
  shows "\<exists>pre as. b_sql b' = pre @ quoted q (col_of (b_model b) i) @ ''=?;'' \<and> b_args b' = as @ [ArgInt n]"
proof -
  let ?pre = "[emit ''UPDATE '', with_model (\<lambda>m. quote (m_TableName m)),
    (if u_assigns u \<noteq> [] then set_assigns cr u else set_fields cr u), buildWhereWithSoftDelete (u_where u)]"
  have steps: "Updater_steps cr u = ?pre @ [version_check u, emit '';'']" by (simp add: Updater_steps_def)
  have "surplus q 0 (run ?pre)"
  proof (rule surplus_run_all)
    have "plain q ''UPDATE ''" using q by (auto simp: plain_def is_quote_def)
    moreover have "\<forall>a \<in> set (u_assigns u). assignable_ok q a" "\<forall>p \<in> set (u_where u). pred_ok q p"
      using ok by (auto simp: statement_ok_def)
    ultimately show "surplus q 0 f" if "f \<in> set ?pre" for f
      using that q surplus_set_assigns[OF q, of u cr] surplus_set_fields[OF q, of cr u]
      by (auto intro: balanced split: if_splits)
  qed
  moreover obtain b1 b2 where b1: "run ?pre b = (b1, None)" "version_check u b1 = (b2, None)" "emit '';'' b2 = (b', None)"
    using run unfolding steps run_append by (auto split: prod.splits option.splits)
  ultimately have w: "wrote_some q 0 b b1" using b by (blast intro: surplusD)
  then have m1: "b_model b1 = b_model b" "b_quoter b1 = q" by (auto simp: wrote_some_def)
  have v: "m_Version (b_model b1) = Some i" "ob (fd_GoName (m_Fields (b_model b1) ! i)) = Some (ArgInt n)"
    using m by (simp_all add: m1(1))
  from version_check_effect[OF b1(2) v(1) m(2) v(2)]
  obtain pre where "b_sql b2 = pre @ quoted q (col_of (b_model b) i) @ ''=?''" "b_args b2 = b_args b1 @ [ArgInt n]"
    by (auto simp: m1)
  then show ?thesis using b1(3) by (auto simp: emit_def)
qed

section \<open>A concrete type\<close>

text \<open>A type with a column whose name contains a quote and a question mark.\<close>

definition demo_entity :: entity where
  "demo_entity = PtrTo \<lparr>ty_Name = ''User'',
     ty_Fields = [\<lparr>sf_Name = ''Name'', sf_Tag = Some (''column(a'' @ [CHR 0x60] @ ''?)''), sf_Kind = KString, sf_Offset = 0\<rparr>,
                  \<lparr>sf_Name = ''Version'', sf_Tag = None, sf_Kind = KInt, sf_Offset = 16\<rparr>],
     ty_TableName = None\<rparr>"

definition demo_update :: "nat Updater" where
  "demo_update = \<lparr>u_entity = demo_entity, u_assigns = [],
     u_val = Some [''Name'' \<mapsto> ArgVal 3, ''Version'' \<mapsto> ArgInt 7], u_where = []\<rparr>"

definition demo_builder :: "nat builder" where
  "demo_builder = new_builder Map.empty MySQL"

definition demo_model :: Model where
  "demo_model = \<lparr>m_TableName = ''user'', m_FieldMap = [''Name'' \<mapsto> 0, ''Version'' \<mapsto> 1],
     m_ColumnMap = [''a'' @ [CHR 0x60] @ ''?'' \<mapsto> 0, ''version'' \<mapsto> 1],
     m_Fields = [\<lparr>fd_ColName = ''a'' @ [CHR 0x60] @ ''?'', fd_GoName = ''Name'', fd_Kind = KString, fd_Offset = 0\<rparr>,
                 \<lparr>fd_ColName = ''version'', fd_GoName = ''Version'', fd_Kind = KInt, fd_Offset = 16\<rparr>],
     m_CreatedAt = None, m_UpdatedAt = None, m_DeletedAt = None, m_Version = Some 1\<rparr>"

lemma demo_chars: "char_of (117 :: nat) = CHR ''u''" "char_of (118 :: nat) = CHR ''v''"
  by code_simp+

lemma demo_parse: "parseModel demo_entity = Inr demo_model"
  by (simp add: demo_chars parseModel_def demo_entity_def parse_field_def parseTag_def has_suffix_def trim_suffix_def Camel2Case_def
      is_upper_def is_lower_def lower_char_def mark_def isIntegerKind_def empty_model_def demo_model_def Let_def)

lemma demo_query:
  "snd (Build UnsafeValue 0 (QUpdater demo_update) demo_builder) =
     Inr \<lparr>q_SQL = ''UPDATE `user` SET `a``?`=?,`version`=`version`+1 WHERE `version`=?;'', q_Args = [ArgVal 3, ArgInt 7]\<rparr>"
  by (simp add: Build_def Updater_Build_def Updater_steps_def get_model_def registry_Get_def Registry_no_opts
      demo_update_def demo_builder_def new_builder_def demo_parse)
    (simp add: demo_model_def emit_def with_model_def quote_def quoted_def quoter_def set_fields_def sep_by_def
      enumerate_eq_zip updated_fields_def buildColumn_def field_of_def Col_def bind_value_def use_value_def GetFieldValue_def
      add_args_def increment_def col_of_def buildWhereWithSoftDelete_def version_check_def readVersionFromVal_def finish_def
      upt_rec)

lemma demo_build: "\<exists>b'. Build UnsafeValue 0 (QUpdater demo_update) demo_builder =
     (b', Inr \<lparr>q_SQL = ''UPDATE `user` SET `a``?`=?,`version`=`version`+1 WHERE `version`=?;'', q_Args = [ArgVal 3, ArgInt 7]\<rparr>)"
  using demo_query by (metis prod.collapse)

lemma demo_ok: "statement_ok (quoter MySQL) (QUpdater demo_update)"
  by (simp add: statement_ok_def demo_update_def)

section \<open>Properties\<close>





end
