(* ===== verification/OrmExec.thy ===== *)
theory OrmExec
  imports OrmQuery
begin

text \<open>
  Running statements: \<^verbatim>\<open>Exec\<close> of \<^verbatim>\<open>orm/insert.go\<close>, \<^verbatim>\<open>updater.go\<close> and \<^verbatim>\<open>delete.go\<close>, \<^verbatim>\<open>Get\<close> of
  \<^verbatim>\<open>select.go\<close>, the middleware chain of \<^verbatim>\<open>exechandler.go\<close>, the hooks of \<^verbatim>\<open>hook.go\<close>, \<^verbatim>\<open>result.go\<close> and
  the transactions of \<^verbatim>\<open>db.go\<close>. The database, the clock and the hooks of the user are operations
  on a world \<open>'w\<close>, given as arguments.
\<close>

section \<open>Rows\<close>

text \<open>
  The rows of a query: their columns, one scanner per row, and the error that ends the
  iteration. A scanner gets the fields that receive the columns and gives the values it stores,
  converted to the types of the fields; with an error the values are those of the columns
  before it.
\<close>

type_synonym 'v scanner = "Field list \<Rightarrow> 'v sqlarg list \<times> string option"

record 'v Rows =
  rw_columns :: "string + string list"
  rw_rows :: "'v scanner list"
  rw_err :: "string option"

fun column_fields :: "Model \<Rightarrow> string list \<Rightarrow> orm_error + Field list" where
  "column_fields m [] = Inr []"
| "column_fields m (c # cs) =
     (case m_ColumnMap m c of
        None \<Rightarrow> Inl (ErrUnknownColumn c)
      | Some i \<Rightarrow> sum_bind (column_fields m cs) (\<lambda>fs. Inr (m_Fields m ! i # fs)))"

definition column_count :: "Model \<Rightarrow> nat" where
  "column_count m = length (filter (\<lambda>i. m_ColumnMap m (col_of m i) = Some i) [0..<length (m_Fields m)])"

definition store :: "Field list \<Rightarrow> 'v sqlarg list \<Rightarrow> 'v object \<Rightarrow> 'v object" where
  "store fs vs ob = fold (\<lambda>(f, v) ob. ob(fd_GoName f \<mapsto> v)) (zip fs vs) ob"

text \<open>Reflection sets the fields afterwards, and cannot set one that is not exported.\<close>

fun reflect_store :: "(Field \<times> 'v sqlarg) list \<Rightarrow> 'v object \<Rightarrow> 'v object \<times> orm_error option" where
  "reflect_store [] ob = (ob, None)"
| "reflect_store ((f, v) # fvs) ob =
     (if exported (fd_GoName f) then reflect_store fvs (ob(fd_GoName f \<mapsto> v))
      else (ob, Some (ErrPanic (UserPanic ''unexported field''))))"

definition reflect_SetColumns :: "Model \<Rightarrow> string list \<Rightarrow> 'v scanner \<Rightarrow> 'v object \<Rightarrow> 'v object \<times> orm_error option" where
  "reflect_SetColumns m columns row ob =
     (case column_fields m columns of
        Inl e \<Rightarrow> (ob, Some e)
      | Inr fs \<Rightarrow>
          (case row fs of
             (vs, Some e) \<Rightarrow> (ob, Some (ErrDriver e))
           | (vs, None) \<Rightarrow> reflect_store (zip fs vs) ob))"

definition unsafe_SetColumns :: "Model \<Rightarrow> string list \<Rightarrow> 'v scanner \<Rightarrow> 'v object \<Rightarrow> 'v object \<times> orm_error option" where
  "unsafe_SetColumns m colNames row ob =
     (if length colNames > column_count m then (ob, Some ErrTooManyReturnedColumns)
      else case column_fields m colNames of
          Inl e \<Rightarrow> (ob, Some e)
        | Inr fs \<Rightarrow> (case row fs of (vs, err) \<Rightarrow> (store fs vs ob, map_option ErrDriver err)))"

definition SetColumns :: "Creator \<Rightarrow> Model \<Rightarrow> string + string list \<Rightarrow> 'v scanner \<Rightarrow> 'v object \<Rightarrow> 'v object \<times> orm_error option" where
  "SetColumns cr m columns row ob =
     (case columns of
        Inl e \<Rightarrow> (ob, Some (ErrDriver e))
      | Inr cs \<Rightarrow>
          (case cr of ReflectValue \<Rightarrow> reflect_SetColumns m cs row ob | UnsafeValue \<Rightarrow> unsafe_SetColumns m cs row ob))"

section \<open>Results and sessions\<close>

text \<open>What \<^verbatim>\<open>sql.Result\<close> answers: a number or the message of an error.\<close>

record sqlResult =
  sr_RowsAffected :: "string + 64 word"
  sr_LastInsertId :: "string + 64 word"

text \<open>The mapper's own result wraps one of the driver, or another one of its own.\<close>

datatype Result = Result (rs_err: "orm_error option") (rs_res: "sqlres option")
  and sqlres = Driver sqlResult | Nested Result

fun RowsAffected :: "Result \<Rightarrow> orm_error + 64 word" where
  "RowsAffected (Result (Some e) res) = Inl e"
| "RowsAffected (Result None None) = Inl (ErrPanic NilPanic)"
| "RowsAffected (Result None (Some (Driver sr))) =
     (case sr_RowsAffected sr of Inl e \<Rightarrow> Inl (ErrDriver e) | Inr n \<Rightarrow> Inr n)"
| "RowsAffected (Result None (Some (Nested r))) = RowsAffected r"

fun LastInsertId :: "Result \<Rightarrow> orm_error + 64 word" where
  "LastInsertId (Result (Some e) res) = Inl e"
| "LastInsertId (Result None None) = Inl (ErrPanic NilPanic)"
| "LastInsertId (Result None (Some (Driver sr))) =
     (case sr_LastInsertId sr of Inl e \<Rightarrow> Inl (ErrDriver e) | Inr n \<Rightarrow> Inr n)"
| "LastInsertId (Result None (Some (Nested r))) = LastInsertId r"

text \<open>\<^verbatim>\<open>execContext\<close> and \<^verbatim>\<open>queryContext\<close> of a session.\<close>

record ('w, 'v) session =
  ss_exec :: "string \<Rightarrow> 'v sqlarg list \<Rightarrow> 'w \<Rightarrow> 'w \<times> (string + sqlResult)"
  ss_query :: "string \<Rightarrow> 'v sqlarg list \<Rightarrow> 'w \<Rightarrow> 'w \<times> (string + 'v Rows)"

text \<open>The field \<^verbatim>\<open>Result\<close> of type \<^verbatim>\<open>any\<close>: what a statement or what a query leaves there.\<close>

datatype 'v anyResult = QExec Result | QObject "'v object"

record 'v QueryResult =
  qr_Result :: "'v anyResult option"
  qr_Error :: "orm_error option"

text \<open>A handler works on the world and on the builder of the statement.\<close>

type_synonym ('w, 'v) ormHandler =
  "'v QueryBuilder \<Rightarrow> 'w \<times> 'v builder \<Rightarrow> ('w \<times> 'v builder) \<times> 'v QueryResult"

definition chain :: "(('w, 'v) ormHandler \<Rightarrow> ('w, 'v) ormHandler) list \<Rightarrow>
    ('w, 'v) ormHandler \<Rightarrow> ('w, 'v) ormHandler" where
  "chain mws root = fold (\<lambda>mw root. mw root) (rev mws) root"

definition execHandler :: "Creator \<Rightarrow> ('w \<Rightarrow> int) \<Rightarrow> ('w, 'v) session \<Rightarrow> ('w, 'v) ormHandler" where
  "execHandler cr now ss qb = (\<lambda>(w, b).
     case Build cr (now w) qb b of
       (b, Inl e) \<Rightarrow> ((w, b), \<lparr>qr_Result = Some (QExec (Result (Some e) None)), qr_Error = Some e\<rparr>)
     | (b, Inr qy) \<Rightarrow>
         (case ss_exec ss (q_SQL qy) (q_Args qy) w of
            (w, Inl e) \<Rightarrow> ((w, b), \<lparr>qr_Result = Some (QExec (Result (Some (ErrDriver e)) None)), qr_Error = Some (ErrDriver e)\<rparr>)
          | (w, Inr sr) \<Rightarrow> ((w, b), \<lparr>qr_Result = Some (QExec (Result None (Some (Driver sr)))), qr_Error = None\<rparr>)))"

record ('w, 'v) core =
  co_creator :: Creator
  co_now :: "'w \<Rightarrow> int"
  co_middlewares :: "(('w, 'v) ormHandler \<Rightarrow> ('w, 'v) ormHandler) list"

definition exec :: "('w, 'v) core \<Rightarrow> ('w, 'v) session \<Rightarrow> ('w, 'v) ormHandler" where
  "exec c ss = chain (co_middlewares c) (execHandler (co_creator c) (co_now c) ss)"

section \<open>Hooks and automatic fields\<close>

text \<open>A hook may change the object and the world and may return the message of an error.\<close>

type_synonym ('w, 'v) hook = "'w \<Rightarrow> 'v object option \<Rightarrow> 'w \<times> 'v object option \<times> string option"

text \<open>\<open>None\<close>: the type does not implement the hook.\<close>

definition run_hook :: "('w, 'v) hook option \<Rightarrow> 'w \<Rightarrow> 'v object option \<Rightarrow> 'w \<times> 'v object option \<times> orm_error option" where
  "run_hook h w ob =
     (case h of None \<Rightarrow> (w, ob, None)
      | Some h \<Rightarrow> (case h w ob of (w, ob, err) \<Rightarrow> (w, ob, map_option ErrHook err)))"

fun run_hooks :: "('w, 'v) hook option \<Rightarrow> 'w \<Rightarrow> 'v object option list \<Rightarrow> 'w \<times> 'v object option list \<times> orm_error option" where
  "run_hooks h w [] = (w, [], None)"
| "run_hooks h w (ob # obs) =
     (case run_hook h w ob of
        (w, ob, Some e) \<Rightarrow> (w, ob # obs, Some e)
      | (w, ob, None) \<Rightarrow> (case run_hooks h w obs of (w, obs, err) \<Rightarrow> (w, ob # obs, err)))"

definition setTimestampField :: "Field \<Rightarrow> int \<Rightarrow> 'v object option \<Rightarrow> orm_error + 'v object option" where
  "setTimestampField f now val =
     (case val of
        None \<Rightarrow> Inl (ErrPanic NilPanic)
      | Some ob \<Rightarrow>
          if ob (fd_GoName f) = None then Inl (ErrUnknownField (fd_GoName f))
          else if \<not> exported (fd_GoName f) then Inl (ErrNotSettable (fd_GoName f))
          else if fd_Kind f \<in> {KTime, KTimePtr, KIface} then Inr (Some (ob(fd_GoName f \<mapsto> ArgTime now)))
          else Inl (ErrFieldType (fd_GoName f)))"

definition isFieldZero :: "('v sqlarg \<Rightarrow> bool) \<Rightarrow> Field \<Rightarrow> 'v object option \<Rightarrow> orm_error + bool" where
  "isFieldZero zero f val =
     (case val of
        None \<Rightarrow> Inl (ErrPanic NilPanic)
      | Some ob \<Rightarrow> Inr (case ob (fd_GoName f) of None \<Rightarrow> True | Some v \<Rightarrow> zero v))"

definition setIntFieldIfZero :: "('v sqlarg \<Rightarrow> bool) \<Rightarrow> Field \<Rightarrow> 64 word \<Rightarrow> 'v object option \<Rightarrow> orm_error + 'v object option" where
  "setIntFieldIfZero zero f n val =
     (case val of
        None \<Rightarrow> Inl (ErrPanic NilPanic)
      | Some ob \<Rightarrow>
          (case ob (fd_GoName f) of
             None \<Rightarrow> Inl (ErrUnknownField (fd_GoName f))
           | Some v \<Rightarrow>
               if \<not> exported (fd_GoName f) then Inl (ErrNotSettable (fd_GoName f))
               else if \<not> zero v then Inr val
               else if isIntegerKind (fd_Kind f) then Inr (Some (ob(fd_GoName f \<mapsto> ArgInt n)))
               else Inl (ErrFieldType (fd_GoName f))))"

fun fill_all :: "('v object option \<Rightarrow> orm_error + 'v object option) \<Rightarrow> 'v object option list \<Rightarrow>
    'v object option list \<times> orm_error option" where
  "fill_all f [] = ([], None)"
| "fill_all f (ob # obs) =
     (case f ob of
        Inl e \<Rightarrow> (ob # obs, Some e)
      | Inr ob \<Rightarrow> (case fill_all f obs of (obs, err) \<Rightarrow> (ob # obs, err)))"

definition fillCreatedAt :: "('v sqlarg \<Rightarrow> bool) \<Rightarrow> Model \<Rightarrow> int \<Rightarrow> 'v object option \<Rightarrow> orm_error + 'v object option" where
  "fillCreatedAt zero m now ob =
     (case m_CreatedAt m of
        None \<Rightarrow> Inr ob
      | Some i \<Rightarrow>
          sum_bind (isFieldZero zero (m_Fields m ! i) ob)
            (\<lambda>z. if z then setTimestampField (m_Fields m ! i) now ob else Inr ob))"

definition fillVersion :: "('v sqlarg \<Rightarrow> bool) \<Rightarrow> Model \<Rightarrow> 'v object option \<Rightarrow> orm_error + 'v object option" where
  "fillVersion zero m ob =
     (case m_Version m of None \<Rightarrow> Inr ob | Some i \<Rightarrow> setIntFieldIfZero zero (m_Fields m ! i) 1 ob)"

section \<open>Insert\<close>

fun chunk_loop :: "nat \<Rightarrow> nat \<Rightarrow> 'a list \<Rightarrow> 'a list list" where
  "chunk_loop 0 n xs = []"
| "chunk_loop (Suc fuel) n xs = (if xs = [] then [] else take n xs # chunk_loop fuel n (drop n xs))"

text \<open>Every pass of the loop consumes an element, so the length is enough fuel.\<close>

definition splitChunk :: "'a list \<Rightarrow> int \<Rightarrow> 'a list list" where
  "splitChunk values n = (if n \<le> 0 \<or> values = [] then [values] else chunk_loop (length values) (nat n) values)"

definition failed :: "orm_error \<Rightarrow> Result" where
  "failed e = Result (Some e) None"

text \<open>
  What a chunk adds to the sums, which are those of 64-bit integers. A result without a value
  panics when it is asked, any other error is passed over.
\<close>

definition chunk_sums :: "'v QueryResult \<Rightarrow> 64 word \<Rightarrow> 64 word \<Rightarrow> go_panic + 64 word \<times> 64 word" where
  "chunk_sums res rows lastId =
     (case qr_Result res of
        Some (QExec r) \<Rightarrow>
          (case (RowsAffected r, LastInsertId r) of
             (Inl (ErrPanic p), _) \<Rightarrow> Inl p
           | (_, Inl (ErrPanic p)) \<Rightarrow> Inl p
           | (ra, li) \<Rightarrow>
               Inr (case ra of Inr n \<Rightarrow> rows + n | Inl _ \<Rightarrow> rows, case li of Inr k \<Rightarrow> k | Inl _ \<Rightarrow> lastId))
      | _ \<Rightarrow> Inr (rows, lastId))"

text \<open>The chunks one after the other.\<close>

fun exec_chunks :: "('w, 'v) core \<Rightarrow> ('w, 'v) session \<Rightarrow> 'v Inserter \<Rightarrow> 'v object option list list \<Rightarrow> 64 word \<Rightarrow> 64 word \<Rightarrow>
    'w \<times> 'v builder \<Rightarrow> ('w \<times> 'v builder) \<times> 'v QueryResult" where
  "exec_chunks c ss i [] rows lastId s =
     (s, \<lparr>qr_Result = Some (QExec (Result None (Some (Driver \<lparr>sr_RowsAffected = Inr rows, sr_LastInsertId = Inr lastId\<rparr>)))),
          qr_Error = None\<rparr>)"
| "exec_chunks c ss i (chunk # chunks) rows lastId (w, b) =
     (case Inserter_Build (co_creator c) (i\<lparr>i_values := chunk\<rparr>) (b\<lparr>b_sql := []\<rparr>) of
        (b, Inl e) \<Rightarrow> ((w, b), \<lparr>qr_Result = Some (QExec (Result (Some e) None)), qr_Error = Some e\<rparr>)
      | (b, Inr qy) \<Rightarrow>
          (case exec c ss (QChunk qy) (w, b) of
             (s, res) \<Rightarrow>
               if qr_Error res \<noteq> None then (s, res)
               else
                 case chunk_sums res rows lastId of
                   Inl p \<Rightarrow> (s, \<lparr>qr_Result = Some (QExec (failed (ErrPanic p))), qr_Error = Some (ErrPanic p)\<rparr>)
                 | Inr (rows, lastId) \<Rightarrow> exec_chunks c ss i chunks rows lastId s))"

definition execChunked :: "('w, 'v) core \<Rightarrow> ('w, 'v) session \<Rightarrow> 'v Inserter \<Rightarrow> 'w \<times> 'v builder \<Rightarrow>
    ('w \<times> 'v builder) \<times> 'v QueryResult" where
  "execChunked c ss i s = exec_chunks c ss i (splitChunk (i_values i) (i_chunkSize i)) 0 0 s"

text \<open>The type assertion \<^verbatim>\<open>res.Result.(sql.Result)\<close>, which panics on anything else.\<close>

definition sql_result :: "'v QueryResult \<Rightarrow> go_panic + sqlres option" where
  "sql_result res =
     (case qr_Result res of
        None \<Rightarrow> Inr None
      | Some (QExec r) \<Rightarrow> Inr (Some (Nested r))
      | Some (QObject _) \<Rightarrow> Inl (UserPanic ''interface conversion''))"

definition Inserter_Exec ::
  "('w, 'v) core \<Rightarrow> ('w, 'v) session \<Rightarrow> ('w, 'v) hook option \<Rightarrow> ('w, 'v) hook option \<Rightarrow> ('v sqlarg \<Rightarrow> bool) \<Rightarrow>
     'v Inserter \<Rightarrow> 'w \<times> 'v builder \<Rightarrow> ('w \<times> 'v builder) \<times> 'v object option list \<times> Result" where
  "Inserter_Exec c ss before after zero i = (\<lambda>(w, b).
     case get_model (i_entity i) b of
       (b, Some e) \<Rightarrow> ((w, b), i_values i, failed e)
     | (b, None) \<Rightarrow>
         (case run_hooks before w (i_values i) of
            (w, vals, Some e) \<Rightarrow> ((w, b), vals, failed e)
          | (w, vals, None) \<Rightarrow>
              (case fill_all (fillCreatedAt zero (b_model b) (co_now c w)) vals of
                 (vals, Some e) \<Rightarrow> ((w, b), vals, failed e)
               | (vals, None) \<Rightarrow>
                   (case fill_all (fillVersion zero (b_model b)) vals of
                      (vals, Some e) \<Rightarrow> ((w, b), vals, failed e)
                    | (vals, None) \<Rightarrow>
                        (let i = i\<lparr>i_values := vals\<rparr>;
                             ((w, b), res) =
                               (if i_chunkSize i > 0 \<and> int (length vals) > i_chunkSize i
                                then execChunked c ss i (w, b) else exec c ss (QInserter i) (w, b))
                         in case sql_result res of
                              Inl p \<Rightarrow> ((w, b), vals, failed (ErrPanic p))
                            | Inr sr \<Rightarrow>
                                if qr_Error res \<noteq> None then ((w, b), vals, Result (qr_Error res) sr)
                                else case run_hooks after w vals of
                                    (w, vals, Some e) \<Rightarrow> ((w, b), vals, failed e)
                                  | (w, vals, None) \<Rightarrow> ((w, b), vals, Result None sr))))))"

section \<open>Update, delete, select\<close>

definition stamp_updated ::
  "Model \<Rightarrow> int \<Rightarrow> 'v Updater \<Rightarrow> orm_error + 'v Updater" where
  "stamp_updated m now u =
     (case m_UpdatedAt m of
        None \<Rightarrow> Inr u
      | Some i \<Rightarrow>
          (let f = m_Fields m ! i
           in sum_bind (if u_val u \<noteq> None then setTimestampField f now (u_val u) else Inr (u_val u))
                (\<lambda>val. let u = u\<lparr>u_val := val\<rparr>
                  in Inr (if u_assigns u \<noteq> [] \<and> \<not> list_ex (\<lambda>a. assigned_name a = fd_GoName f) (u_assigns u)
                          then u\<lparr>u_assigns := u_assigns u @ [Assign (fd_GoName f) (Inr (ArgTime now))]\<rparr> else u))))"

text \<open>The number of rows of an \<^verbatim>\<open>sql.Result\<close>, whichever implementation it is.\<close>

definition affected :: "sqlres \<Rightarrow> orm_error + 64 word" where
  "affected sr = RowsAffected (Result None (Some sr))"

text \<open>
  A successful statement that touched no row means that the version had changed. The result
  can panic when it is asked.
\<close>

definition lock_conflict :: "Model \<Rightarrow> 'v object option \<Rightarrow> orm_error option \<Rightarrow> sqlres option \<Rightarrow> go_panic + bool" where
  "lock_conflict m val err sr =
     (if err = None \<and> m_Version m \<noteq> None \<and> val \<noteq> None then
        (case sr of
           None \<Rightarrow> Inr False
         | Some sr \<Rightarrow> (case affected sr of Inr n \<Rightarrow> Inr (n = 0) | Inl (ErrPanic p) \<Rightarrow> Inl p | Inl _ \<Rightarrow> Inr False))
      else Inr False)"

definition Updater_Exec ::
  "('w, 'v) core \<Rightarrow> ('w, 'v) session \<Rightarrow> ('w, 'v) hook option \<Rightarrow> ('w, 'v) hook option \<Rightarrow>
     'v Updater \<Rightarrow> 'w \<times> 'v builder \<Rightarrow> ('w \<times> 'v builder) \<times> 'v Updater \<times> Result" where
  "Updater_Exec c ss before after u = (\<lambda>(w, b).
     case get_model (u_entity u) b of
       (b, Some e) \<Rightarrow> ((w, b), u, failed e)
     | (b, None) \<Rightarrow>
         (case (if u_val u = None then (w, None, None) else run_hook before w (u_val u)) of
            (w, val, Some e) \<Rightarrow> ((w, b), u\<lparr>u_val := val\<rparr>, failed e)
          | (w, val, None) \<Rightarrow>
              (case stamp_updated (b_model b) (co_now c w) (u\<lparr>u_val := val\<rparr>) of
                 Inl e \<Rightarrow> ((w, b), u\<lparr>u_val := val\<rparr>, failed e)
               | Inr u \<Rightarrow>
                   (let m = b_model b; ((w, b), res) = exec c ss (QUpdater u) (w, b)
                    in case sql_result res of
                         Inl p \<Rightarrow> ((w, b), u, failed (ErrPanic p))
                       | Inr sr \<Rightarrow>
                           (case lock_conflict m (u_val u) (qr_Error res) sr of
                              Inl p \<Rightarrow> ((w, b), u, failed (ErrPanic p))
                            | Inr True \<Rightarrow> ((w, b), u, failed ErrOptimisticLock)
                            | Inr False \<Rightarrow>
                                if qr_Error res \<noteq> None \<or> u_val u = None then ((w, b), u, Result (qr_Error res) sr)
                                else case run_hook after w (u_val u) of
                                    (w, val, Some e) \<Rightarrow> ((w, b), u\<lparr>u_val := val\<rparr>, failed e)
                                  | (w, val, None) \<Rightarrow> ((w, b), u\<lparr>u_val := val\<rparr>, Result None sr))))))"

definition Deleter_Exec ::
  "('w, 'v) core \<Rightarrow> ('w, 'v) session \<Rightarrow> 'v Deleter \<Rightarrow> 'w \<times> 'v builder \<Rightarrow> ('w \<times> 'v builder) \<times> Result" where
  "Deleter_Exec c ss d = (\<lambda>(w, b).
     case get_model (d_entity d) b of
       (b, Some e) \<Rightarrow> ((w, b), failed e)
     | (b, None) \<Rightarrow> (case exec c ss (QDeleter d) (w, b) of
                       (s, res) \<Rightarrow>
                         (case sql_result res of
                            Inl p \<Rightarrow> (s, failed (ErrPanic p))
                          | Inr sr \<Rightarrow> (s, Result (qr_Error res) sr))))"

definition get_failed :: "orm_error \<Rightarrow> 'v QueryResult" where
  "get_failed e = \<lparr>qr_Result = None, qr_Error = Some e\<rparr>"

text \<open>A hook on an object behind a pointer that it cannot make nil.\<close>

definition object_hook :: "('w, 'v) hook option \<Rightarrow> 'w \<Rightarrow> 'v object \<Rightarrow> 'w \<times> 'v object \<times> orm_error option" where
  "object_hook h w ob = (case run_hook h w (Some ob) of (w, ob', err) \<Rightarrow> (w, case ob' of Some o' \<Rightarrow> o' | None \<Rightarrow> ob, err))"

text \<open>
  \<open>fresh\<close> is the new object the query starts from. The error that ended the rows is not
  looked at.
\<close>

definition getHandler ::
  "('w, 'v) core \<Rightarrow> ('w, 'v) session \<Rightarrow> ('w, 'v) hook option \<Rightarrow> ('w, 'v) hook option \<Rightarrow> 'v object \<Rightarrow> ('w, 'v) ormHandler" where
  "getHandler c ss before after fresh qb = (\<lambda>(w, b).
     case object_hook before w fresh of
       (w, ob, Some e) \<Rightarrow> ((w, b), get_failed e)
     | (w, ob, None) \<Rightarrow>
         (case Build (co_creator c) (co_now c w) qb b of
            (b, Inl e) \<Rightarrow> ((w, b), get_failed e)
          | (b, Inr qy) \<Rightarrow>
              (case ss_query ss (q_SQL qy) (q_Args qy) w of
                 (w, Inl e) \<Rightarrow> ((w, b), get_failed (ErrDriver e))
               | (w, Inr rows) \<Rightarrow>
                   (case rw_rows rows of
                      [] \<Rightarrow> ((w, b), get_failed ErrNoRows)
                    | row # rest \<Rightarrow>
                        (case SetColumns (co_creator c) (b_model b) (rw_columns rows) row ob of
                           (ob, Some e) \<Rightarrow> ((w, b), get_failed e)
                         | (ob, None) \<Rightarrow>
                             if rest \<noteq> [] then ((w, b), get_failed ErrTooManyRows)
                             else case object_hook after w ob of
                                 (w, ob, Some e) \<Rightarrow> ((w, b), get_failed e)
                               | (w, ob, None) \<Rightarrow> ((w, b), \<lparr>qr_Result = Some (QObject ob), qr_Error = None\<rparr>))))))"

text \<open>The innermost handler of \<^verbatim>\<open>get\<close> ignores the query context it is called with.\<close>

definition Selector_Get ::
  "('w, 'v) core \<Rightarrow> ('w, 'v) session \<Rightarrow> ('w, 'v) hook option \<Rightarrow> ('w, 'v) hook option \<Rightarrow> 'v object \<Rightarrow>
     'v Selector \<Rightarrow> 'w \<times> 'v builder \<Rightarrow> ('w \<times> 'v builder) \<times> (orm_error option \<times> 'v object option)" where
  "Selector_Get c ss before after fresh sel = (\<lambda>(w, b).
     case get_model (s_entity sel) b of
       (b, Some e) \<Rightarrow> ((w, b), (Some e, None))
     | (b, None) \<Rightarrow>
         (case chain (co_middlewares c) (\<lambda>_. getHandler c ss before after fresh (QSelector sel)) (QSelector sel) (w, b) of
            (s, res) \<Rightarrow>
              (case qr_Result res of
                 None \<Rightarrow> (s, (qr_Error res, None))
               | Some (QObject ob) \<Rightarrow> (s, (qr_Error res, Some ob))
               | Some (QExec _) \<Rightarrow> (s, (Some (ErrPanic (UserPanic ''interface conversion'')), None)))))"

section \<open>Transactions\<close>

datatype tx_outcome = FnReturns "orm_error option" | FnPanics go_panic

record 'w txops =
  tx_begin :: "'w \<Rightarrow> 'w \<times> string option"
  tx_commit :: "'w \<Rightarrow> 'w \<times> string option"
  tx_rollback :: "'w \<Rightarrow> 'w \<times> string option"

text \<open>The result is the error \<^verbatim>\<open>DoTx\<close> returns, or the panic that passes through it.\<close>

definition DoTx :: "'w txops \<Rightarrow> ('w \<Rightarrow> 'w \<times> tx_outcome) \<Rightarrow> 'w \<Rightarrow> 'w \<times> (go_panic + orm_error option)" where
  "DoTx ops fn w =
     (case tx_begin ops w of
        (w, Some e) \<Rightarrow> (w, Inr (Some (ErrDriver e)))
      | (w, None) \<Rightarrow>
          (case fn w of
             (w, FnPanics p) \<Rightarrow> (fst (tx_rollback ops w), Inl p)
           | (w, FnReturns (Some e)) \<Rightarrow>
               (case tx_rollback ops w of
                  (w, Some rb) \<Rightarrow> (w, Inr (Some (ErrFailToRollback (Some e) rb False)))
                | (w, None) \<Rightarrow> (w, Inr (Some e)))
           | (w, FnReturns None) \<Rightarrow>
               (case tx_commit ops w of (w, err) \<Rightarrow> (w, Inr (map_option ErrDriver err)))))"

section \<open>Chunks\<close>

lemma chunk_concat:
  assumes "n > 0"
  shows "length xs \<le> fuel \<Longrightarrow> concat (chunk_loop fuel n xs) = xs"
proof (induction fuel arbitrary: xs)
  case (Suc fuel)
  show ?case
  proof (cases "xs = []")
    case False
    then have "length (drop n xs) \<le> fuel" using Suc.prems assms by (cases xs) auto
    then show ?thesis using Suc.IH[of "drop n xs"] False by simp
  qed simp
qed simp

lemma chunk_bounds:
  assumes "n > 0"
  shows "\<forall>c \<in> set (chunk_loop fuel n xs). c \<noteq> [] \<and> length c \<le> n"
proof (induction fuel arbitrary: xs)
  case (Suc fuel)
  then show ?case using assms by (cases "xs = []") simp_all
qed simp

lemma ceil_div_step:
  assumes n: "(n :: nat) > 0" and k: "k > 0"
  shows "(k + n - 1) div n = Suc ((k - n + n - 1) div n)"
proof -
  obtain m where m: "k = Suc m" using k by (cases k) auto
  have "(k + n - 1) div n = Suc (m div n)" using n div_add_self2[of n m] by (simp add: m)
  moreover have "(k - n + n - 1) div n = m div n"
  proof (cases "n \<le> k")
    case True
    then have "k - n + n - 1 = m" by (simp add: m)
    then show ?thesis by (rule arg_cong)
  next
    case False
    then have "m < n" "k - n = 0" "n - 1 < n" using m n by linarith+
    then show ?thesis by simp
  qed
  ultimately show ?thesis by (simp only:)
qed

lemma chunk_count:
  assumes n: "n > 0"
  shows "length xs \<le> fuel \<Longrightarrow> length (chunk_loop fuel n xs) = (length xs + n - 1) div n"
proof (induction fuel arbitrary: xs)
  case 0
  then show ?case using n by simp
next
  case (Suc fuel)
  show ?case
  proof (cases "xs = []")
    case True
    then show ?thesis using n by simp
  next
    case False
    then have pos: "length xs > 0" by simp
    have len: "length (drop n xs) \<le> fuel" unfolding length_drop using Suc.prems n pos by linarith
    have "length (chunk_loop (Suc fuel) n xs) = Suc (length (chunk_loop fuel n (drop n xs)))" using False by simp
    also have "\<dots> = Suc ((length xs - n + n - 1) div n)" unfolding Suc.IH[OF len] length_drop ..
    also have "\<dots> = (length xs + n - 1) div n" by (rule ceil_div_step[OF n pos, symmetric])
    finally show ?thesis .
  qed
qed

lemma chain_Nil [simp]: "chain [] root = root"
  by (simp add: chain_def)

lemma chain_Cons: "chain (mw # mws) root = mw (chain mws root)"
  by (simp add: chain_def)

section \<open>Optimistic locking\<close>

lemma failed_RowsAffected [simp]: "RowsAffected (failed e) = Inl e"
  by (simp add: failed_def)

text \<open>Without middlewares, an update of a versioned object that touches no row is a conflict.\<close>

lemma update_conflict:
  assumes "co_middlewares c = []" "get_model (u_entity u) b = (b1, None)" "m_Version (b_model b1) \<noteq> None"
    "u_val u = Some ob" "stamp_updated (b_model b1) (co_now c w) u = Inr u'" "u_val u' \<noteq> None"
    "Build (co_creator c) (co_now c w) (QUpdater u') b1 = (b2, Inr qy)"
    "ss_exec ss (q_SQL qy) (q_Args qy) w = (w', Inr sr)" "sr_RowsAffected sr = Inr 0"
  shows "Updater_Exec c ss None after u (w, b) = ((w', b2), u', failed ErrOptimisticLock)"
proof -
  have u: "u\<lparr>u_val := Some ob\<rparr> = u" using assms(4) by (cases u) simp
  have e: "exec c ss (QUpdater u') (w, b1) = ((w', b2), \<lparr>qr_Result = Some (QExec (Result None (Some (Driver sr)))), qr_Error = None\<rparr>)"
    using assms(1,7,8) by (simp add: exec_def execHandler_def)
  have st: "stamp_updated (b_model b1) (co_now c w) (u\<lparr>u_val := Some ob\<rparr>) = Inr u'" unfolding u by (rule assms(5))
  have lc: "lock_conflict (b_model b1) (u_val u') None (Some (Nested (Result None (Some (Driver sr))))) = Inr True"
    using assms(3,6,9) by (simp add: lock_conflict_def affected_def)
  show ?thesis
    by (simp add: Updater_Exec_def run_hook_def sql_result_def assms(2,4) st e lc)
qed

section \<open>A world that records the calls of a transaction\<close>

datatype tx_event = TBegin | TFn | TCommit | TRollback

definition logged :: "'w txops \<Rightarrow> (tx_event list \<times> 'w) txops" where
  "logged ops =
     \<lparr>tx_begin = (\<lambda>(l, w). case tx_begin ops w of (w, e) \<Rightarrow> ((l @ [TBegin], w), e)),
      tx_commit = (\<lambda>(l, w). case tx_commit ops w of (w, e) \<Rightarrow> ((l @ [TCommit], w), e)),
      tx_rollback = (\<lambda>(l, w). case tx_rollback ops w of (w, e) \<Rightarrow> ((l @ [TRollback], w), e))\<rparr>"

definition logged_fn :: "('w \<Rightarrow> 'w \<times> tx_outcome) \<Rightarrow> tx_event list \<times> 'w \<Rightarrow> (tx_event list \<times> 'w) \<times> tx_outcome" where
  "logged_fn fn = (\<lambda>(l, w). case fn w of (w, r) \<Rightarrow> ((l @ [TFn], w), r))"

section \<open>Properties\<close>

text \<open>
  Splitting the values of a bulk insert loses nothing, repeats nothing and keeps the
  order; with a positive chunk size no chunk is empty or too long, and there are no more
  chunks than needed.
\<close>

lemma splitChunk_partition:
  "concat (splitChunk xs n) = xs \<and>
   (n > 0 \<and> xs \<noteq> [] \<longrightarrow>
      (\<forall>c \<in> set (splitChunk xs n). c \<noteq> [] \<and> int (length c) \<le> n) \<and>
      length (splitChunk xs n) = (length xs + nat n - 1) div nat n)"
proof (cases "n \<le> 0 \<or> xs = []")
  case True
  then have "splitChunk xs n = [xs]" by (simp add: splitChunk_def)
  then show ?thesis using True by auto
next
  case False
  then have n: "nat n > 0" and e: "splitChunk xs n = chunk_loop (length xs) (nat n) xs" by (simp_all add: splitChunk_def)
  have "\<forall>c \<in> set (splitChunk xs n). c \<noteq> [] \<and> int (length c) \<le> n"
    unfolding e
  proof
    fix c
    assume "c \<in> set (chunk_loop (length xs) (nat n) xs)"
    then have "c \<noteq> [] \<and> length c \<le> nat n" by (rule chunk_bounds[OF n, rule_format])
    then show "c \<noteq> [] \<and> int (length c) \<le> n" using n by linarith
  qed
  then show ?thesis
    unfolding e using chunk_concat[OF n order_refl, of xs] chunk_count[OF n order_refl, of xs] by blast
qed

text \<open>
  C27: A transaction is all or nothing. In a world that records the calls, the function runs
  only after a successful begin, exactly one of commit and rollback follows it, and it is
  commit only if the function returned without error and without panic; \<^verbatim>\<open>DoTx\<close> then reports
  success only if the commit succeeded.
\<close>

theorem DoTx_atomic:
  "case DoTx (logged ops) (logged_fn fn) ([], w) of
     ((l, w'), res) \<Rightarrow>
       (case tx_begin ops w of
          (w1, Some e) \<Rightarrow> l = [TBegin] \<and> res = Inr (Some (ErrDriver e))
        | (w1, None) \<Rightarrow>
            (case fn w1 of
               (w2, FnReturns None) \<Rightarrow> l = [TBegin, TFn, TCommit] \<and> (res = Inr None) = (snd (tx_commit ops w2) = None)
             | (w2, FnReturns (Some e)) \<Rightarrow> l = [TBegin, TFn, TRollback] \<and> res \<noteq> Inr None
             | (w2, FnPanics p) \<Rightarrow> l = [TBegin, TFn, TRollback] \<and> res = Inl p))"
  by (auto simp: DoTx_def logged_def logged_fn_def split: prod.splits option.splits tx_outcome.splits)

end
