(* ===== verification/OrmDB.thy ===== *)
theory OrmDB
  imports OrmExec
begin

text \<open>
  The database handle of \<^verbatim>\<open>orm/db.go\<close> with its options and the raw queries, the middlewares
  \<^verbatim>\<open>orm/middleware/querylog\<close> and \<^verbatim>\<open>slowquery\<close>, and what is shown of reading rows into objects.
\<close>

section \<open>Opening a database\<close>

record ('w, 'v) DB =
  db_r :: registry
  db_valCreator :: Creator
  db_dialect :: Dialect
  db_middlewares :: "(('w, 'v) ormHandler \<Rightarrow> ('w, 'v) ormHandler) list"

type_synonym ('w, 'v) DBOption = "('w, 'v) DB \<Rightarrow> ('w, 'v) DB"

definition OpenDB :: "('w, 'v) DBOption list \<Rightarrow> ('w, 'v) DB" where
  "OpenDB opts =
     fold (\<lambda>opt db. opt db) opts
       \<lparr>db_r = Map.empty, db_valCreator = UnsafeValue, db_dialect = MySQL, db_middlewares = []\<rparr>"

definition DBUseReflect :: "('w, 'v) DBOption" where
  "DBUseReflect db = db\<lparr>db_valCreator := ReflectValue\<rparr>"

definition DBWithDialect :: "Dialect \<Rightarrow> ('w, 'v) DBOption" where
  "DBWithDialect d db = db\<lparr>db_dialect := d\<rparr>"

definition DBWithMiddlewares :: "(('w, 'v) ormHandler \<Rightarrow> ('w, 'v) ormHandler) list \<Rightarrow> ('w, 'v) DBOption" where
  "DBWithMiddlewares mdls db = db\<lparr>db_middlewares := mdls\<rparr>"

text \<open>What a statement takes from the handle: its core, with the clock, and an empty builder.\<close>

definition getCore :: "('w \<Rightarrow> int) \<Rightarrow> ('w, 'v) DB \<Rightarrow> ('w, 'v) core" where
  "getCore now db = \<lparr>co_creator = db_valCreator db, co_now = now, co_middlewares = db_middlewares db\<rparr>"

definition statement_builder :: "('w, 'v) DB \<Rightarrow> 'v builder" where
  "statement_builder db = new_builder (db_r db) (db_dialect db)"

section \<open>Middlewares\<close>

definition querylog_Build :: "Creator \<Rightarrow> ('w \<Rightarrow> int) \<Rightarrow> (string \<Rightarrow> 'v sqlarg list \<Rightarrow> 'w \<Rightarrow> 'w) \<Rightarrow>
    ('w, 'v) ormHandler \<Rightarrow> ('w, 'v) ormHandler" where
  "querylog_Build cr now logFunc next' qb = (\<lambda>(w, b).
     case Build cr (now w) qb b of
       (b, Inl e) \<Rightarrow> ((w, b), \<lparr>qr_Result = None, qr_Error = Some e\<rparr>)
     | (b, Inr qy) \<Rightarrow> next' qb (logFunc (q_SQL qy) (q_Args qy) w, b))"

definition slowquery_Build :: "Creator \<Rightarrow> ('w \<Rightarrow> int) \<Rightarrow> int \<Rightarrow> (string \<Rightarrow> 'v sqlarg list \<Rightarrow> int \<Rightarrow> 'w \<Rightarrow> 'w) \<Rightarrow>
    ('w, 'v) ormHandler \<Rightarrow> ('w, 'v) ormHandler" where
  "slowquery_Build cr now threshold logFunc next' qb = (\<lambda>(w, b).
     case next' qb (w, b) of
       ((w', b'), res) \<Rightarrow>
         (let duration = now w' - now w
          in if duration \<le> threshold then ((w', b'), res)
             else case Build cr (now w') qb b' of
                 (b', Inl e) \<Rightarrow> ((w', b'), res)
               | (b', Inr qy) \<Rightarrow> ((logFunc (q_SQL qy) (q_Args qy) duration w', b'), res)))"

section \<open>Raw queries\<close>

text \<open>
  What the destination of a raw query can be. \<^verbatim>\<open>reflect.New\<close> gives the object a slice element
  starts from.
\<close>

datatype 'v target =
    NotPtr
  | ToStruct structType "'v object"
  | ToSlice structType "'v object" "'v object list"
  | ToSliceOther   \<comment> \<open>a slice of something that is no struct and no pointer to one\<close>
  | ToOther

fun read_rows :: "Creator \<Rightarrow> Model \<Rightarrow> string + string list \<Rightarrow> 'v object \<Rightarrow> 'v scanner list \<Rightarrow> 'v object list \<Rightarrow>
    'v object list \<times> orm_error option" where
  "read_rows cr m cols fresh [] acc = (acc, None)"
| "read_rows cr m cols fresh (row # rows) acc =
     (case SetColumns cr m cols row fresh of
        (ob, Some e) \<Rightarrow> (acc, Some e)
      | (ob, None) \<Rightarrow> read_rows cr m cols fresh rows (acc @ [ob]))"

definition raw_result :: "orm_error option \<Rightarrow> Result" where
  "raw_result err = Result err None"

definition raw_struct :: "Creator \<Rightarrow> Model \<Rightarrow> 'v Rows \<Rightarrow> 'v object \<Rightarrow> 'v object \<times> orm_error option" where
  "raw_struct cr m rows ob =
     (case rw_rows rows of
        [] \<Rightarrow> (ob, Some (case rw_err rows of Some e \<Rightarrow> ErrDriver e | None \<Rightarrow> ErrNoRows))
      | row # _ \<Rightarrow> SetColumns cr m (rw_columns rows) row ob)"

definition raw_slice :: "Creator \<Rightarrow> Model \<Rightarrow> 'v Rows \<Rightarrow> 'v object \<Rightarrow> 'v object list \<Rightarrow> 'v object list \<times> orm_error option" where
  "raw_slice cr m rows fresh obs =
     (case read_rows cr m (rw_columns rows) fresh (rw_rows rows) obs of
        (obs, Some e) \<Rightarrow> (obs, Some e)
      | (obs, None) \<Rightarrow> (obs, map_option ErrDriver (rw_err rows)))"

definition raw_fetch :: "('w, 'v) session \<Rightarrow> string \<Rightarrow> 'v sqlarg list \<Rightarrow> structType \<Rightarrow> ('w, 'v) DB \<Rightarrow> 'w \<Rightarrow>
    ('w \<times> ('w, 'v) DB) \<times> (orm_error + Model \<times> 'v Rows)" where
  "raw_fetch ss sql args ty db w =
     (case registry_Get (PtrTo ty) (db_r db) of
        (r, Inl e) \<Rightarrow> ((w, db\<lparr>db_r := r\<rparr>), Inl e)
      | (r, Inr m) \<Rightarrow>
          (case ss_query ss sql args w of
             (w, Inl e) \<Rightarrow> ((w, db\<lparr>db_r := r\<rparr>), Inl (ErrDriver e))
           | (w, Inr rows) \<Rightarrow> ((w, db\<lparr>db_r := r\<rparr>), Inr (m, rows))))"

definition RawQuerier_Query :: "('w, 'v) session \<Rightarrow> string \<Rightarrow> 'v sqlarg list \<Rightarrow> 'v target \<Rightarrow> ('w, 'v) DB \<Rightarrow> 'w \<Rightarrow>
    ('w \<times> ('w, 'v) DB) \<times> 'v target \<times> Result" where
  "RawQuerier_Query ss sql args tgt db w =
     (case tgt of
        ToStruct ty ob \<Rightarrow>
          (case raw_fetch ss sql args ty db w of
             (s, Inl e) \<Rightarrow> (s, tgt, raw_result (Some e))
           | (s, Inr (m, rows)) \<Rightarrow>
               (case raw_struct (db_valCreator db) m rows ob of (ob, err) \<Rightarrow> (s, ToStruct ty ob, raw_result err)))
      | ToSlice ty fresh obs \<Rightarrow>
          (case raw_fetch ss sql args ty db w of
             (s, Inl e) \<Rightarrow> (s, tgt, raw_result (Some e))
           | (s, Inr (m, rows)) \<Rightarrow>
               (case raw_slice (db_valCreator db) m rows fresh obs of (obs, err) \<Rightarrow> (s, ToSlice ty fresh obs, raw_result err)))
      | NotPtr \<Rightarrow> ((w, db), tgt, raw_result (Some (ErrRawTarget ''not a pointer'')))
      | ToSliceOther \<Rightarrow> ((w, db), tgt, raw_result (Some (ErrRawTarget ''elements are no structs'')))
      | ToOther \<Rightarrow> ((w, db), tgt, raw_result (Some (ErrRawTarget ''not a struct or a slice''))))"

definition RawQuerier_Exec :: "('w, 'v) session \<Rightarrow> string \<Rightarrow> 'v sqlarg list \<Rightarrow> 'w \<Rightarrow> 'w \<times> (orm_error + sqlResult)" where
  "RawQuerier_Exec ss sql args w =
     (case ss_exec ss sql args w of (w, Inl e) \<Rightarrow> (w, Inl (ErrDriver e)) | (w, Inr sr) \<Rightarrow> (w, Inr sr))"

section \<open>Reading rows\<close>

lemma column_fields_ColName:
  "model_wf m \<Longrightarrow> column_fields m cs = Inr fs \<Longrightarrow> map fd_ColName fs = cs"
  by (induction cs arbitrary: fs) (auto simp: sum_bind_Inr_iff model_wf_def split: option.splits)

lemma column_fields_sub:
  "model_wf m \<Longrightarrow> column_fields m cs = Inr fs \<Longrightarrow> set fs \<subseteq> set (m_Fields m)"
  by (induction cs arbitrary: fs) (fastforce simp: sum_bind_Inr_iff model_wf_def split: option.splits)+

lemma column_fields_dom: "column_fields m cs = Inr fs \<Longrightarrow> set cs \<subseteq> dom (m_ColumnMap m)"
  by (induction cs arbitrary: fs) (auto simp: sum_bind_Inr_iff split: option.splits)

text \<open>The number of columns is the number of keys of the column map.\<close>

definition column_indices :: "Model \<Rightarrow> nat set" where
  "column_indices m = {i. i < length (m_Fields m) \<and> m_ColumnMap m (col_of m i) = Some i}"

lemma column_dom:
  assumes "model_wf m"
  shows "dom (m_ColumnMap m) = col_of m ` column_indices m"
proof (rule set_eqI)
  fix c
  have "m_ColumnMap m c = Some i \<longleftrightarrow> i \<in> column_indices m \<and> c = col_of m i" for i
    using assms unfolding model_wf_def column_indices_def col_of_def by blast
  then show "c \<in> dom (m_ColumnMap m) \<longleftrightarrow> c \<in> col_of m ` column_indices m" by blast
qed

lemma column_count_card:
  assumes "model_wf m"
  shows "column_count m = card (dom (m_ColumnMap m))"
proof -
  have "inj_on (col_of m) (column_indices m)"
  proof (rule inj_onI)
    fix i j
    assume "i \<in> column_indices m" "j \<in> column_indices m" "col_of m i = col_of m j"
    then have "Some i = Some j" unfolding column_indices_def by (metis (mono_tags) mem_Collect_eq)
    then show "i = j" by (rule option.inject[THEN iffD1])
  qed
  then have "card (dom (m_ColumnMap m)) = card (column_indices m)" unfolding column_dom[OF assms] by (rule card_image)
  moreover have "column_indices m = set (filter (\<lambda>i. m_ColumnMap m (col_of m i) = Some i) [0..<length (m_Fields m)])"
    by (auto simp: column_indices_def)
  moreover have "column_count m = card (set (filter (\<lambda>i. m_ColumnMap m (col_of m i) = Some i) [0..<length (m_Fields m)]))"
    unfolding column_count_def by (rule distinct_card[symmetric]) simp
  ultimately show ?thesis by (simp only:)
qed

lemma columns_fit:
  assumes "model_wf m" "distinct cs" "column_fields m cs = Inr fs"
  shows "length cs \<le> column_count m"
proof -
  have "finite (dom (m_ColumnMap m))" by (simp add: column_dom[OF assms(1)] column_indices_def)
  then have "card (set cs) \<le> card (dom (m_ColumnMap m))" by (rule card_mono) (rule column_fields_dom[OF assms(3)])
  then show ?thesis using assms by (simp add: column_count_card distinct_card)
qed

lemma reflect_store_exported:
  "\<forall>(f, v) \<in> set fvs. exported (fd_GoName f) \<Longrightarrow>
   reflect_store fvs ob = (fold (\<lambda>(f, v) ob. ob(fd_GoName f \<mapsto> v)) fvs ob, None)"
  by (induction fvs arbitrary: ob) auto

lemma store_other: "n \<notin> fd_GoName ` set fs \<Longrightarrow> store fs vs ob n = ob n"
proof (induction fs arbitrary: vs ob)
  case (Cons f fs)
  then show ?case by (cases vs) (simp_all add: store_def)
qed (simp add: store_def)

lemma store_nth:
  "distinct (map fd_GoName fs) \<Longrightarrow> length vs = length fs \<Longrightarrow> k < length fs \<Longrightarrow>
   store fs vs ob (fd_GoName (fs ! k)) = Some (vs ! k)"
proof (induction fs arbitrary: vs ob k)
  case (Cons f fs)
  obtain v vs' where vs: "vs = v # vs'" using Cons.prems(2) by (cases vs) auto
  have st: "store (f # fs) (v # vs') ob = store fs vs' (ob(fd_GoName f \<mapsto> v))" by (simp add: store_def)
  show ?case
  proof (cases k)
    case 0
    then show ?thesis using Cons.prems(1) by (simp add: vs st store_other)
  next
    case (Suc j)
    then show ?thesis using Cons.IH[of vs' j] Cons.prems by (simp add: vs st)
  qed
qed simp

lemma field_names_distinct:
  assumes "distinct (map fd_GoName gs)" "set fs \<subseteq> set gs" "distinct fs"
  shows "distinct (map fd_GoName fs)"
  using assms by (auto simp: distinct_map intro: inj_on_subset)

lemma read_rows_spec:
  "read_rows cr m cols fresh rows acc = (acc', None) \<longleftrightarrow>
   acc' = acc @ map (\<lambda>row. fst (SetColumns cr m cols row fresh)) rows \<and>
   (\<forall>row \<in> set rows. snd (SetColumns cr m cols row fresh) = None)"
  by (induction rows arbitrary: acc) (auto split: prod.splits option.splits)

section \<open>An example\<close>

definition user_type :: structType where
  "user_type = \<lparr>ty_Name = ''User'',
     ty_Fields = [\<lparr>sf_Name = ''Id'', sf_Tag = None, sf_Kind = KInt64, sf_Offset = 0\<rparr>,
                  \<lparr>sf_Name = ''LastName'', sf_Tag = Some ''column(name)'', sf_Kind = KString, sf_Offset = 8\<rparr>],
     ty_TableName = None\<rparr>"

definition user_model :: Model where
  "user_model = projr (parseModel (PtrTo user_type))"

lemma user_model_wf: "model_wf user_model"
proof (rule parseModel_wf)
  have "\<not> isl (parseModel (PtrTo user_type))" by code_simp
  then show "parseModel (PtrTo user_type) = Inr user_model" unfolding user_model_def by (cases "parseModel (PtrTo user_type)") auto
qed

text \<open>
  A statement that is built twice repeats its text: with the query log as a middleware the
  database gets the logged statement followed by itself.
\<close>

definition recording :: "(string list, string) session" where
  "recording = \<lparr>ss_exec = (\<lambda>sql args w. (w @ [sql], Inl ''no database'')), ss_query = (\<lambda>sql args w. (w @ [sql], Inl ''no database''))\<rparr>"

lemma querylog_repeats_statement:
  "fst (fst (Deleter_Exec
     (getCore (\<lambda>_. 0) (OpenDB [DBWithMiddlewares [querylog_Build UnsafeValue (\<lambda>_. 0) (\<lambda>sql args w. w @ [''log: '' @ sql])]]))
     recording (NewDeleter (PtrTo user_type)) ([], statement_builder (OpenDB []))))
   = [''log: DELETE FROM `user`;'', ''DELETE FROM `user`;DELETE FROM `user`;'']"
  by code_simp

section \<open>Properties\<close>



end
