(* ===== verification/ConnPool.thy ===== *)
theory ConnPool
  imports Prelude "HOL-Library.Multiset"
begin

text \<open>
  The connection pool of \<^verbatim>\<open>micro/pool/pool.go\<close>. Every critical section of the Go code is a
  function on the pool; what a goroutine has still to do between two of them is a task, so that
  a run is a sequence of actions of many goroutines in any order. Wrapper objects are numbered,
  as are network connections. The clock, the answers of \<^verbatim>\<open>ping\<close> and of the factory, and the
  object that \<^verbatim>\<open>sync.Pool\<close> hands out are arguments of the actions. A wait on the condition
  variable may end at any time. Counters are unbounded.
\<close>

section \<open>State\<close>

record PoolConn =
  pc_conn :: "nat option"   \<comment> \<open>the network connection\<close>
  pc_createTime :: int
  pc_lastActiveTime :: int
  pc_returned :: bool

record conf =
  maxIdleCnt :: int
  maxConnCap :: int
  maxIdleTime :: int
  maxConnLifetime :: int
  has_ping :: bool

record Pool =
  connCnt :: int
  idleConns :: "nat list"
  activeConns :: "nat list"   \<comment> \<open>the keys of the map\<close>
  closed :: bool
  released :: bool            \<comment> \<open>\<^verbatim>\<open>Release\<close> has emptied the pool\<close>
  objs :: "nat \<Rightarrow> PoolConn"
  nextObj :: nat
  connPool :: "nat list"      \<comment> \<open>the objects in the \<^verbatim>\<open>sync.Pool\<close>\<close>
  nextNet :: nat
  closedNet :: "nat list"     \<comment> \<open>network connections in the order they were closed\<close>
  waitCount :: int
  waitDuration :: int
  maxIdleClosed :: int
  maxLifetimeClosed :: int

record Stats =
  MaxOpenConnections :: int
  OpenConnections :: int
  InUse :: int
  Idle :: int
  st_WaitCount :: int
  st_WaitDuration :: int
  st_MaxIdleClosed :: int
  st_MaxLifetimeClosed :: int

definition Pool_Stats :: "conf \<Rightarrow> Pool \<Rightarrow> Stats" where
  "Pool_Stats cfg p =
     \<lparr>MaxOpenConnections = maxConnCap cfg, OpenConnections = connCnt p, InUse = int (length (activeConns p)),
      Idle = int (length (idleConns p)), st_WaitCount = waitCount p, st_WaitDuration = waitDuration p,
      st_MaxIdleClosed = maxIdleClosed p, st_MaxLifetimeClosed = maxLifetimeClosed p\<rparr>"

section \<open>Wrapping and closing\<close>

definition set_obj :: "nat \<Rightarrow> (PoolConn \<Rightarrow> PoolConn) \<Rightarrow> Pool \<Rightarrow> Pool" where
  "set_obj k f p = p\<lparr>objs := (objs p)(k := f (objs p k))\<rparr>"

text \<open>An object of the \<^verbatim>\<open>sync.Pool\<close> at the given place, or a new one.\<close>

definition take_obj :: "nat option \<Rightarrow> Pool \<Rightarrow> nat \<times> Pool" where
  "take_obj r p =
     (case r of
        Some i \<Rightarrow>
          if i < length (connPool p)
          then (connPool p ! i, p\<lparr>connPool := take i (connPool p) @ drop (Suc i) (connPool p)\<rparr>)
          else (nextObj p, p\<lparr>nextObj := Suc (nextObj p)\<rparr>)
      | None \<Rightarrow> (nextObj p, p\<lparr>nextObj := Suc (nextObj p)\<rparr>))"

text \<open>The next network connection, wrapped.\<close>

definition wrapConn :: "nat option \<Rightarrow> int \<Rightarrow> Pool \<Rightarrow> nat \<times> Pool" where
  "wrapConn r now p =
     (case take_obj r p of
        (k, p) \<Rightarrow>
          (k, (set_obj k (\<lambda>_. \<lparr>pc_conn = Some (nextNet p), pc_createTime = now, pc_lastActiveTime = now,
                               pc_returned = False\<rparr>) p)\<lparr>nextNet := Suc (nextNet p)\<rparr>))"

definition closeConnLocked :: "nat \<Rightarrow> Pool \<Rightarrow> Pool" where
  "closeConnLocked k p =
     (let p = (case pc_conn (objs p k) of
                 Some c \<Rightarrow> (set_obj k (\<lambda>pc. pc\<lparr>pc_conn := None\<rparr>) p)\<lparr>closedNet := closedNet p @ [c]\<rparr>
               | None \<Rightarrow> p)
      in p\<lparr>connPool := connPool p @ [k], connCnt := connCnt p - 1\<rparr>)"

definition empty_pool :: Pool where
  "empty_pool = \<lparr>connCnt = 0, idleConns = [], activeConns = [], closed = False, released = False,
     objs = (\<lambda>_. \<lparr>pc_conn = None, pc_createTime = 0, pc_lastActiveTime = 0, pc_returned = False\<rparr>),
     nextObj = 0, connPool = [], nextNet = 0, closedNet = [], waitCount = 0, waitDuration = 0,
     maxIdleClosed = 0, maxLifetimeClosed = 0\<rparr>"

text \<open>
  The first connections. A factory that fails ends the construction, which closes the
  connections it has.
\<close>

fun init_conns :: "int \<Rightarrow> (nat \<Rightarrow> bool) \<Rightarrow> nat \<Rightarrow> Pool \<Rightarrow> nat option list + Pool" where
  "init_conns now factory 0 p = Inr p"
| "init_conns now factory (Suc n) p =
     (if factory (nextNet p)
      then case wrapConn None now p of (k, p) \<Rightarrow> init_conns now factory n (p\<lparr>idleConns := idleConns p @ [k]\<rparr>)
      else Inl (map (\<lambda>k. pc_conn (objs p k)) (idleConns p)))"

definition NewPool :: "conf \<Rightarrow> int \<Rightarrow> (nat \<Rightarrow> bool) option \<Rightarrow> int \<Rightarrow> nat option list + Pool" where
  "NewPool cfg initConnCnt factory now =
     (if initConnCnt > maxIdleCnt cfg \<or> maxConnCap cfg < maxIdleCnt cfg \<or> initConnCnt < 0 then Inl []
      else case factory of
          None \<Rightarrow> Inl []
        | Some f \<Rightarrow> sum_bind (init_conns now f (nat initConnCnt) empty_pool) (\<lambda>p. Inr (p\<lparr>connCnt := initConnCnt\<rparr>)))"

section \<open>Get\<close>

definition idle_expired :: "conf \<Rightarrow> int \<Rightarrow> PoolConn \<Rightarrow> bool" where
  "idle_expired cfg now pc \<longleftrightarrow> pc_lastActiveTime pc + maxIdleTime cfg < now"

definition life_expired :: "conf \<Rightarrow> int \<Rightarrow> PoolConn \<Rightarrow> bool" where
  "life_expired cfg now pc \<longleftrightarrow> maxConnLifetime cfg > 0 \<and> pc_createTime pc + maxConnLifetime cfg < now"

text \<open>The loop of \<^verbatim>\<open>getIdleConnLocked\<close> over the idle connections from the last one.\<close>

fun take_idle :: "conf \<Rightarrow> int \<Rightarrow> nat list \<Rightarrow> Pool \<Rightarrow> Pool \<times> nat option" where
  "take_idle cfg now [] p = (p, None)"
| "take_idle cfg now (k # ks) p =
     (let p = p\<lparr>idleConns := rev ks\<rparr>
      in if idle_expired cfg now (objs p k)
         then take_idle cfg now ks ((closeConnLocked k p)\<lparr>maxIdleClosed := maxIdleClosed p + 1\<rparr>)
         else if life_expired cfg now (objs p k)
         then take_idle cfg now ks ((closeConnLocked k p)\<lparr>maxLifetimeClosed := maxLifetimeClosed p + 1\<rparr>)
         else (p, Some k))"

definition add_active :: "nat \<Rightarrow> Pool \<Rightarrow> Pool" where
  "add_active k p = (if k \<in> set (activeConns p) then p else p\<lparr>activeConns := k # activeConns p\<rparr>)"

definition del_active :: "nat \<Rightarrow> Pool \<Rightarrow> Pool" where
  "del_active k p = p\<lparr>activeConns := removeAll k (activeConns p)\<rparr>"

definition give :: "nat \<Rightarrow> Pool \<Rightarrow> Pool" where
  "give k p = add_active k (set_obj k (\<lambda>pc. pc\<lparr>pc_returned := False\<rparr>) p)"

text \<open>How a locked part of \<^verbatim>\<open>Get\<close> ends: with a result, or with something to do without the lock.\<close>

datatype get_next = GGive nat | GClosed | GFailed | GCancelled | GPing nat | GDial | GWait

definition get_section :: "conf \<Rightarrow> int \<Rightarrow> bool \<Rightarrow> Pool \<Rightarrow> Pool \<times> get_next" where
  "get_section cfg now cancelled p =
     (case take_idle cfg now (rev (idleConns p)) p of
        (p, Some k) \<Rightarrow> if has_ping cfg then (p, GPing k) else (give k p, GGive k)
      | (p, None) \<Rightarrow>
          if connCnt p < maxConnCap cfg then (p\<lparr>connCnt := connCnt p + 1\<rparr>, GDial)
          else (p\<lparr>waitCount := waitCount p + 1\<rparr>, if cancelled then GCancelled else GWait))"

definition Get_start :: "conf \<Rightarrow> int \<Rightarrow> bool \<Rightarrow> Pool \<Rightarrow> Pool \<times> get_next" where
  "Get_start cfg now cancelled p = (if closed p then (p, GClosed) else get_section cfg now cancelled p)"

text \<open>After the ping of an idle connection; the loop goes on with the time it started with.\<close>

definition Get_pinged :: "conf \<Rightarrow> int \<Rightarrow> bool \<Rightarrow> bool \<Rightarrow> nat \<Rightarrow> Pool \<Rightarrow> Pool \<times> get_next" where
  "Get_pinged cfg now cancelled ok k p =
     (if closed p then (closeConnLocked k p, GClosed)
      else if \<not> ok then get_section cfg now cancelled (closeConnLocked k p)
      else (give k p, GGive k))"

definition Get_woken :: "conf \<Rightarrow> int \<Rightarrow> bool \<Rightarrow> int \<Rightarrow> Pool \<Rightarrow> Pool \<times> get_next" where
  "Get_woken cfg now cancelled d p =
     (let p = p\<lparr>waitDuration := waitDuration p + d\<rparr>
      in if closed p then (p, GClosed) else if cancelled then (p, GCancelled) else get_section cfg now cancelled p)"

definition Get_dial_failed :: "Pool \<Rightarrow> Pool" where
  "Get_dial_failed p = p\<lparr>connCnt := connCnt p - 1\<rparr>"

text \<open>With the new connection in hand; \<open>None\<close>: the pool is closed and the connection is to be closed.\<close>

definition Get_dialled :: "nat \<Rightarrow> Pool \<Rightarrow> Pool option" where
  "Get_dialled k p = (if closed p then None else Some (add_active k p))"

section \<open>Put, Close and MarkUnhealthy\<close>

text \<open>The test and set at the start of \<^verbatim>\<open>putConn\<close> and \<^verbatim>\<open>markUnhealthy\<close>; \<open>None\<close>: nothing to do.\<close>

definition begin_return :: "nat \<Rightarrow> Pool \<Rightarrow> Pool option" where
  "begin_return k p =
     (if pc_returned (objs p k) then None else Some (set_obj k (\<lambda>pc. pc\<lparr>pc_returned := True\<rparr>) p))"

definition put_end :: "conf \<Rightarrow> int \<Rightarrow> nat \<Rightarrow> Pool \<Rightarrow> Pool" where
  "put_end cfg now k p =
     (let p = set_obj k (\<lambda>pc. pc\<lparr>pc_lastActiveTime := now\<rparr>) p
      in if int (length (idleConns p)) < maxIdleCnt cfg then p\<lparr>idleConns := idleConns p @ [k]\<rparr>
         else closeConnLocked k p)"

text \<open>The second component: the connection is to be pinged without the lock.\<close>

definition put_section :: "conf \<Rightarrow> int \<Rightarrow> nat \<Rightarrow> Pool \<Rightarrow> Pool \<times> bool" where
  "put_section cfg now k p =
     (if closed p then (closeConnLocked k p, False)
      else
        let p = del_active k p
        in if maxConnLifetime cfg > 0 \<and> now - pc_createTime (objs p k) > maxConnLifetime cfg
           then ((closeConnLocked k p)\<lparr>maxLifetimeClosed := maxLifetimeClosed p + 1\<rparr>, False)
           else if has_ping cfg then (p, True) else (put_end cfg now k p, False))"

definition put_pinged :: "conf \<Rightarrow> int \<Rightarrow> bool \<Rightarrow> nat \<Rightarrow> Pool \<Rightarrow> Pool" where
  "put_pinged cfg now ok k p = (if \<not> ok then closeConnLocked k p else put_end cfg now k p)"

text \<open>\<^verbatim>\<open>Put\<close> of a connection that did not come from the pool.\<close>

definition Put_other :: "conf \<Rightarrow> nat option \<Rightarrow> int \<Rightarrow> Pool \<Rightarrow> Pool" where
  "Put_other cfg r now p =
     (if closed p then p\<lparr>closedNet := closedNet p @ [nextNet p], nextNet := Suc (nextNet p)\<rparr>
      else case wrapConn r now (p\<lparr>connCnt := connCnt p + 1\<rparr>) of
          (k, p) \<Rightarrow>
            if int (length (idleConns p)) < maxIdleCnt cfg then p\<lparr>idleConns := idleConns p @ [k]\<rparr>
            else closeConnLocked k p)"

definition mark_section :: "nat \<Rightarrow> Pool \<Rightarrow> Pool" where
  "mark_section k p = closeConnLocked k (del_active k p)"

section \<open>Cleaning and Release\<close>

text \<open>
  The loop of \<^verbatim>\<open>backgroundCleanup\<close> from the last idle connection: those that stay, those to
  close, and how many had been idle or alive for too long.
\<close>

fun sweep :: "conf \<Rightarrow> int \<Rightarrow> (nat \<Rightarrow> PoolConn) \<Rightarrow> nat list \<Rightarrow> nat list \<times> nat list \<times> int \<times> int" where
  "sweep cfg now obs [] = ([], [], 0, 0)"
| "sweep cfg now obs (k # ks) =
     (case sweep cfg now obs ks of
        (kept, out, i, l) \<Rightarrow>
          if idle_expired cfg now (obs k) then (kept, k # out, i + 1, l)
          else if life_expired cfg now (obs k) then (kept, k # out, i, l + 1)
          else (k # kept, out, i, l))"

definition clean_section :: "conf \<Rightarrow> int \<Rightarrow> Pool \<Rightarrow> Pool \<times> nat list \<times> int \<times> int" where
  "clean_section cfg now p =
     (case sweep cfg now (objs p) (rev (idleConns p)) of
        (kept, out, i, l) \<Rightarrow> (p\<lparr>idleConns := rev kept\<rparr>, out, i, l))"

definition clean_end :: "int \<Rightarrow> int \<Rightarrow> Pool \<Rightarrow> Pool" where
  "clean_end i l p = p\<lparr>maxIdleClosed := maxIdleClosed p + i, maxLifetimeClosed := maxLifetimeClosed p + l\<rparr>"

definition Release_begin :: "Pool \<Rightarrow> Pool option" where
  "Release_begin p = (if closed p then None else Some (p\<lparr>closed := True\<rparr>))"

definition Release_end :: "Pool \<Rightarrow> Pool" where
  "Release_end p =
     (let p = fold closeConnLocked (idleConns p) p;
          p = fold closeConnLocked (activeConns p) (p\<lparr>idleConns := []\<rparr>)
      in p\<lparr>activeConns := [], connCnt := 0, released := True\<rparr>)"

section \<open>Runs\<close>

text \<open>What a goroutine has still to do while it does not hold the lock.\<close>

datatype task =
    TWait                            \<comment> \<open>a \<^verbatim>\<open>Get\<close> on the condition variable\<close>
  | TPingGet nat int                 \<comment> \<open>a \<^verbatim>\<open>Get\<close> that pings an idle connection\<close>
  | TDial | TGot nat | TDrop nat     \<comment> \<open>a \<^verbatim>\<open>Get\<close> that dials, has dialled, has to close what it dialled\<close>
  | TPut nat | TPingPut nat          \<comment> \<open>a \<^verbatim>\<open>putConn\<close> before the lock, and during its ping\<close>
  | TMark nat                        \<comment> \<open>a \<^verbatim>\<open>markUnhealthy\<close> before the lock\<close>
  | TClean "nat list" int int        \<comment> \<open>the cleaner with connections to close\<close>
  | TRelease                         \<comment> \<open>a \<^verbatim>\<open>Release\<close> that waits for the cleaner\<close>

text \<open>The users: the wrappers they hold, and all they were ever given.\<close>

record psys =
  pool :: Pool
  tasks :: "task list"
  held :: "nat list"
  known :: "nat list"

datatype action =
    AGet int bool | APingGet nat bool bool | AWake nat int bool int
  | ADialFail nat | ADialOk nat "nat option" int | AGot nat | ADrop nat
  | AClose nat | AMark nat | AStaleClose nat | APut nat int | APingPut nat int bool | AMarkSection nat
  | APutOther "nat option" int | AClean int | ACleanNext nat | ARelease | AReleaseEnd nat

definition drop_nth :: "nat \<Rightarrow> 'a list \<Rightarrow> 'a list" where
  "drop_nth i xs = take i xs @ drop (Suc i) xs"

definition nth_task :: "nat \<Rightarrow> psys \<Rightarrow> task option" where
  "nth_task i s = (if i < length (tasks s) then Some (tasks s ! i) else None)"

text \<open>A \<^verbatim>\<open>Get\<close> after one of its locked parts; the other tasks are \<open>ts\<close>.\<close>

definition after_get :: "int \<Rightarrow> task list \<Rightarrow> psys \<Rightarrow> Pool \<times> get_next \<Rightarrow> psys" where
  "after_get now ts s r =
     (case r of (p, g) \<Rightarrow>
        (case g of
           GGive k \<Rightarrow> s\<lparr>pool := p, tasks := ts, held := k # held s, known := k # known s\<rparr>
         | GPing k \<Rightarrow> s\<lparr>pool := p, tasks := TPingGet k now # ts\<rparr>
         | GDial \<Rightarrow> s\<lparr>pool := p, tasks := TDial # ts\<rparr>
         | GWait \<Rightarrow> s\<lparr>pool := p, tasks := TWait # ts\<rparr>
         | _ \<Rightarrow> s\<lparr>pool := p, tasks := ts\<rparr>))"

definition is_clean :: "task \<Rightarrow> bool" where
  "is_clean t = (case t of TClean _ _ _ \<Rightarrow> True | _ \<Rightarrow> False)"

fun act :: "conf \<Rightarrow> action \<Rightarrow> psys \<Rightarrow> psys option" where
  "act cfg (AGet now cancelled) s = Some (after_get now (tasks s) s (Get_start cfg now cancelled (pool s)))"
| "act cfg (APingGet i cancelled ok) s =
     (case nth_task i s of
        Some (TPingGet k now) \<Rightarrow>
          Some (after_get now (drop_nth i (tasks s)) s (Get_pinged cfg now cancelled ok k (pool s)))
      | _ \<Rightarrow> None)"
| "act cfg (AWake i now cancelled d) s =
     (case nth_task i s of
        Some TWait \<Rightarrow> Some (after_get now (drop_nth i (tasks s)) s (Get_woken cfg now cancelled d (pool s)))
      | _ \<Rightarrow> None)"
| "act cfg (ADialFail i) s =
     (case nth_task i s of
        Some TDial \<Rightarrow> Some (s\<lparr>pool := Get_dial_failed (pool s), tasks := drop_nth i (tasks s)\<rparr>)
      | _ \<Rightarrow> None)"
| "act cfg (ADialOk i r now) s =
     (case nth_task i s of
        Some TDial \<Rightarrow>
          (case wrapConn r now (pool s) of (k, p) \<Rightarrow> Some (s\<lparr>pool := p, tasks := TGot k # drop_nth i (tasks s)\<rparr>))
      | _ \<Rightarrow> None)"
| "act cfg (AGot i) s =
     (case nth_task i s of
        Some (TGot k) \<Rightarrow>
          (case Get_dialled k (pool s) of
             Some p \<Rightarrow> Some (s\<lparr>pool := p, tasks := drop_nth i (tasks s), held := k # held s, known := k # known s\<rparr>)
           | None \<Rightarrow> Some (s\<lparr>tasks := TDrop k # drop_nth i (tasks s)\<rparr>))
      | _ \<Rightarrow> None)"
| "act cfg (ADrop i) s =
     (case nth_task i s of
        Some (TDrop k) \<Rightarrow> Some (s\<lparr>pool := closeConnLocked k (pool s), tasks := drop_nth i (tasks s)\<rparr>)
      | _ \<Rightarrow> None)"
| "act cfg (AClose k) s =
     (if k \<in> set (held s)
      then Some (case begin_return k (pool s) of
          None \<Rightarrow> s\<lparr>held := remove1 k (held s)\<rparr>
        | Some p \<Rightarrow> s\<lparr>pool := p, tasks := TPut k # tasks s, held := remove1 k (held s)\<rparr>)
      else None)"
| "act cfg (AMark k) s =
     (if k \<in> set (held s)
      then Some (case begin_return k (pool s) of
          None \<Rightarrow> s\<lparr>held := remove1 k (held s)\<rparr>
        | Some p \<Rightarrow> s\<lparr>pool := p, tasks := TMark k # tasks s, held := remove1 k (held s)\<rparr>)
      else None)"
| "act cfg (AStaleClose k) s =
     (if k \<in> set (known s)
      then Some (case begin_return k (pool s) of None \<Rightarrow> s | Some p \<Rightarrow> s\<lparr>pool := p, tasks := TPut k # tasks s\<rparr>)
      else None)"
| "act cfg (APut i now) s =
     (case nth_task i s of
        Some (TPut k) \<Rightarrow>
          (case put_section cfg now k (pool s) of
             (p, ping) \<Rightarrow> Some (s\<lparr>pool := p, tasks := (if ping then [TPingPut k] else []) @ drop_nth i (tasks s)\<rparr>))
      | _ \<Rightarrow> None)"
| "act cfg (APingPut i now ok) s =
     (case nth_task i s of
        Some (TPingPut k) \<Rightarrow> Some (s\<lparr>pool := put_pinged cfg now ok k (pool s), tasks := drop_nth i (tasks s)\<rparr>)
      | _ \<Rightarrow> None)"
| "act cfg (AMarkSection i) s =
     (case nth_task i s of
        Some (TMark k) \<Rightarrow> Some (s\<lparr>pool := mark_section k (pool s), tasks := drop_nth i (tasks s)\<rparr>)
      | _ \<Rightarrow> None)"
| "act cfg (APutOther r now) s = Some (s\<lparr>pool := Put_other cfg r now (pool s)\<rparr>)"
| "act cfg (AClean now) s =
     (if closed (pool s) \<or> list_ex is_clean (tasks s) then None
      else case clean_section cfg now (pool s) of
          (p, out, a, l) \<Rightarrow> Some (s\<lparr>pool := p, tasks := TClean out a l # tasks s\<rparr>))"
| "act cfg (ACleanNext i) s =
     (case nth_task i s of
        Some (TClean (k # ks) a l) \<Rightarrow>
          Some (s\<lparr>pool := closeConnLocked k (pool s), tasks := TClean ks a l # drop_nth i (tasks s)\<rparr>)
      | Some (TClean [] a l) \<Rightarrow> Some (s\<lparr>pool := clean_end a l (pool s), tasks := drop_nth i (tasks s)\<rparr>)
      | _ \<Rightarrow> None)"
| "act cfg ARelease s =
     (case Release_begin (pool s) of
        None \<Rightarrow> Some s
      | Some p \<Rightarrow> Some (s\<lparr>pool := p, tasks := TRelease # tasks s\<rparr>))"
| "act cfg (AReleaseEnd i) s =
     (case nth_task i s of
        Some TRelease \<Rightarrow>
          if list_ex is_clean (tasks s) then None
          else Some (s\<lparr>pool := Release_end (pool s), tasks := drop_nth i (tasks s)\<rparr>)
      | _ \<Rightarrow> None)"

fun run_pool :: "conf \<Rightarrow> action list \<Rightarrow> psys \<Rightarrow> psys option" where
  "run_pool cfg [] s = Some s"
| "run_pool cfg (a # as) s = (case act cfg a s of None \<Rightarrow> None | Some s \<Rightarrow> run_pool cfg as s)"

definition start :: "Pool \<Rightarrow> psys" where
  "start p = \<lparr>pool = p, tasks = [], held = [], known = []\<rparr>"

section \<open>Three runs that go wrong\<close>

definition cfg_ex :: "bool \<Rightarrow> conf" where
  "cfg_ex ping = \<lparr>maxIdleCnt = 1, maxConnCap = 1, maxIdleTime = 100, maxConnLifetime = 0, has_ping = ping\<rparr>"

definition a_get :: "nat option \<Rightarrow> action list" where
  "a_get r = [AGet 0 False, ADialOk 0 r 0, AGot 0]"

text \<open>
  A user gives a wrapper back as unhealthy and then closes it, as a deferred \<^verbatim>\<open>Close\<close> does.
  Between the two, the wrapper has been recycled for another user, whose connection is now
  returned to the pool and given to a third one.
\<close>

lemma recycled_wrapper_shared:
  "map_option held (run_pool (cfg_ex False)
     (a_get None @ [AMark 0, AMarkSection 0] @ a_get (Some 0) @ [AStaleClose 0, APut 0 0, AGet 0 False]) (start empty_pool))
   = Some [0, 0]"
  by code_simp

text \<open>A connection that is pinged on its way back while the pool is released stays open.\<close>

lemma ping_during_release_leaks:
  "map_option (\<lambda>s. (released (pool s), tasks s, nextNet (pool s), closedNet (pool s)))
     (run_pool (cfg_ex True) (a_get None @ [AClose 0, APut 0 0, ARelease, AReleaseEnd 0, APingPut 0 0 True]) (start empty_pool))
   = Some (True, [], 1, [])"
  by code_simp

text \<open>A connection from elsewhere is not counted against the capacity.\<close>

lemma put_other_exceeds_cap:
  "map_option (\<lambda>s. connCnt (pool s)) (run_pool (cfg_ex False) (a_get None @ [APutOther None 0]) (start empty_pool)) = Some 2"
  by code_simp

end
