(* ===== verification/ConnPoolSafe.thy ===== *)
theory ConnPoolSafe
  imports ConnPool
begin

text \<open>
  What is shown of the connection pool: the count of connections is exact and within the
  capacity, nobody shares a connection, and a released pool has closed everything.
\<close>

section \<open>Accounting\<close>

text \<open>
  The invariant of a pool whose goroutines hold the objects \<open>X\<close> between two locked parts and
  dial \<open>d\<close> connections. Every object is in one place, and the connections of those in use or
  idle are open and different.
\<close>

definition simple :: "'a multiset \<Rightarrow> bool" where
  "simple M \<longleftrightarrow> (\<forall>x. count M x \<le> 1)"

definition conn_ok :: "Pool \<Rightarrow> nat set \<Rightarrow> bool" where
  "conn_ok p L \<longleftrightarrow>
     (\<forall>k \<in> L. \<exists>c. pc_conn (objs p k) = Some c \<and> c < nextNet p \<and> c \<notin> set (closedNet p)) \<and>
     inj_on (\<lambda>k. pc_conn (objs p k)) L \<and> set (closedNet p) \<subseteq> {..<nextNet p}"

definition live :: "Pool \<Rightarrow> nat multiset \<Rightarrow> nat multiset" where
  "live p X = mset (idleConns p) + mset (activeConns p) + X"

definition core_inv :: "conf \<Rightarrow> Pool \<Rightarrow> nat multiset \<Rightarrow> nat \<Rightarrow> bool" where
  "core_inv cfg p X d \<longleftrightarrow>
     simple (live p X + mset (connPool p)) \<and> set_mset (live p X + mset (connPool p)) \<subseteq> {..<nextObj p} \<and>
     connCnt p = int (size (live p X) + d) \<and> connCnt p \<le> maxConnCap cfg \<and>
     int (length (idleConns p)) \<le> maxIdleCnt cfg \<and> conn_ok p (set_mset (live p X))"

lemma simple_notin: "simple (add_mset x M) \<Longrightarrow> x \<notin># M"
  unfolding simple_def by (metis Suc_n_not_le_n count_add_mset count_eq_zero_iff le_zero_eq not_less_eq_eq One_nat_def)

lemma simple_add: "simple M \<Longrightarrow> x \<notin># M \<Longrightarrow> simple (add_mset x M)"
  by (auto simp: simple_def not_in_iff)

lemma conn_ok_subset: "conn_ok p L \<Longrightarrow> L' \<subseteq> L \<Longrightarrow> conn_ok p L'"
  by (auto simp: conn_ok_def intro: inj_on_subset)

lemma conn_ok_cong:
  "nextNet p' = nextNet p \<Longrightarrow> closedNet p' = closedNet p \<Longrightarrow> (\<And>k. pc_conn (objs p' k) = pc_conn (objs p k)) \<Longrightarrow>
   conn_ok p' L = conn_ok p L"
  by (simp add: conn_ok_def)

text \<open>Steps that leave places, counts and connections alone.\<close>

lemma core_inv_cong:
  assumes "idleConns p' = idleConns p" "activeConns p' = activeConns p" "connPool p' = connPool p"
    "nextObj p' = nextObj p" "connCnt p' = connCnt p" "nextNet p' = nextNet p" "closedNet p' = closedNet p"
    "\<And>k. pc_conn (objs p' k) = pc_conn (objs p k)"
  shows "core_inv cfg p' X d = core_inv cfg p X d"
  using conn_ok_cong[of p' p] assms by (simp add: core_inv_def live_def)

lemma close_simps [simp]:
  "idleConns (closeConnLocked k p) = idleConns p" "activeConns (closeConnLocked k p) = activeConns p"
  "connPool (closeConnLocked k p) = connPool p @ [k]" "nextObj (closeConnLocked k p) = nextObj p"
  "connCnt (closeConnLocked k p) = connCnt p - 1" "nextNet (closeConnLocked k p) = nextNet p"
  "closed (closeConnLocked k p) = closed p" "released (closeConnLocked k p) = released p"
  "closedNet (closeConnLocked k p) = closedNet p @ (case pc_conn (objs p k) of Some c \<Rightarrow> [c] | None \<Rightarrow> [])"
  "pc_conn (objs (closeConnLocked k p) j) = (if j = k then None else pc_conn (objs p j))"
  "pc_returned (objs (closeConnLocked k p) j) = pc_returned (objs p j)"
  by (auto simp: closeConnLocked_def set_obj_def Let_def split: option.splits)

lemma set_obj_simps [simp]:
  "idleConns (set_obj k f p) = idleConns p" "activeConns (set_obj k f p) = activeConns p"
  "connPool (set_obj k f p) = connPool p" "nextObj (set_obj k f p) = nextObj p"
  "connCnt (set_obj k f p) = connCnt p" "nextNet (set_obj k f p) = nextNet p"
  "closed (set_obj k f p) = closed p" "released (set_obj k f p) = released p" "closedNet (set_obj k f p) = closedNet p"
  "objs (set_obj k f p) = (objs p)(k := f (objs p k))"
  by (simp_all add: set_obj_def)

lemma conn_ok_close:
  assumes "conn_ok p (insert k L)" "k \<notin> L"
  shows "conn_ok (closeConnLocked k p) L"
proof -
  obtain c where c: "pc_conn (objs p k) = Some c" using assms(1) by (auto simp: conn_ok_def)
  have "pc_conn (objs p j) \<noteq> Some c" if "j \<in> L" for j
    using assms that c by (auto simp: conn_ok_def inj_on_def)
  moreover have "inj_on (\<lambda>k. pc_conn (objs p k)) L" using assms(1) by (auto simp: conn_ok_def)
  moreover have "inj_on (\<lambda>j. pc_conn (objs (closeConnLocked k p) j)) L \<longleftrightarrow> inj_on (\<lambda>j. pc_conn (objs p j)) L"
    using assms(2) by (intro inj_on_cong) auto
  ultimately show ?thesis using assms by (auto simp: conn_ok_def c) metis
qed

lemma inv_close:
  assumes "core_inv cfg p (add_mset k X) d"
  shows "core_inv cfg (closeConnLocked k p) X d"
proof -
  have s: "simple (add_mset k (live p X + mset (connPool p)))" using assms by (simp add: core_inv_def live_def)
  then have "k \<notin> set_mset (live p X)" using simple_notin by fastforce
  moreover have "conn_ok p (insert k (set_mset (live p X)))" using assms by (simp add: core_inv_def live_def)
  ultimately have "conn_ok (closeConnLocked k p) (set_mset (live p X))" by (intro conn_ok_close)
  then show ?thesis using assms by (simp add: core_inv_def live_def)
qed

lemma inv_pop_idle:
  assumes "core_inv cfg p X d" "idleConns p = ks @ [k]"
  shows "core_inv cfg (p\<lparr>idleConns := ks\<rparr>) (add_mset k X) d"
  using assms by (simp add: core_inv_def live_def conn_ok_def)

lemma inv_push_idle:
  assumes "core_inv cfg p (add_mset k X) d" "int (length (idleConns p)) < maxIdleCnt cfg"
  shows "core_inv cfg (p\<lparr>idleConns := idleConns p @ [k]\<rparr>) X d"
  using assms by (simp add: core_inv_def live_def conn_ok_def)

lemma add_active_new: "k \<notin> set (activeConns p) \<Longrightarrow> add_active k p = p\<lparr>activeConns := k # activeConns p\<rparr>"
  by (simp add: add_active_def)

lemma inv_not_active: "core_inv cfg p (add_mset k X) d \<Longrightarrow> k \<notin> set (activeConns p)"
  using simple_notin[of k "live p X + mset (connPool p)"] by (auto simp: core_inv_def live_def)

lemma inv_add_active:
  assumes "core_inv cfg p (add_mset k X) d"
  shows "core_inv cfg (add_active k p) X d"
  using assms by (simp add: add_active_new[OF inv_not_active[OF assms]] core_inv_def live_def conn_ok_def)

lemma active_distinct: "core_inv cfg p X d \<Longrightarrow> distinct (activeConns p)"
proof -
  assume "core_inv cfg p X d"
  then have "count (mset (activeConns p)) k \<le> 1" for k by (simp add: core_inv_def live_def simple_def) (metis add_leE trans_le_add1)
  then show ?thesis by (metis count_mset_0_iff distinct_count_atmost_1 le_antisym not_less_eq_eq One_nat_def Suc_leI gr0I)
qed

lemma distinct_submset: "distinct ys \<Longrightarrow> mset xs \<subseteq># mset ys \<Longrightarrow> distinct xs"
  by (metis distinct_append ex_mset mset_append mset_eq_imp_distinct_iff mset_subset_eq_exists_conv)

lemma idle_not_active: "core_inv cfg p X d \<Longrightarrow> k \<in> set (activeConns p) \<Longrightarrow> k \<notin> set (idleConns p)"
proof
  assume "core_inv cfg p X d" "k \<in> set (activeConns p)" "k \<in> set (idleConns p)"
  then have "count (mset (idleConns p)) k + count (mset (activeConns p)) k \<le> 1" "count (mset (idleConns p)) k > 0" "count (mset (activeConns p)) k > 0"
    by (auto simp: core_inv_def live_def simple_def count_greater_zero_iff intro: le_trans[rotated]) (metis add_leE group_cancel.add1)
  then show False by linarith
qed

lemma inv_del_active:
  assumes "core_inv cfg p X d" "k \<in> set (activeConns p)"
  shows "core_inv cfg (del_active k p) (add_mset k X) d"
proof -
  have "mset (activeConns p) = add_mset k (mset (removeAll k (activeConns p)))"
    using assms(2) active_distinct[OF assms(1)] by (metis distinct_remove1_removeAll mset_remove1 insert_DiffM set_mset_mset)
  then have "live p X = live (del_active k p) (add_mset k X)" by (simp add: live_def del_active_def)
  then show ?thesis using assms(1) by (simp add: core_inv_def del_active_def conn_ok_def)
qed

lemma inv_flag: "core_inv cfg (set_obj k (\<lambda>pc. pc\<lparr>pc_returned := b\<rparr>) p) X d = core_inv cfg p X d"
  by (rule core_inv_cong) auto

lemma inv_stamp: "core_inv cfg (set_obj k (\<lambda>pc. pc\<lparr>pc_lastActiveTime := t\<rparr>) p) X d = core_inv cfg p X d"
  by (rule core_inv_cong) auto

lemma inv_give: "core_inv cfg p (add_mset k X) d \<Longrightarrow> core_inv cfg (give k p) X d"
  unfolding give_def by (rule inv_add_active) (simp add: inv_flag)

lemma inv_dial: "core_inv cfg p X d \<Longrightarrow> connCnt p < maxConnCap cfg \<Longrightarrow> core_inv cfg (p\<lparr>connCnt := connCnt p + 1\<rparr>) X (Suc d)"
  by (simp add: core_inv_def live_def conn_ok_def)

lemma inv_dial_failed: "core_inv cfg p X (Suc d) \<Longrightarrow> core_inv cfg (Get_dial_failed p) X d"
  by (simp add: core_inv_def live_def conn_ok_def Get_dial_failed_def)

lemma take_obj_places:
  assumes "take_obj r p = (k, p')" "simple (M + mset (connPool p))" "set_mset (M + mset (connPool p)) \<subseteq> {..<nextObj p}"
  shows "simple (add_mset k (M + mset (connPool p')))" "set_mset (add_mset k (M + mset (connPool p'))) \<subseteq> {..<nextObj p'}"
    "idleConns p' = idleConns p" "activeConns p' = activeConns p" "connCnt p' = connCnt p" "nextNet p' = nextNet p"
    "closedNet p' = closedNet p" "objs p' = objs p" "closed p' = closed p" "released p' = released p"
proof -
  consider i where "i < length (connPool p)" "k = connPool p ! i" "p' = p\<lparr>connPool := take i (connPool p) @ drop (Suc i) (connPool p)\<rparr>"
    | "k = nextObj p" "p' = p\<lparr>nextObj := Suc (nextObj p)\<rparr>"
    using assms(1) by (auto simp: take_obj_def split: option.splits if_splits)
  then have "simple (add_mset k (M + mset (connPool p'))) \<and> set_mset (add_mset k (M + mset (connPool p'))) \<subseteq> {..<nextObj p'}"
  proof cases
    case 1
    have "mset (connPool p) = add_mset k (mset (connPool p'))"
      using arg_cong[OF id_take_nth_drop[OF 1(1)], of mset] by (simp add: 1(2,3))
    then show ?thesis using assms(2,3) 1(3) by simp
  next
    case 2
    then have "k \<notin># M + mset (connPool p')" using assms(3) by auto
    then show ?thesis using assms(2,3) 2 by (auto intro!: simple_add less_SucI)
  qed
  then show "simple (add_mset k (M + mset (connPool p')))" "set_mset (add_mset k (M + mset (connPool p'))) \<subseteq> {..<nextObj p'}" by blast+
qed (use assms(1) in \<open>auto simp: take_obj_def split: option.splits if_splits\<close>)

lemma conn_ok_new:
  assumes ok: "conn_ok p L" and k: "k \<notin> L"
    and q: "nextNet q = Suc (nextNet p)" "closedNet q = closedNet p"
      "\<And>j. pc_conn (objs q j) = (if j = k then Some (nextNet p) else pc_conn (objs p j))"
  shows "conn_ok q (insert k L)"
proof -
  have old: "\<exists>c. pc_conn (objs p j) = Some c \<and> c < nextNet p \<and> c \<notin> set (closedNet p)" if "j \<in> L" for j
    using ok that by (simp add: conn_ok_def)
  have cl: "set (closedNet p) \<subseteq> {..<nextNet p}" and inj: "inj_on (\<lambda>j. pc_conn (objs p j)) L"
    using ok by (simp_all add: conn_ok_def)
  have eq: "pc_conn (objs q j) = pc_conn (objs p j)" if "j \<in> L" for j using that k q(3) by auto
  have "\<exists>c. pc_conn (objs q j) = Some c \<and> c < nextNet q \<and> c \<notin> set (closedNet q)" if "j \<in> insert k L" for j
  proof (cases "j = k")
    case True
    then show ?thesis using cl by (auto simp: q)
  next
    case False
    then obtain c where "pc_conn (objs p j) = Some c" "c < nextNet p" "c \<notin> set (closedNet p)" using \<open>j \<in> insert k L\<close> old[of j] by blast
    then show ?thesis using False by (auto simp: q)
  qed
  moreover have "inj_on (\<lambda>j. pc_conn (objs q j)) (insert k L)"
  proof (rule inj_onI)
    fix a b
    assume ab: "a \<in> insert k L" "b \<in> insert k L" and e: "pc_conn (objs q a) = pc_conn (objs q b)"
    have ne: "pc_conn (objs p j) \<noteq> Some (nextNet p)" if "j \<in> L" for j using old[OF that] by fastforce
    show "a = b"
    proof (cases "a = k \<or> b = k")
      case True
      then show ?thesis using ab e ne by (metis insertE q(3))
    next
      case False
      then show ?thesis using ab e inj_onD[OF inj, of a b] by (simp add: q(3))
    qed
  qed
  ultimately show ?thesis using cl unfolding conn_ok_def q(1,2) by fastforce
qed

lemma inv_wrap:
  assumes inv: "core_inv cfg p X (Suc d)" and w: "wrapConn r now p = (k, p')"
  shows "core_inv cfg p' (add_mset k X) d"
proof -
  obtain p1 where t: "take_obj r p = (k, p1)"
    and p': "p' = (set_obj k (\<lambda>_. \<lparr>pc_conn = Some (nextNet p1), pc_createTime = now, pc_lastActiveTime = now, pc_returned = False\<rparr>) p1)
      \<lparr>nextNet := Suc (nextNet p1)\<rparr>"
    using w by (auto simp: wrapConn_def split: prod.splits)
  have i: "simple (live p X + mset (connPool p))" "set_mset (live p X + mset (connPool p)) \<subseteq> {..<nextObj p}"
    using inv unfolding core_inv_def by blast+
  note o = take_obj_places[OF t i]
  have lv: "live p1 X = live p X" by (simp add: live_def o)
  have k: "k \<notin># live p1 X" using simple_notin[OF o(1)] by (simp add: lv)
  have "conn_ok p1 (set_mset (live p1 X))"
    using inv conn_ok_cong[of p1 p] unfolding core_inv_def lv by (simp add: o)
  then have "conn_ok p' (insert k (set_mset (live p1 X)))" using k by (rule conn_ok_new) (simp_all add: p')
  moreover have "live p' (add_mset k X) = add_mset k (live p1 X)" "connPool p' = connPool p1" "nextObj p' = nextObj p1"
    "connCnt p' = connCnt p" "idleConns p' = idleConns p"
    by (simp_all add: p' live_def o)
  ultimately show ?thesis using inv o(1,2) unfolding core_inv_def by (simp add: lv)
qed

lemma inv_stats [simp]:
  "core_inv cfg (p\<lparr>maxIdleClosed := n\<rparr>) X d = core_inv cfg p X d"
  "core_inv cfg (p\<lparr>maxLifetimeClosed := n\<rparr>) X d = core_inv cfg p X d"
  "core_inv cfg (p\<lparr>waitCount := n\<rparr>) X d = core_inv cfg p X d"
  "core_inv cfg (p\<lparr>waitDuration := n\<rparr>) X d = core_inv cfg p X d"
  by (rule core_inv_cong; simp)+

lemma inv_take_idle:
  "core_inv cfg p X d \<Longrightarrow> idleConns p = rev ks \<Longrightarrow> take_idle cfg now ks p = (p', r) \<Longrightarrow>
   (case r of None \<Rightarrow> core_inv cfg p' X d | Some k \<Rightarrow> core_inv cfg p' (add_mset k X) d)"
proof (induction ks arbitrary: p)
  case (Cons k ks)
  have pop: "core_inv cfg (p\<lparr>idleConns := rev ks\<rparr>) (add_mset k X) d"
    using Cons.prems(1,2) by (intro inv_pop_idle) auto
  note cl = inv_close[OF pop]
  show ?case
    using Cons.prems(3) pop
      Cons.IH[of "(closeConnLocked k (p\<lparr>idleConns := rev ks\<rparr>))\<lparr>maxIdleClosed := maxIdleClosed p + 1\<rparr>"]
      Cons.IH[of "(closeConnLocked k (p\<lparr>idleConns := rev ks\<rparr>))\<lparr>maxLifetimeClosed := maxLifetimeClosed p + 1\<rparr>"] cl
    by (auto simp: Let_def split: if_splits)
qed auto

lemma inv_get_section:
  assumes "core_inv cfg p X d" "get_section cfg now cancelled p = (p', g)"
  shows "case g of GPing k \<Rightarrow> core_inv cfg p' (add_mset k X) d | GDial \<Rightarrow> core_inv cfg p' X (Suc d) | _ \<Rightarrow> core_inv cfg p' X d"
proof -
  obtain p1 r where t: "take_idle cfg now (rev (idleConns p)) p = (p1, r)" by fastforce
  note i = inv_take_idle[OF assms(1) _ t]
  show ?thesis
    using assms(2) i by (auto simp: get_section_def t split: option.splits if_splits intro: inv_give inv_dial)
qed

lemma inv_put_end:
  assumes "core_inv cfg p (add_mset k X) d"
  shows "core_inv cfg (put_end cfg now k p) X d"
proof -
  define q where "q = set_obj k (\<lambda>pc. pc\<lparr>pc_lastActiveTime := now\<rparr>) p"
  have "core_inv cfg q (add_mset k X) d" using assms by (simp add: q_def inv_stamp)
  then show ?thesis unfolding put_end_def Let_def q_def[symmetric] by (auto intro: inv_push_idle inv_close)
qed

lemma inv_sweep:
  "sweep cfg now obs ks = (kept, out, i, l) \<Longrightarrow> mset ks = mset kept + mset out \<and> length kept \<le> length ks"
  by (induction ks arbitrary: kept out i l) (fastforce split: prod.splits if_splits)+

lemma inv_clean:
  assumes "core_inv cfg p X d" "clean_section cfg now p = (p', out, i, l)"
  shows "core_inv cfg p' (mset out + X) d"
proof -
  obtain kept where s: "sweep cfg now (objs p) (rev (idleConns p)) = (kept, out, i, l)" and p': "p' = p\<lparr>idleConns := rev kept\<rparr>"
    using assms(2) by (auto simp: clean_section_def split: prod.splits)
  have m: "mset (idleConns p) = mset kept + mset out" "length kept \<le> length (idleConns p)" using inv_sweep[OF s] by simp_all
  then have "live p' (mset out + X) = live p X" by (simp add: live_def p')
  then show ?thesis using assms(1) m(2) by (simp add: core_inv_def p' conn_ok_def)
qed

section \<open>Users\<close>

text \<open>
  An operation adds \<open>A\<close> to the connections in use; it opens or closes the pool for nobody and
  marks no wrapper as returned.
\<close>

definition gains :: "Pool \<Rightarrow> Pool \<Rightarrow> nat multiset \<Rightarrow> bool" where
  "gains p p' A \<longleftrightarrow> closed p' = closed p \<and> mset (activeConns p') = A + mset (activeConns p) \<and>
     (\<forall>j. pc_returned (objs p' j) \<longrightarrow> pc_returned (objs p j))"

lemma gains_trans: "gains p q A \<Longrightarrow> gains q r B \<Longrightarrow> gains p r (A + B)"
  by (auto simp: gains_def)

lemma gains_refl [simp]: "gains p p {#}"
  by (simp add: gains_def)

lemma gains_close [simp]: "gains p (closeConnLocked k p) {#}"
  by (simp add: gains_def)

lemma gains_same:
  "closed p' = closed p \<Longrightarrow> activeConns p' = activeConns p \<Longrightarrow> objs p' = objs p \<Longrightarrow> gains p p' {#}"
  by (simp add: gains_def)

lemma gains_give: "k \<notin> set (activeConns p) \<Longrightarrow> gains p (give k p) {#k#}"
  by (simp add: gains_def give_def add_active_new)

lemma gains_add_active: "k \<notin> set (activeConns p) \<Longrightarrow> gains p (add_active k p) {#k#}"
  by (simp add: gains_def add_active_new)

lemma give_flag: "\<not> pc_returned (objs (give k p) k)"
  by (simp add: give_def add_active_def)

lemma gains_take_idle: "take_idle cfg now ks p = (p', r) \<Longrightarrow> gains p p' {#}"
proof (induction ks arbitrary: p)
  case (Cons k ks)
  let ?p = "p\<lparr>idleConns := rev ks\<rparr>"
  have a: "gains p ?p {#}" by (simp add: gains_same)
  have b: "gains p ((closeConnLocked k ?p)\<lparr>maxIdleClosed := n\<rparr>) {#}" "gains p ((closeConnLocked k ?p)\<lparr>maxLifetimeClosed := n\<rparr>) {#}" for n
    by (simp_all add: gains_def)
  show ?case
    using Cons.prems Cons.IH a b gains_trans[of p _ "{#}" p' "{#}"] by (fastforce simp: Let_def split: if_splits)
qed simp

definition given :: "get_next \<Rightarrow> nat multiset" where
  "given g = (case g of GGive k \<Rightarrow> {#k#} | _ \<Rightarrow> {#})"

lemma gains_get_section:
  assumes inv: "core_inv cfg p X d" and g: "get_section cfg now cancelled p = (p', g)"
  shows "gains p p' (given g)" "g = GGive k \<Longrightarrow> \<not> pc_returned (objs p' k)"
proof -
  obtain p1 r where t: "take_idle cfg now (rev (idleConns p)) p = (p1, r)" by fastforce
  note a = gains_take_idle[OF t]
  have i: "j \<notin> set (activeConns p1)" if "r = Some j" for j
    using inv_take_idle[OF inv _ t] that inv_not_active[of cfg p1 j X d] by simp
  have gg: "gains p (give j p1) {#j#}" if "r = Some j" for j
    using gains_trans[OF a gains_give[OF i[OF that]]] by simp
  have w: "gains p (p1\<lparr>connCnt := n\<rparr>) {#}" "gains p (p1\<lparr>waitCount := n\<rparr>) {#}" for n
    using a by (simp_all add: gains_def)
  show "gains p p' (given g)"
    using g a gg w by (auto simp: get_section_def t given_def split: option.splits if_splits)
  show "g = GGive k \<Longrightarrow> \<not> pc_returned (objs p' k)"
    using g by (auto simp: get_section_def t give_flag split: option.splits if_splits)
qed

definition tsum :: "(task \<Rightarrow> 'a::comm_monoid_add) \<Rightarrow> task list \<Rightarrow> 'a" where
  "tsum f ts = sum_list (map f ts)"

lemma tsum_simps [simp]: "tsum f [] = 0" "tsum f (t # ts) = f t + tsum f ts" "tsum f (ts @ us) = tsum f ts + tsum f us"
  by (simp_all add: tsum_def)

lemma tsum_nth: "nth_task i s = Some t \<Longrightarrow> tsum f (tasks s) = f t + tsum f (drop_nth i (tasks s))"
proof -
  assume "nth_task i s = Some t"
  then have i: "i < length (tasks s)" "tasks s ! i = t" by (auto simp: nth_task_def split: if_splits)
  have "tasks s = take i (tasks s) @ t # drop (Suc i) (tasks s)" using id_take_nth_drop[OF i(1)] i(2) by simp
  then have "tsum f (tasks s) = tsum f (take i (tasks s)) + (f t + tsum f (drop (Suc i) (tasks s)))"
    by (metis tsum_simps(2,3))
  then show ?thesis by (simp add: drop_nth_def ac_simps)
qed

definition task_objs :: "task \<Rightarrow> nat multiset" where
  "task_objs t =
     (case t of TPingGet k _ \<Rightarrow> {#k#} | TGot k \<Rightarrow> {#k#} | TDrop k \<Rightarrow> {#k#} | TPingPut k \<Rightarrow> {#k#}
      | TClean ks _ _ \<Rightarrow> mset ks | _ \<Rightarrow> {#})"

definition returning :: "task \<Rightarrow> nat multiset" where
  "returning t = (case t of TPut k \<Rightarrow> {#k#} | TMark k \<Rightarrow> {#k#} | _ \<Rightarrow> {#})"

definition dialling :: "task \<Rightarrow> nat" where
  "dialling t = (case t of TDial \<Rightarrow> 1 | _ \<Rightarrow> 0)"

definition got :: "task \<Rightarrow> nat multiset" where
  "got t = (case t of TGot k \<Rightarrow> {#k#} | _ \<Rightarrow> {#})"

lemmas task_defs = task_objs_def returning_def dialling_def got_def

text \<open>
  As long as the pool is open, the wrappers in use are those held by a user or on their way
  back, only the latter are marked as returned, and no \<^verbatim>\<open>Release\<close> is under way.
\<close>

definition sys_inv :: "conf \<Rightarrow> psys \<Rightarrow> bool" where
  "sys_inv cfg s \<longleftrightarrow>
     (\<not> closed (pool s) \<longrightarrow>
        core_inv cfg (pool s) (tsum task_objs (tasks s)) (tsum dialling (tasks s)) \<and>
        mset (held s) + tsum returning (tasks s) = mset (activeConns (pool s)) \<and>
        (\<forall>k \<in># mset (held s) + tsum got (tasks s). \<not> pc_returned (objs (pool s) k)) \<and>
        TRelease \<notin> set (tasks s))"

definition get_ok :: "conf \<Rightarrow> Pool \<Rightarrow> nat multiset \<Rightarrow> nat \<Rightarrow> Pool \<times> get_next \<Rightarrow> bool" where
  "get_ok cfg p X d = (\<lambda>(p', g).
     closed p' = closed p \<and>
     (\<not> closed p \<longrightarrow>
        (case g of GPing k \<Rightarrow> core_inv cfg p' (add_mset k X) d | GDial \<Rightarrow> core_inv cfg p' X (Suc d) | _ \<Rightarrow> core_inv cfg p' X d) \<and>
        gains p p' (given g) \<and> (\<forall>k. g = GGive k \<longrightarrow> \<not> pc_returned (objs p' k))))"

lemma get_section_ok: "core_inv cfg p X d \<Longrightarrow> get_ok cfg p X d (get_section cfg now cancelled p)"
proof -
  assume inv: "core_inv cfg p X d"
  obtain p' g where g: "get_section cfg now cancelled p = (p', g)" by fastforce
  show ?thesis
    using inv_get_section[OF inv g] gains_get_section[OF inv g] by (auto simp: g get_ok_def gains_def)
qed

lemma get_ok_from:
  assumes "get_ok cfg q X d r" "gains p q {#}"
  shows "get_ok cfg p X d r"
  using assms gains_trans[of p q "{#}"] by (auto simp: get_ok_def gains_def split: prod.splits)

lemma Get_start_ok: "(\<not> closed p \<longrightarrow> core_inv cfg p X d) \<Longrightarrow> get_ok cfg p X d (Get_start cfg now cancelled p)"
  using get_section_ok[of cfg p X d now cancelled] by (auto simp: Get_start_def get_ok_def)

lemma Get_woken_ok:
  assumes "\<not> closed p \<longrightarrow> core_inv cfg p X d"
  shows "get_ok cfg p X d (Get_woken cfg now cancelled t p)"
proof -
  define q where "q = p\<lparr>waitDuration := waitDuration p + t\<rparr>"
  have q: "closed q = closed p" "gains p q {#}" "core_inv cfg q X d = core_inv cfg p X d" by (simp_all add: q_def gains_def)
  have "get_ok cfg q X d (get_section cfg now cancelled q)" if "\<not> closed p" using get_section_ok that assms q by blast
  then have "get_ok cfg p X d (get_section cfg now cancelled q)" if "\<not> closed p" using get_ok_from q(2) that by blast
  then show ?thesis using assms q by (auto simp: Get_woken_def Let_def q_def[symmetric] get_ok_def given_def)
qed

lemma Get_pinged_ok:
  assumes "\<not> closed p \<longrightarrow> core_inv cfg p (add_mset k X) d"
  shows "get_ok cfg p X d (Get_pinged cfg now cancelled ok k p)"
proof (cases "closed p")
  case True
  then show ?thesis by (simp add: Get_pinged_def get_ok_def)
next
  case False
  then have inv: "core_inv cfg p (add_mset k X) d" using assms by simp
  have "get_ok cfg (closeConnLocked k p) X d (get_section cfg now cancelled (closeConnLocked k p))"
    by (rule get_section_ok[OF inv_close[OF inv]])
  then have "get_ok cfg p X d (get_section cfg now cancelled (closeConnLocked k p))" by (rule get_ok_from) simp
  moreover have "get_ok cfg p X d (give k p, GGive k)"
    using inv_give[OF inv] gains_give[OF inv_not_active[OF inv]] by (simp add: get_ok_def given_def give_flag gains_def)
  ultimately show ?thesis using False by (simp add: Get_pinged_def)
qed

lemma after_get_inv:
  assumes "get_ok cfg (pool s) (tsum task_objs ts) (tsum dialling ts) r"
    "\<not> closed (pool s) \<longrightarrow> mset (held s) + tsum returning ts = mset (activeConns (pool s)) \<and>
       (\<forall>k \<in># mset (held s) + tsum got ts. \<not> pc_returned (objs (pool s) k)) \<and> TRelease \<notin> set ts"
  shows "sys_inv cfg (after_get now ts s r)"
proof -
  obtain p g where r: "r = (p, g)" by fastforce
  show ?thesis
    using assms by (cases g) (auto simp: r after_get_def sys_inv_def get_ok_def gains_def given_def task_defs)
qed

text \<open>The steps of the users and of the other goroutines.\<close>

lemma sys_step:
  assumes "closed p' = closed (pool s)" "\<not> closed (pool s) \<Longrightarrow>
    core_inv cfg p' (tsum task_objs ts) (tsum dialling ts) \<and> mset hs + tsum returning ts = mset (activeConns p') \<and>
    (\<forall>k \<in># mset hs + tsum got ts. \<not> pc_returned (objs p' k)) \<and> TRelease \<notin> set ts"
  shows "sys_inv cfg (s\<lparr>pool := p', tasks := ts, held := hs, known := ks\<rparr>)"
  using assms by (auto simp: sys_inv_def)

lemma held_once:
  assumes "core_inv cfg p X d" "mset hs + R = mset (activeConns p)" "k \<in> set hs"
  shows "k \<notin> set (remove1 k hs)" "k \<in> set (activeConns p)"
proof -
  have "distinct (activeConns p)" by (rule active_distinct[OF assms(1)])
  then have "count (mset (activeConns p)) k \<le> 1" by (simp add: distinct_count_atmost_1)
  then have "count (mset hs) k \<le> 1" using assms(2) by (metis count_union le_trans le_add1)
  then show "k \<notin> set (remove1 k hs)" by (metis (no_types, lifting) count_mset_0_iff assms(3) count_diff count_single diff_is_0_eq' mset_remove1)
  show "k \<in> set (activeConns p)" using assms(2,3) by (metis set_mset_mset union_iff)
qed

section \<open>Closing is for good\<close>

lemma closed_take_idle: "take_idle cfg now ks p = (p', r) \<Longrightarrow> closed p' = closed p"
  using gains_take_idle by (simp add: gains_def)

lemma closed_get_section [simp]: "closed (fst (get_section cfg now cancelled p)) = closed p"
  by (auto simp: get_section_def give_def add_active_def dest: closed_take_idle split: prod.splits option.splits)

lemma closed_gets [simp]:
  "closed (fst (Get_start cfg now cancelled p)) = closed p"
  "closed (fst (Get_pinged cfg now cancelled ok k p)) = closed p"
  "closed (fst (Get_woken cfg now cancelled t p)) = closed p"
  by (simp_all add: Get_start_def Get_pinged_def Get_woken_def Let_def give_def add_active_def)

lemma closed_after_get [simp]: "closed (pool (after_get now ts s r)) = closed (fst r)"
  by (cases r) (auto simp: after_get_def split: get_next.splits)

lemma closed_wrap: "wrapConn r now p = (k, p') \<Longrightarrow> closed p' = closed p"
  by (auto simp: wrapConn_def take_obj_def split: option.splits if_splits prod.splits)

lemma closed_puts [simp]:
  "closed (put_end cfg now k p) = closed p" "closed (fst (put_section cfg now k p)) = closed p"
  "closed (put_pinged cfg now ok k p) = closed p" "closed (mark_section k p) = closed p"
  "closed (Put_other cfg r now p) = closed p" "closed (clean_end i l p) = closed p"
  by (auto simp: put_end_def put_section_def put_pinged_def mark_section_def del_active_def Put_other_def clean_end_def
      Let_def dest: closed_wrap split: prod.splits)

lemma closed_fold_close [simp]: "closed (fold closeConnLocked ks p) = closed p"
  by (induction ks arbitrary: p) auto

lemma act_keeps_closed: "act cfg a s = Some s' \<Longrightarrow> closed (pool s) \<Longrightarrow> closed (pool s')"
  by (cases a) (auto simp: Get_dial_failed_def Get_dialled_def begin_return_def Release_begin_def Release_end_def
      clean_section_def Let_def dest: closed_wrap arg_cong[where f = "\<lambda>x. closed (fst x)"]
      split: option.splits task.splits prod.splits if_splits list.splits)

section \<open>The invariant of a run\<close>

text \<open>Users who give a wrapper back once, and only wrappers of the pool.\<close>

definition fair_use :: "action \<Rightarrow> bool" where
  "fair_use a = (case a of AStaleClose _ \<Rightarrow> False | APutOther _ _ \<Rightarrow> False | _ \<Rightarrow> True)"

lemma open_inv:
  assumes "sys_inv cfg s" "\<not> closed (pool s)"
  shows "core_inv cfg (pool s) (tsum task_objs (tasks s)) (tsum dialling (tasks s))"
    "mset (held s) + tsum returning (tasks s) = mset (activeConns (pool s))"
    "\<forall>k \<in># mset (held s) + tsum got (tasks s). \<not> pc_returned (objs (pool s) k)" "TRelease \<notin> set (tasks s)"
  using assms by (auto simp: sys_inv_def)

lemma drop_nth_sub: "set (drop_nth i xs) \<subseteq> set xs"
  by (auto simp: drop_nth_def dest: in_set_takeD in_set_dropD)

lemma got_sub: "set_mset (tsum got ts) \<subseteq> set_mset (tsum task_objs ts)"
  by (induction ts) (auto simp: task_defs split: task.splits)

lemma got_not_active: "core_inv cfg p (tsum task_objs ts) d \<Longrightarrow> k \<in># tsum got ts \<Longrightarrow> k \<notin> set (activeConns p)"
  using got_sub[of ts] by (metis inv_not_active multi_member_split subsetD)

lemma begin_return_inv:
  assumes inv: "sys_inv cfg s" and k: "k \<in> set (held s)" and b: "begin_return k (pool s) = Some p"
    and t: "task_objs t = {#}" "dialling t = 0" "returning t = {#k#}" "got t = {#}" "TRelease \<noteq> t"
  shows "sys_inv cfg (s\<lparr>pool := p, tasks := t # tasks s, held := remove1 k (held s)\<rparr>)"
proof (cases "closed (pool s)")
  case True
  then show ?thesis using b by (auto simp: sys_inv_def begin_return_def split: if_splits)
next
  case False
  note i = open_inv[OF inv False]
  have p: "p = set_obj k (\<lambda>pc. pc\<lparr>pc_returned := True\<rparr>) (pool s)" using b by (auto simp: begin_return_def split: if_splits)
  have "k \<notin># tsum got (tasks s)" using got_not_active[OF i(1)] held_once(2)[OF i(1,2) k] by blast
  then have "\<forall>j \<in># mset (remove1 k (held s)) + tsum got (tasks s). \<not> pc_returned (objs p j)"
    using held_once(1)[OF i(1,2) k] i(3) by (auto simp: p simp flip: mset_remove1 dest: notin_set_remove1)
  moreover have "add_mset k (mset (held s) - {#k#} + tsum returning (tasks s)) = mset (activeConns (pool s))"
    using i(2) k by (metis insert_DiffM set_mset_mset union_mset_add_mset_left)
  ultimately show ?thesis using i by (simp add: sys_inv_def p inv_flag t)
qed

lemma returning_active:
  assumes "mset hs + add_mset k R = mset (activeConns p)"
  shows "k \<in> set (activeConns p)"
  using assms by (metis set_mset_mset union_iff union_mset_add_mset_right insert_iff set_mset_add_mset_insert)

text \<open>A wrapper on its way back leaves the connections in use.\<close>

lemma leave_active:
  assumes inv: "core_inv cfg p X d" and u: "mset hs + add_mset k R = mset (activeConns p)"
  shows "core_inv cfg (del_active k p) (add_mset k X) d" "mset hs + R = mset (activeConns (del_active k p))"
proof -
  have k: "k \<in> set (activeConns p)" by (rule returning_active[OF u])
  show "core_inv cfg (del_active k p) (add_mset k X) d" by (rule inv_del_active[OF inv k])
  have "mset (removeAll k (activeConns p)) = mset (activeConns p) - {#k#}"
    using active_distinct[OF inv] by (metis distinct_remove1_removeAll mset_remove1)
  then show "mset hs + R = mset (activeConns (del_active k p))" unfolding u[symmetric] by (simp add: del_active_def u[symmetric])
qed

lemma put_section_inv:
  assumes inv: "core_inv cfg p X d" and u: "mset hs + add_mset k R = mset (activeConns p)" and c: "\<not> closed p"
    and p: "put_section cfg now k p = (p', ping)"
  shows "core_inv cfg p' (if ping then add_mset k X else X) d" "mset hs + R = mset (activeConns p')"
    "pc_returned (objs p' j) \<longleftrightarrow> pc_returned (objs p j)"
proof -
  note l = leave_active[OF inv u]
  show "core_inv cfg p' (if ping then add_mset k X else X) d"
    using p c l(1) inv_close[OF l(1)] inv_put_end[OF l(1), of now] by (auto simp: put_section_def Let_def split: if_splits)
  show "mset hs + R = mset (activeConns p')" "pc_returned (objs p' j) \<longleftrightarrow> pc_returned (objs p j)"
    using p c l(2) by (auto simp: put_section_def put_end_def Let_def del_active_def split: if_splits)
qed

lemma act_get_inv:
  assumes inv: "sys_inv cfg s" and t: "nth_task i s = Some t" "returning t = {#}" "dialling t = 0"
    and r: "\<And>X d. (\<not> closed (pool s) \<longrightarrow> core_inv cfg (pool s) (task_objs t + X) d) \<Longrightarrow> get_ok cfg (pool s) X d r"
  shows "sys_inv cfg (after_get now (drop_nth i (tasks s)) s r)"
proof (rule after_get_inv[OF r])
  show "\<not> closed (pool s) \<longrightarrow>
      core_inv cfg (pool s) (task_objs t + tsum task_objs (drop_nth i (tasks s))) (tsum dialling (drop_nth i (tasks s)))"
    using inv t(3) tsum_nth[OF t(1), of task_objs] tsum_nth[OF t(1), of dialling] by (simp add: sys_inv_def)
  show "\<not> closed (pool s) \<longrightarrow> mset (held s) + tsum returning (drop_nth i (tasks s)) = mset (activeConns (pool s)) \<and>
      (\<forall>k \<in># mset (held s) + tsum got (drop_nth i (tasks s)). \<not> pc_returned (objs (pool s) k)) \<and>
      TRelease \<notin> set (drop_nth i (tasks s))"
    using inv t(2) tsum_nth[OF t(1), of returning] tsum_nth[OF t(1), of got] drop_nth_sub[of i "tasks s"] by (auto simp: sys_inv_def)
qed

text \<open>A task \<open>t\<close> that becomes the tasks \<open>us\<close> while the pool becomes \<open>p\<close>.\<close>

lemma act_task_inv:
  assumes inv: "sys_inv cfg s" and t: "nth_task i s = Some t" and c: "closed p = closed (pool s)"
    and step: "\<And>X d R. \<not> closed (pool s) \<Longrightarrow> core_inv cfg (pool s) (task_objs t + X) (dialling t + d) \<Longrightarrow>
        mset (held s) + (returning t + R) = mset (activeConns (pool s)) \<Longrightarrow>
        \<forall>k \<in># mset (held s) + got t. \<not> pc_returned (objs (pool s) k) \<Longrightarrow>
        core_inv cfg p (tsum task_objs us + X) (tsum dialling us + d) \<and>
        mset hs + (tsum returning us + R) = mset (activeConns p) \<and>
        (\<forall>j. pc_returned (objs p j) \<longrightarrow> pc_returned (objs (pool s) j)) \<and>
        (\<forall>k \<in># mset hs + tsum got us. \<not> pc_returned (objs p k))"
    and us: "TRelease \<notin> set us"
  shows "sys_inv cfg (s\<lparr>pool := p, tasks := us @ drop_nth i (tasks s), held := hs, known := ks\<rparr>)"
proof (rule sys_step[OF c])
  assume o: "\<not> closed (pool s)"
  note n = tsum_nth[OF t, of task_objs] tsum_nth[OF t, of dialling] tsum_nth[OF t, of returning] tsum_nth[OF t, of got]
  have fl: "\<forall>k \<in># mset (held s) + got t. \<not> pc_returned (objs (pool s) k)"
    "\<forall>k \<in># tsum got (drop_nth i (tasks s)). \<not> pc_returned (objs (pool s) k)"
    using open_inv(3)[OF inv o] n(4) by auto
  show "core_inv cfg p (tsum task_objs (us @ drop_nth i (tasks s))) (tsum dialling (us @ drop_nth i (tasks s))) \<and>
    mset hs + tsum returning (us @ drop_nth i (tasks s)) = mset (activeConns p) \<and>
    (\<forall>k \<in># mset hs + tsum got (us @ drop_nth i (tasks s)). \<not> pc_returned (objs p k)) \<and>
    TRelease \<notin> set (us @ drop_nth i (tasks s))"
    using step[OF o, of "tsum task_objs (drop_nth i (tasks s))" "tsum dialling (drop_nth i (tasks s))" "tsum returning (drop_nth i (tasks s))"]
      open_inv(1,2,4)[OF inv o] n(1-3) fl us drop_nth_sub[of i "tasks s"] by auto
qed

lemma psys_same [simp]:
  "s\<lparr>pool := p, tasks := ts, held := held s, known := known s\<rparr> = s\<lparr>pool := p, tasks := ts\<rparr>"
  by simp

lemmas act_task = act_task_inv[where hs = "held s" and ks = "known s" and s = s for s, unfolded psys_same]

lemma act_dial_inv:
  assumes inv: "sys_inv cfg s" and t: "nth_task i s = Some TDial"
  shows "sys_inv cfg (s\<lparr>pool := Get_dial_failed (pool s), tasks := [] @ drop_nth i (tasks s)\<rparr>)"
    and "wrapConn r now (pool s) = (k, p) \<Longrightarrow> sys_inv cfg (s\<lparr>pool := p, tasks := [TGot k] @ drop_nth i (tasks s)\<rparr>)"
proof -
  show "sys_inv cfg (s\<lparr>pool := Get_dial_failed (pool s), tasks := [] @ drop_nth i (tasks s)\<rparr>)"
    by (intro act_task[OF inv t]) (auto simp: task_defs Get_dial_failed_def[symmetric] intro: inv_dial_failed, auto simp: Get_dial_failed_def)
  show "sys_inv cfg (s\<lparr>pool := p, tasks := [TGot k] @ drop_nth i (tasks s)\<rparr>)" if w: "wrapConn r now (pool s) = (k, p)"
  proof (rule act_task[OF inv t closed_wrap[OF w]])
    fix X d R
    assume c: "core_inv cfg (pool s) (task_objs TDial + X) (dialling TDial + d)"
      and u: "mset (held s) + (returning TDial + R) = mset (activeConns (pool s))"
      and f: "\<forall>k \<in># mset (held s) + got TDial. \<not> pc_returned (objs (pool s) k)"
    have "core_inv cfg p (add_mset k X) d" using inv_wrap[OF _ w, of cfg X d] c by (simp add: task_defs)
    moreover have "activeConns p = activeConns (pool s)" "\<forall>j. pc_returned (objs p j) \<longrightarrow> pc_returned (objs (pool s) j)"
      "\<not> pc_returned (objs p k)"
      using w by (auto simp: wrapConn_def take_obj_def split: option.splits if_splits)
    ultimately show "core_inv cfg p (tsum task_objs [TGot k] + X) (tsum dialling [TGot k] + d) \<and>
      mset (held s) + (tsum returning [TGot k] + R) = mset (activeConns p) \<and>
      (\<forall>j. pc_returned (objs p j) \<longrightarrow> pc_returned (objs (pool s) j)) \<and>
      (\<forall>k \<in># mset (held s) + tsum got [TGot k]. \<not> pc_returned (objs p k))"
      using u f by (auto simp: task_defs)
  qed simp
qed

lemma act_got_inv:
  assumes inv: "sys_inv cfg s" and t: "nth_task i s = Some (TGot k)"
  shows "Get_dialled k (pool s) = Some p \<Longrightarrow>
      sys_inv cfg (s\<lparr>pool := p, tasks := [] @ drop_nth i (tasks s), held := k # held s, known := ks\<rparr>)"
    and "Get_dialled k (pool s) = None \<Longrightarrow> sys_inv cfg (s\<lparr>pool := pool s, tasks := [TDrop k] @ drop_nth i (tasks s)\<rparr>)"
proof -
  show "sys_inv cfg (s\<lparr>pool := p, tasks := [] @ drop_nth i (tasks s), held := k # held s, known := ks\<rparr>)"
    if d: "Get_dialled k (pool s) = Some p"
  proof (rule act_task_inv[OF inv t])
    have p: "p = add_active k (pool s)" using d by (auto simp: Get_dialled_def split: if_splits)
    then show "closed p = closed (pool s)" by (simp add: add_active_def)
    fix X d R
    assume c: "core_inv cfg (pool s) (task_objs (TGot k) + X) (dialling (TGot k) + d)"
      and u: "mset (held s) + (returning (TGot k) + R) = mset (activeConns (pool s))"
      and f: "\<forall>k \<in># mset (held s) + got (TGot k). \<not> pc_returned (objs (pool s) k)"
    have c': "core_inv cfg (pool s) (add_mset k X) d" using c by (simp add: task_defs)
    show "core_inv cfg p (tsum task_objs [] + X) (tsum dialling [] + d) \<and>
      mset (k # held s) + (tsum returning [] + R) = mset (activeConns p) \<and>
      (\<forall>j. pc_returned (objs p j) \<longrightarrow> pc_returned (objs (pool s) j)) \<and>
      (\<forall>k \<in># mset (k # held s) + tsum got []. \<not> pc_returned (objs p k))"
      using inv_add_active[OF c'] u f by (simp add: p add_active_new[OF inv_not_active[OF c']] task_defs)
  qed simp
  show "sys_inv cfg (s\<lparr>pool := pool s, tasks := [TDrop k] @ drop_nth i (tasks s)\<rparr>)" if "Get_dialled k (pool s) = None"
    using that by (intro act_task[OF inv t]) (auto simp: Get_dialled_def task_defs split: if_splits)
qed

lemma act_close_inv:
  assumes inv: "sys_inv cfg s" and t: "nth_task i s = Some t" "task_objs t = add_mset k (tsum task_objs us)" "dialling t = 0"
    "returning t = {#}" "tsum returning us = {#}" "tsum dialling us = 0" "tsum got us = {#}"
    "TRelease \<notin> set us"
  shows "sys_inv cfg (s\<lparr>pool := closeConnLocked k (pool s), tasks := us @ drop_nth i (tasks s)\<rparr>)"
  by (rule act_task[OF inv t(1)]) (use t in \<open>auto simp: inv_close\<close>)

lemma act_put_inv:
  assumes inv: "sys_inv cfg s" and t: "nth_task i s = Some (TPut k)" and p: "put_section cfg now k (pool s) = (p, ping)"
  shows "sys_inv cfg (s\<lparr>pool := p, tasks := (if ping then [TPingPut k] else []) @ drop_nth i (tasks s)\<rparr>)"
proof (rule act_task[OF inv t])
  show "closed p = closed (pool s)" using p by (metis closed_puts(2) fst_conv)
  fix X d R
  assume o: "\<not> closed (pool s)" and c: "core_inv cfg (pool s) (task_objs (TPut k) + X) (dialling (TPut k) + d)"
    and u: "mset (held s) + (returning (TPut k) + R) = mset (activeConns (pool s))"
    and f: "\<forall>k \<in># mset (held s) + got (TPut k). \<not> pc_returned (objs (pool s) k)"
  have "core_inv cfg (pool s) X d" "mset (held s) + add_mset k R = mset (activeConns (pool s))" using c u by (simp_all add: task_defs)
  note i = put_section_inv[OF this o p]
  show "core_inv cfg p (tsum task_objs (if ping then [TPingPut k] else []) + X) (tsum dialling (if ping then [TPingPut k] else []) + d) \<and>
    mset (held s) + (tsum returning (if ping then [TPingPut k] else []) + R) = mset (activeConns p) \<and>
    (\<forall>j. pc_returned (objs p j) \<longrightarrow> pc_returned (objs (pool s) j)) \<and>
    (\<forall>k \<in># mset (held s) + tsum got (if ping then [TPingPut k] else []). \<not> pc_returned (objs p k))"
    using i f by (cases ping) (auto simp: task_defs)
qed simp

lemma act_pinged_inv:
  assumes inv: "sys_inv cfg s" and t: "nth_task i s = Some (TPingPut k)"
  shows "sys_inv cfg (s\<lparr>pool := put_pinged cfg now ok k (pool s), tasks := [] @ drop_nth i (tasks s)\<rparr>)"
proof (rule act_task[OF inv t])
  fix X d R
  assume c: "core_inv cfg (pool s) (task_objs (TPingPut k) + X) (dialling (TPingPut k) + d)"
    and u: "mset (held s) + (returning (TPingPut k) + R) = mset (activeConns (pool s))"
    and f: "\<forall>k \<in># mset (held s) + got (TPingPut k). \<not> pc_returned (objs (pool s) k)"
  have c': "core_inv cfg (pool s) (add_mset k X) d" using c by (simp add: task_defs)
  have "activeConns (put_pinged cfg now ok k (pool s)) = activeConns (pool s)"
    "pc_returned (objs (put_pinged cfg now ok k (pool s)) j) = pc_returned (objs (pool s) j)" for j
    by (simp_all add: put_pinged_def put_end_def Let_def)
  then show "core_inv cfg (put_pinged cfg now ok k (pool s)) (tsum task_objs [] + X) (tsum dialling [] + d) \<and>
    mset (held s) + (tsum returning [] + R) = mset (activeConns (put_pinged cfg now ok k (pool s))) \<and>
    (\<forall>j. pc_returned (objs (put_pinged cfg now ok k (pool s)) j) \<longrightarrow> pc_returned (objs (pool s) j)) \<and>
    (\<forall>j \<in># mset (held s) + tsum got []. \<not> pc_returned (objs (put_pinged cfg now ok k (pool s)) j))"
    using inv_close[OF c'] inv_put_end[OF c', of now] u f by (auto simp: put_pinged_def task_defs)
qed simp_all

lemma act_mark_inv:
  assumes inv: "sys_inv cfg s" and t: "nth_task i s = Some (TMark k)"
  shows "sys_inv cfg (s\<lparr>pool := mark_section k (pool s), tasks := [] @ drop_nth i (tasks s)\<rparr>)"
proof (rule act_task[OF inv t])
  fix X d R
  assume c: "core_inv cfg (pool s) (task_objs (TMark k) + X) (dialling (TMark k) + d)"
    and u: "mset (held s) + (returning (TMark k) + R) = mset (activeConns (pool s))"
    and f: "\<forall>k \<in># mset (held s) + got (TMark k). \<not> pc_returned (objs (pool s) k)"
  have "core_inv cfg (pool s) X d" "mset (held s) + add_mset k R = mset (activeConns (pool s))" using c u by (simp_all add: task_defs)
  note l = leave_active[OF this]
  show "core_inv cfg (mark_section k (pool s)) (tsum task_objs [] + X) (tsum dialling [] + d) \<and>
    mset (held s) + (tsum returning [] + R) = mset (activeConns (mark_section k (pool s))) \<and>
    (\<forall>j. pc_returned (objs (mark_section k (pool s)) j) \<longrightarrow> pc_returned (objs (pool s) j)) \<and>
    (\<forall>j \<in># mset (held s) + tsum got []. \<not> pc_returned (objs (mark_section k (pool s)) j))"
    using inv_close[OF l(1)] l(2) f by (simp add: mark_section_def task_defs) (simp add: del_active_def)
qed simp_all

lemma act_clean_inv:
  assumes inv: "sys_inv cfg s" and o: "\<not> closed (pool s)" and c: "clean_section cfg now (pool s) = (p, out, a, l)"
  shows "sys_inv cfg (s\<lparr>pool := p, tasks := TClean out a l # tasks s\<rparr>)"
proof -
  have "activeConns p = activeConns (pool s)" "objs p = objs (pool s)" "closed p = closed (pool s)"
    using c by (auto simp: clean_section_def split: prod.splits)
  then show ?thesis
    using open_inv[OF inv o] inv_clean[OF open_inv(1)[OF inv o] c] by (simp add: sys_inv_def task_defs)
qed

lemma act_release_inv: "sys_inv cfg s \<Longrightarrow> Release_begin (pool s) = Some p \<Longrightarrow> sys_inv cfg (s\<lparr>pool := p, tasks := ts\<rparr>)"
  by (auto simp: sys_inv_def Release_begin_def split: if_splits)

lemma act_start_inv: "sys_inv cfg s \<Longrightarrow> sys_inv cfg (after_get now (tasks s) s (Get_start cfg now cancelled (pool s)))"
  by (rule after_get_inv[OF Get_start_ok]) (simp_all add: sys_inv_def)

lemma act_gets_inv:
  assumes "sys_inv cfg s" "act cfg a s = Some s'" "a \<in> {APingGet i cancelled ok, AWake i now cancelled d}"
  shows "sys_inv cfg s'"
proof -
  consider k t where "nth_task i s = Some (TPingGet k t)"
      "s' = after_get t (drop_nth i (tasks s)) s (Get_pinged cfg t cancelled ok k (pool s))"
    | "nth_task i s = Some TWait" "s' = after_get now (drop_nth i (tasks s)) s (Get_woken cfg now cancelled d (pool s))"
    using assms(2,3) by (auto split: option.splits task.splits)
  then show ?thesis
  proof cases
    case 1
    show ?thesis unfolding 1(2) by (rule act_get_inv[OF assms(1) 1(1)]) (simp_all add: task_defs Get_pinged_ok)
  next
    case 2
    show ?thesis unfolding 2(2) by (rule act_get_inv[OF assms(1) 2(1)]) (simp_all add: task_defs Get_woken_ok)
  qed
qed

lemma act_return_inv:
  assumes inv: "sys_inv cfg s" and a: "act cfg a s = Some s'" "a \<in> {AClose k, AMark k}"
  shows "sys_inv cfg s'"
proof (cases "begin_return k (pool s)")
  case None
  have k: "k \<in> set (held s)" and s': "s' = s\<lparr>held := remove1 k (held s)\<rparr>" using a None by (auto split: if_splits)
  have "closed (pool s)"
  proof (rule ccontr)
    assume "\<not> closed (pool s)"
    then have "\<not> pc_returned (objs (pool s) k)" using open_inv(3)[OF inv] k by auto
    then show False using None by (simp add: begin_return_def)
  qed
  then show ?thesis by (simp add: s' sys_inv_def)
next
  case (Some p)
  have k: "k \<in> set (held s)" and "\<exists>t \<in> {TPut k, TMark k}. s' = s\<lparr>pool := p, tasks := t # tasks s, held := remove1 k (held s)\<rparr>"
    using a Some by (auto split: if_splits)
  then show ?thesis using begin_return_inv[OF inv k Some, of "TPut k"] begin_return_inv[OF inv k Some, of "TMark k"]
    by (auto simp: task_defs)
qed

lemma act_task_step_inv:
  assumes inv: "sys_inv cfg s" and a: "act cfg a s = Some s'"
    and k: "a \<in> {ADialFail i, ADialOk i r now, AGot i, ADrop i, APut i now, APingPut i now ok, AMarkSection i}"
  shows "sys_inv cfg s'"
  using k
proof (elim insertE emptyE)
  assume "a = ADialFail i"
  then show ?thesis using a act_dial_inv(1)[OF inv, of i] by (auto split: option.splits task.splits)
next
  assume "a = ADialOk i r now"
  then show ?thesis using a act_dial_inv(2)[OF inv, of i] by (auto split: option.splits task.splits prod.splits)
next
  assume "a = AGot i"
  then show ?thesis using a act_got_inv[OF inv, of i] by (auto split: option.splits task.splits)
next
  assume "a = ADrop i"
  then show ?thesis using a act_close_inv[OF inv, of i _ _ "[]"] by (auto simp: task_defs split: option.splits task.splits)
next
  assume "a = APut i now"
  then show ?thesis using a act_put_inv[OF inv, of i] by (auto split: option.splits task.splits prod.splits)
next
  assume "a = APingPut i now ok"
  then show ?thesis using a act_pinged_inv[OF inv, of i] by (auto split: option.splits task.splits)
next
  assume "a = AMarkSection i"
  then show ?thesis using a act_mark_inv[OF inv, of i] by (auto split: option.splits task.splits)
qed

lemma act_clean_step_inv:
  assumes inv: "sys_inv cfg s" and a: "act cfg (ACleanNext i) s = Some s'"
  shows "sys_inv cfg s'"
proof -
  consider k ks c l where "nth_task i s = Some (TClean (k # ks) c l)"
      "s' = s\<lparr>pool := closeConnLocked k (pool s), tasks := [TClean ks c l] @ drop_nth i (tasks s)\<rparr>"
    | c l where "nth_task i s = Some (TClean [] c l)" "s' = s\<lparr>pool := clean_end c l (pool s), tasks := [] @ drop_nth i (tasks s)\<rparr>"
    using a by (auto split: option.split_asm task.split_asm list.split_asm)
  then show ?thesis
  proof cases
    case 1
    show ?thesis unfolding 1(2) by (rule act_close_inv[OF inv 1(1)]) (simp_all add: task_defs)
  next
    case 2
    show ?thesis unfolding 2(2) by (rule act_task[OF inv 2(1)]) (auto simp: task_defs clean_end_def)
  qed
qed

lemma act_release_end_inv:
  assumes inv: "sys_inv cfg s" and a: "act cfg (AReleaseEnd i) s = Some s'"
  shows "sys_inv cfg s'"
proof -
  have "TRelease \<in> set (tasks s)"
    using a by (auto simp: nth_task_def split: option.split_asm task.split_asm if_split_asm) (metis nth_mem)
  then have "closed (pool s)" using open_inv(4)[OF inv] by blast
  then show ?thesis using act_keeps_closed[OF a] by (simp add: sys_inv_def)
qed

lemma act_inv:
  assumes inv: "sys_inv cfg s" and f: "fair_use a" and a: "act cfg a s = Some s'"
  shows "sys_inv cfg s'"
proof (cases a)
  case (AGet now c)
  then show ?thesis using a act_start_inv[OF inv] by auto
next
  case (AClean now)
  then show ?thesis using a act_clean_inv[OF inv] by (auto split: if_split_asm prod.split_asm)
next
  case ARelease
  then show ?thesis using a inv act_release_inv[OF inv] by (auto split: option.split_asm)
next
  case (AReleaseEnd i)
  then show ?thesis using a act_release_end_inv[OF inv] by blast
next
  case (ACleanNext i)
  then show ?thesis using a act_clean_step_inv[OF inv] by blast
next
  case (APingGet i c ok)
  then show ?thesis using act_gets_inv[OF inv a, of i c ok] by blast
next
  case (AWake i now c d)
  then show ?thesis using act_gets_inv[OF inv a, of i c _ now d] by blast
next
  case (AClose k)
  then show ?thesis using act_return_inv[OF inv a, of k] by blast
next
  case (AMark k)
  then show ?thesis using act_return_inv[OF inv a, of k] by blast
qed (use f act_task_step_inv[OF inv a] in \<open>auto simp: fair_use_def\<close>)

lemma run_inv:
  "sys_inv cfg s \<Longrightarrow> \<forall>a \<in> set as. fair_use a \<Longrightarrow> run_pool cfg as s = Some s' \<Longrightarrow> sys_inv cfg s'"
  by (induction as arbitrary: s) (auto split: option.splits dest: act_inv)

lemma wrapConn_connCnt:
  "wrapConn None now (p\<lparr>connCnt := c\<rparr>) = (fst (wrapConn None now p), (snd (wrapConn None now p))\<lparr>connCnt := c\<rparr>)"
  by (simp add: wrapConn_def take_obj_def set_obj_def)

lemma init_conns_inv:
  assumes "core_inv cfg (p\<lparr>connCnt := c\<rparr>) {#} n" "int (length (idleConns p) + n) \<le> maxIdleCnt cfg" "init_conns now f n p = Inr p'"
    "activeConns p = []" "\<not> closed p"
  shows "core_inv cfg (p'\<lparr>connCnt := c\<rparr>) {#} 0 \<and> activeConns p' = [] \<and> \<not> closed p'"
  using assms
proof (induction n arbitrary: p)
  case (Suc n)
  obtain k q where w: "wrapConn None now p = (k, q)" by fastforce
  have q: "idleConns q = idleConns p" "activeConns q = activeConns p" "closed q = closed p"
    using w by (auto simp: wrapConn_def take_obj_def)
  have "core_inv cfg (q\<lparr>connCnt := c\<rparr>) (add_mset k {#}) n"
    by (rule inv_wrap[OF Suc.prems(1), of None now]) (simp add: wrapConn_connCnt w)
  then have "core_inv cfg (q\<lparr>connCnt := c\<rparr>\<lparr>idleConns := idleConns (q\<lparr>connCnt := c\<rparr>) @ [k]\<rparr>) {#} n"
    by (rule inv_push_idle) (use Suc.prems(2) q in simp)
  then have "core_inv cfg (q\<lparr>idleConns := idleConns q @ [k]\<rparr>\<lparr>connCnt := c\<rparr>) {#} n" by (cases q) simp
  then show ?case using Suc.IH Suc.prems q by (simp add: w split: if_splits)
qed simp

lemma NewPool_inv:
  assumes "NewPool cfg n f now = Inr p"
  shows "sys_inv cfg (start p)"
proof -
  obtain g q where g: "f = Some g" and n: "0 \<le> n" "n \<le> maxIdleCnt cfg" "maxIdleCnt cfg \<le> maxConnCap cfg"
    and q: "init_conns now g (nat n) empty_pool = Inr q" and p: "p = q\<lparr>connCnt := n\<rparr>"
    using assms by (auto simp: NewPool_def sum_bind_Inr_iff split: if_splits option.splits)
  have "core_inv cfg (empty_pool\<lparr>connCnt := n\<rparr>) {#} (nat n)"
    using n by (simp add: core_inv_def live_def empty_pool_def simple_def conn_ok_def)
  then have "core_inv cfg (q\<lparr>connCnt := n\<rparr>) {#} 0 \<and> activeConns q = [] \<and> \<not> closed q"
    by (rule init_conns_inv) (use n q in \<open>simp_all add: empty_pool_def\<close>)
  then show ?thesis by (simp add: sys_inv_def start_def p)
qed

section \<open>An example\<close>

definition ex_pool :: "bool \<Rightarrow> Pool" where
  "ex_pool ping = projr (NewPool (cfg_ex ping) 1 (Some (\<lambda>_. True)) 0)"

definition ex_run :: "bool \<Rightarrow> action list \<Rightarrow> psys" where
  "ex_run ping as = the (run_pool (cfg_ex ping) as (start (ex_pool ping)))"

lemma ex_pool: "NewPool (cfg_ex ping) 1 (Some (\<lambda>_. True)) 0 = Inr (ex_pool ping)"
proof -
  have "\<not> isl (NewPool (cfg_ex ping) 1 (Some (\<lambda>_. True)) 0)" by (cases ping) (simp_all, code_simp+)
  then show ?thesis unfolding ex_pool_def by (cases "NewPool (cfg_ex ping) 1 (Some (\<lambda>_. True)) 0") auto
qed

lemma ex_run:
  "\<not> Option.is_none (run_pool (cfg_ex ping) as (start (ex_pool ping))) \<Longrightarrow>
   run_pool (cfg_ex ping) as (start (ex_pool ping)) = Some (ex_run ping as)"
  by (auto simp: ex_run_def Option.is_none_def)

section \<open>Properties\<close>





end
