(* ===== verification/ConnPoolClose.thy ===== *)
theory ConnPoolClose
  imports ConnPoolSafe
begin

text \<open>
  What \<^verbatim>\<open>Release\<close> of the connection pool leaves behind: without a ping, and as long as wrappers
  are not recycled, every connection is closed exactly once.
\<close>

section \<open>Where the open connections are\<close>

text \<open>Every connection is closed or belongs to exactly one object, which is in \<open>L\<close>.\<close>

definition leak_ok :: "Pool \<Rightarrow> nat set \<Rightarrow> bool" where
  "leak_ok p L \<longleftrightarrow>
     (\<forall>k c. pc_conn (objs p k) = Some c \<longrightarrow> c < nextNet p \<and> c \<notin> set (closedNet p) \<and> k < nextObj p) \<and>
     (\<forall>j k c. pc_conn (objs p j) = Some c \<and> pc_conn (objs p k) = Some c \<longrightarrow> j = k) \<and>
     (\<forall>c < nextNet p. c \<in> set (closedNet p) \<or> (\<exists>k \<in> L. pc_conn (objs p k) = Some c)) \<and>
     distinct (closedNet p) \<and> set (closedNet p) \<subseteq> {..<nextNet p}"

lemma leak_mono: "leak_ok p L \<Longrightarrow> L \<subseteq> L' \<Longrightarrow> leak_ok p L'"
  by (fastforce simp: leak_ok_def)

lemma leak_cong:
  "nextNet q = nextNet p \<Longrightarrow> closedNet q = closedNet p \<Longrightarrow> nextObj q = nextObj p \<Longrightarrow>
   (\<And>k. pc_conn (objs q k) = pc_conn (objs p k)) \<Longrightarrow> leak_ok q L = leak_ok p L"
  by (simp add: leak_ok_def)

lemma leakI:
  assumes "\<And>k c. pc_conn (objs p k) = Some c \<Longrightarrow> c < nextNet p \<and> c \<notin> set (closedNet p) \<and> k < nextObj p"
    "\<And>j k c. pc_conn (objs p j) = Some c \<Longrightarrow> pc_conn (objs p k) = Some c \<Longrightarrow> j = k"
    "\<And>c. c < nextNet p \<Longrightarrow> c \<notin> set (closedNet p) \<Longrightarrow> \<exists>k \<in> L. pc_conn (objs p k) = Some c"
    "distinct (closedNet p)" "set (closedNet p) \<subseteq> {..<nextNet p}"
  shows "leak_ok p L"
  unfolding leak_ok_def using assms by blast

lemma leakD:
  assumes "leak_ok p L"
  shows "pc_conn (objs p k) = Some c \<Longrightarrow> c < nextNet p \<and> c \<notin> set (closedNet p) \<and> k < nextObj p"
    "pc_conn (objs p j) = Some c \<Longrightarrow> pc_conn (objs p k) = Some c \<Longrightarrow> j = k"
    "c < nextNet p \<Longrightarrow> c \<notin> set (closedNet p) \<Longrightarrow> \<exists>k \<in> L. pc_conn (objs p k) = Some c"
    "distinct (closedNet p)" "set (closedNet p) \<subseteq> {..<nextNet p}"
  using assms unfolding leak_ok_def by blast+

lemma leak_close:
  assumes ok: "leak_ok p (insert k L)"
  shows "leak_ok (closeConnLocked k p) L"
proof (cases "pc_conn (objs p k)")
  case None
  then have "leak_ok p L" using leakD[OF ok] by (intro leakI) fastforce+
  then show ?thesis using None leak_cong[of "closeConnLocked k p" p L] by simp
next
  case (Some c)
  note c = leakD(1)[OF ok Some]
  let ?q = "closeConnLocked k p"
  have q: "pc_conn (objs ?q j) = (if j = k then None else pc_conn (objs p j))" for j by simp
  show ?thesis
  proof (rule leakI)
    fix j d
    assume "pc_conn (objs ?q j) = Some d"
    then have j: "j \<noteq> k" "pc_conn (objs p j) = Some d" by (auto simp: q split: if_split_asm)
    then have "d \<noteq> c" using leakD(2)[OF ok j(2), of k] Some by blast
    then show "d < nextNet ?q \<and> d \<notin> set (closedNet ?q) \<and> j < nextObj ?q" using leakD(1)[OF ok j(2)] by (simp add: Some)
  next
    fix i j d
    assume "pc_conn (objs ?q i) = Some d" "pc_conn (objs ?q j) = Some d"
    then show "i = j" using leakD(2)[OF ok, of i d j] by (auto simp: q split: if_split_asm)
  next
    fix d
    assume "d < nextNet ?q" "d \<notin> set (closedNet ?q)"
    then have d: "d < nextNet p" "d \<notin> set (closedNet p)" "d \<noteq> c" by (auto simp: Some)
    then obtain j where "j \<in> insert k L" "pc_conn (objs p j) = Some d" using leakD(3)[OF ok] by blast
    then show "\<exists>j \<in> L. pc_conn (objs ?q j) = Some d" using d(3) Some by (intro bexI[of _ j]) (auto simp: q)
  qed (use c leakD(4,5)[OF ok] in \<open>auto simp: Some\<close>)
qed

lemma leak_wrap:
  assumes ok: "leak_ok p L" and w: "wrapConn None now p = (k, q)"
  shows "leak_ok q (insert k L)"
proof -
  have k: "k = nextObj p" and q: "nextNet q = Suc (nextNet p)" "closedNet q = closedNet p" "nextObj q = Suc (nextObj p)"
    "\<And>j. pc_conn (objs q j) = (if j = k then Some (nextNet p) else pc_conn (objs p j))"
    using w by (auto simp: wrapConn_def take_obj_def)
  have n: "nextNet p \<notin> set (closedNet p)" using leakD(5)[OF ok] by auto
  show ?thesis
  proof (rule leakI)
    fix j c
    assume "pc_conn (objs q j) = Some c"
    then show "c < nextNet q \<and> c \<notin> set (closedNet q) \<and> j < nextObj q"
      using leakD(1)[OF ok, of j c] n by (auto simp: q k split: if_split_asm)
  next
    fix i j c
    assume "pc_conn (objs q i) = Some c" "pc_conn (objs q j) = Some c"
    then show "i = j" using leakD(2)[OF ok, of i c j] leakD(1)[OF ok, of i c] leakD(1)[OF ok, of j c] by (auto simp: q split: if_split_asm)
  next
    fix c
    assume c: "c < nextNet q" "c \<notin> set (closedNet q)"
    show "\<exists>j \<in> insert k L. pc_conn (objs q j) = Some c"
    proof (cases "c = nextNet p")
      case False
      then obtain j where j: "j \<in> L" "pc_conn (objs p j) = Some c" using leakD(3)[OF ok, of c] c by (auto simp: q)
      then show ?thesis using leakD(1)[OF ok j(2)] by (intro bexI[of _ j]) (auto simp: q k)
    qed (simp add: q)
  qed (use leakD(4,5)[OF ok] in \<open>auto simp: q\<close>)
qed

lemma leak_fold_close: "leak_ok p (set ks \<union> L) \<Longrightarrow> leak_ok (fold closeConnLocked ks p) L"
  by (induction ks arbitrary: p) (auto intro: leak_close)

definition place :: "Pool \<Rightarrow> nat set" where
  "place p = set (idleConns p) \<union> set (activeConns p)"

lemma leak_pop_idle:
  assumes "leak_ok p (place p \<union> Y)" "idleConns p = ks @ [k]"
  shows "leak_ok (p\<lparr>idleConns := ks\<rparr>) (insert k (place (p\<lparr>idleConns := ks\<rparr>) \<union> Y))"
proof -
  have "place p \<union> Y = insert k (place (p\<lparr>idleConns := ks\<rparr>) \<union> Y)" using assms(2) by (auto simp: place_def)
  then show ?thesis using assms(1) leak_cong[of "p\<lparr>idleConns := ks\<rparr>" p] by simp
qed

lemma leak_stats [simp]:
  "leak_ok (p\<lparr>maxIdleClosed := n\<rparr>) L = leak_ok p L" "leak_ok (p\<lparr>maxLifetimeClosed := n\<rparr>) L = leak_ok p L"
  "leak_ok (p\<lparr>waitCount := n\<rparr>) L = leak_ok p L" "leak_ok (p\<lparr>waitDuration := n\<rparr>) L = leak_ok p L"
  "leak_ok (p\<lparr>connCnt := c\<rparr>) L = leak_ok p L"
  by (rule leak_cong; simp)+

lemma place_simps [simp]:
  "place (p\<lparr>maxIdleClosed := n\<rparr>) = place p" "place (p\<lparr>maxLifetimeClosed := n\<rparr>) = place p"
  "place (p\<lparr>waitCount := n\<rparr>) = place p" "place (p\<lparr>waitDuration := n\<rparr>) = place p" "place (p\<lparr>connCnt := c\<rparr>) = place p"
  "place (closeConnLocked k p) = place p"
  by (simp_all add: place_def)

lemma leak_take_idle:
  "leak_ok p (place p \<union> Y) \<Longrightarrow> idleConns p = rev ks \<Longrightarrow> take_idle cfg now ks p = (p', r) \<Longrightarrow>
   leak_ok p' (set_option r \<union> (place p' \<union> Y))"
proof (induction cfg now ks p rule: take_idle.induct)
  case (2 cfg now k ks p)
  let ?q = "p\<lparr>idleConns := rev ks\<rparr>"
  have q: "leak_ok ?q (insert k (place ?q \<union> Y))" by (rule leak_pop_idle[OF "2.prems"(1)]) (simp add: "2.prems"(2))
  have cl: "leak_ok (closeConnLocked k ?q) (place (closeConnLocked k ?q) \<union> Y)" using leak_close[OF q] by (simp only: place_simps)
  show ?case
  proof (cases "idle_expired cfg now (objs ?q k)")
    case True
    show ?thesis
      by (rule "2.IH"(1)[OF refl True]) (use cl True "2.prems"(3) in \<open>simp_all add: Let_def\<close>)
  next
    case idle: False
    show ?thesis
    proof (cases "life_expired cfg now (objs ?q k)")
      case True
      show ?thesis
        by (rule "2.IH"(2)[OF refl idle True]) (use cl idle True "2.prems"(3) in \<open>simp_all add: Let_def\<close>)
    next
      case False
      then have "p' = ?q" "r = Some k" using idle "2.prems"(3) by (simp_all add: Let_def)
      then show ?thesis using q by simp
    qed
  qed
qed simp

lemma released_take_idle: "take_idle cfg now ks p = (p', r) \<Longrightarrow> released p' = released p"
  by (induction cfg now ks p rule: take_idle.induct) (auto simp: Let_def split: if_split_asm)

section \<open>Runs without ping and recycling\<close>

definition fresh_use :: "action \<Rightarrow> bool" where
  "fresh_use a = (case a of ADialOk _ r _ \<Rightarrow> r = None | APutOther r _ \<Rightarrow> r = None | _ \<Rightarrow> True)"

definition emptied :: "Pool \<Rightarrow> bool" where
  "emptied p \<longleftrightarrow> (released p \<longrightarrow> closed p \<and> idleConns p = [] \<and> activeConns p = [])"

definition no_ping_task :: "task \<Rightarrow> bool" where
  "no_ping_task t = (case t of TPingGet _ _ \<Rightarrow> False | TPingPut _ \<Rightarrow> False | _ \<Rightarrow> True)"

definition leak_inv :: "psys \<Rightarrow> bool" where
  "leak_inv s \<longleftrightarrow> leak_ok (pool s) (place (pool s) \<union> set_mset (tsum task_objs (tasks s))) \<and> emptied (pool s) \<and>
     (\<forall>t \<in> set (tasks s). no_ping_task t)"

text \<open>What a locked part may do to a pool whose goroutines keep the objects \<open>Y\<close>.\<close>

definition leak_step :: "Pool \<Rightarrow> nat set \<Rightarrow> bool" where
  "leak_step p Y \<longleftrightarrow> leak_ok p (place p \<union> Y) \<and> emptied p"

lemma leak_get_section:
  assumes "leak_step p Y" "\<not> closed p" "\<not> has_ping cfg" "get_section cfg now cancelled p = (p', g)"
  shows "leak_step p' Y" "g \<noteq> GPing k"
proof -
  obtain p1 r where t: "take_idle cfg now (rev (idleConns p)) p = (p1, r)" by fastforce
  have ok: "leak_ok p1 (set_option r \<union> (place p1 \<union> Y))"
    by (rule leak_take_idle[OF _ _ t]) (use assms(1) in \<open>simp_all add: leak_step_def\<close>)
  have rel: "\<not> released p" "\<not> closed p1" using assms(1,2) closed_take_idle[OF t] by (auto simp: leak_step_def emptied_def)
  have "\<not> released p1" using rel(1) released_take_idle[OF t] by simp
  moreover have "leak_ok (give k p1) (place (give k p1) \<union> Y)" if "r = Some k" for k
  proof -
    have "insert k (place p1 \<union> Y) \<subseteq> place (give k p1) \<union> Y" by (auto simp: place_def give_def add_active_def)
    moreover have "leak_ok (give k p1) L = leak_ok p1 L" for L by (rule leak_cong) (simp_all add: give_def add_active_def)
    ultimately show ?thesis using ok that leak_mono by simp
  qed
  moreover have "released (give k p1) = released p1" for k by (simp add: give_def add_active_def)
  ultimately show "leak_step p' Y" "g \<noteq> GPing k"
    using assms(3,4) ok by (auto simp: get_section_def t leak_step_def emptied_def split: option.split_asm if_split_asm)
qed

lemma leak_step_close: "leak_step p (insert k Y) \<Longrightarrow> leak_step (closeConnLocked k p) Y"
  using leak_close[of p k "place p \<union> Y"] by (simp add: leak_step_def emptied_def)

lemma leak_step_mono: "leak_step p Y \<Longrightarrow> Y \<subseteq> Z \<Longrightarrow> leak_step p Z"
  unfolding leak_step_def using leak_mono[of p "place p \<union> Y" "place p \<union> Z"] by blast

lemma leak_step_close': "leak_step p Y \<Longrightarrow> leak_step (closeConnLocked k p) Y"
  by (rule leak_step_close) (auto intro: leak_step_mono)

text \<open>Objects may move between the places of the pool and the goroutines.\<close>

lemma leak_step_move:
  assumes "leak_step p Y" "nextNet q = nextNet p" "closedNet q = closedNet p" "nextObj q = nextObj p"
    "\<And>k. pc_conn (objs q k) = pc_conn (objs p k)" "place p \<union> Y \<subseteq> place q \<union> Z" "emptied q"
  shows "leak_step q Z"
proof -
  have "leak_ok q (place p \<union> Y)" using assms(1) leak_cong[OF assms(2-5)] by (simp add: leak_step_def)
  then show ?thesis using assms(6,7) leak_mono by (auto simp: leak_step_def)
qed

lemma open_emptied: "leak_step p Y \<Longrightarrow> \<not> closed p \<Longrightarrow> \<not> released p"
  by (auto simp: leak_step_def emptied_def)

lemma leak_step_wrap:
  assumes "leak_step p Y" "wrapConn None now p = (k, q)"
  shows "leak_step q (insert k Y)"
proof -
  have "idleConns q = idleConns p" "activeConns q = activeConns p" "closed q = closed p" "released q = released p"
    using assms(2) by (auto simp: wrapConn_def take_obj_def)
  then show ?thesis using leak_wrap[OF _ assms(2)] assms(1) by (simp add: leak_step_def emptied_def place_def)
qed

lemma leak_put_end: "leak_step p (insert k Y) \<Longrightarrow> \<not> closed p \<Longrightarrow> leak_step (put_end cfg now k p) Y"
proof -
  assume a: "leak_step p (insert k Y)" "\<not> closed p"
  define q where "q = set_obj k (\<lambda>pc. pc\<lparr>pc_lastActiveTime := now\<rparr>) p"
  have r: "\<not> released p" using open_emptied[OF a] .
  have q: "leak_step q (insert k Y)" by (rule leak_step_move[OF a(1)]) (use r in \<open>auto simp: q_def place_def emptied_def\<close>)
  have "leak_step (q\<lparr>idleConns := idleConns q @ [k]\<rparr>) Y"
    by (rule leak_step_move[OF q]) (use r in \<open>auto simp: q_def place_def emptied_def\<close>)
  then show ?thesis using leak_step_close[OF q] by (simp add: put_end_def Let_def q_def[symmetric])
qed

lemma leak_del_active: "leak_step p Y \<Longrightarrow> leak_step (del_active k p) (insert k Y)"
  by (rule leak_step_move) (auto simp: del_active_def place_def leak_step_def emptied_def)

lemma leak_put_section:
  assumes "leak_step p Y" "\<not> has_ping cfg" "put_section cfg now k p = (p', ping)"
  shows "leak_step p' Y" "\<not> ping"
proof -
  note d = leak_del_active[OF assms(1), of k]
  have "leak_step (x\<lparr>maxLifetimeClosed := n\<rparr>) Y = leak_step x Y" for x n by (simp add: leak_step_def emptied_def)
  then show "leak_step p' Y"
    using assms(2,3) leak_step_close'[OF assms(1), of k] leak_step_close[OF d] leak_put_end[OF d, of cfg now]
    by (auto simp: put_section_def Let_def del_active_def split: if_split_asm)
  show "\<not> ping" using assms(2,3) by (auto simp: put_section_def Let_def split: if_split_asm)
qed

lemma leak_mark: "leak_step p Y \<Longrightarrow> leak_step (mark_section k p) Y"
  unfolding mark_section_def by (rule leak_step_close[OF leak_del_active])

lemma leak_put_other: "leak_step p Y \<Longrightarrow> leak_step (Put_other cfg None now p) Y"
proof (cases "closed p")
  case True
  assume s: "leak_step p Y"
  then have ok: "leak_ok p (place p \<union> Y)" by (simp add: leak_step_def)
  let ?q = "p\<lparr>closedNet := closedNet p @ [nextNet p], nextNet := Suc (nextNet p)\<rparr>"
  have "leak_ok ?q (place p \<union> Y)"
  proof (rule leakI)
    fix k c
    assume "pc_conn (objs ?q k) = Some c"
    then show "c < nextNet ?q \<and> c \<notin> set (closedNet ?q) \<and> k < nextObj ?q"
      using leakD(1)[OF ok, of k c] by simp
  next
    fix j k c
    assume "pc_conn (objs ?q j) = Some c"
      "pc_conn (objs ?q k) = Some c"
    then show "j = k" using leakD(2)[OF ok, of j c k] by simp
  qed (use leakD(3)[OF ok] leakD(4,5)[OF ok] in \<open>auto simp: less_Suc_eq\<close>)
  then show ?thesis using s True by (simp add: Put_other_def leak_step_def emptied_def place_def)
next
  case False
  assume s: "leak_step p Y"
  have r: "\<not> released p" using open_emptied[OF s False] .
  obtain k q where w: "wrapConn None now (p\<lparr>connCnt := connCnt p + 1\<rparr>) = (k, q)" by fastforce
  have "leak_step (p\<lparr>connCnt := connCnt p + 1\<rparr>) Y" using s by (simp add: leak_step_def emptied_def)
  then have q: "leak_step q (insert k Y)" by (rule leak_step_wrap[OF _ w])
  have "\<not> released q" using w r by (auto simp: wrapConn_def take_obj_def)
  then have "leak_step (q\<lparr>idleConns := idleConns q @ [k]\<rparr>) Y"
    by (intro leak_step_move[OF q]) (auto simp: place_def emptied_def)
  then show ?thesis using leak_step_close[OF q] False by (simp add: Put_other_def w)
qed

lemma leak_clean:
  assumes "leak_step p Y" "\<not> closed p" "clean_section cfg now p = (p', out, a, l)"
  shows "leak_step p' (set out \<union> Y)"
proof -
  obtain kept where s: "sweep cfg now (objs p) (rev (idleConns p)) = (kept, out, a, l)" and p': "p' = p\<lparr>idleConns := rev kept\<rparr>"
    using assms(3) by (auto simp: clean_section_def split: prod.splits)
  have "set (idleConns p) = set kept \<union> set out" using inv_sweep[OF s] by (metis set_mset_mset set_mset_union mset_rev)
  then show ?thesis
    using open_emptied[OF assms(1,2)] by (intro leak_step_move[OF assms(1)]) (auto simp: p' place_def emptied_def)
qed

lemma released_fold_close [simp]: "idleConns (fold closeConnLocked ks p) = idleConns p" "activeConns (fold closeConnLocked ks p) = activeConns p"
  by (induction ks arbitrary: p) auto

lemma leak_release_end: "leak_step p Y \<Longrightarrow> closed p \<Longrightarrow> leak_step (Release_end p) Y"
proof -
  assume a: "leak_step p Y" "closed p"
  define q where "q = fold closeConnLocked (activeConns p) ((fold closeConnLocked (idleConns p) p)\<lparr>idleConns := []\<rparr>)"
  have "leak_ok p (set (idleConns p) \<union> (set (activeConns p) \<union> Y))" using a(1) by (simp add: leak_step_def place_def Un_assoc)
  then have "leak_ok (fold closeConnLocked (idleConns p) p) (set (activeConns p) \<union> Y)" by (rule leak_fold_close)
  then have "leak_ok ((fold closeConnLocked (idleConns p) p)\<lparr>idleConns := []\<rparr>) (set (activeConns p) \<union> Y)" by (simp add: leak_ok_def)
  then have "leak_ok q Y" unfolding q_def by (rule leak_fold_close)
  moreover have "Release_end p = q\<lparr>activeConns := [], connCnt := 0, released := True\<rparr>" by (simp add: Release_end_def Let_def q_def)
  moreover have "closed q" "idleConns q = []" using a(2) by (simp_all add: q_def)
  ultimately show ?thesis by (simp add: leak_step_def emptied_def place_def leak_ok_def)
qed

lemma leak_inv_alt: "leak_inv s \<longleftrightarrow> leak_step (pool s) (set_mset (tsum task_objs (tasks s))) \<and> (\<forall>t \<in> set (tasks s). no_ping_task t)"
  by (auto simp: leak_inv_def leak_step_def)

lemma leak_after_get:
  assumes "leak_step p (set_mset (tsum task_objs ts))" "\<And>k. g \<noteq> GPing k" "\<forall>t \<in> set ts. no_ping_task t"
  shows "leak_inv (after_get now ts s (p, g))"
  using assms by (cases g) (auto simp: after_get_def leak_inv_alt task_objs_def no_ping_task_def)

lemma leak_get:
  assumes "leak_step p Y" "\<not> has_ping cfg" "Get_start cfg now c p = (p', g) \<or> Get_woken cfg now c d p = (p', g)"
  shows "leak_step p' Y" "g \<noteq> GPing k"
proof -
  have w: "leak_step (p\<lparr>waitDuration := n\<rparr>) Y" for n using assms(1) by (simp add: leak_step_def emptied_def)
  show "leak_step p' Y" "g \<noteq> GPing k"
    using assms w leak_get_section(1)[of p Y cfg now c p' g] leak_get_section(2)[of p Y cfg now c p' g k]
      leak_get_section(1)[of "p\<lparr>waitDuration := waitDuration p + d\<rparr>" Y cfg now c p' g]
      leak_get_section(2)[of "p\<lparr>waitDuration := waitDuration p + d\<rparr>" Y cfg now c p' g k]
    by (auto simp: Get_start_def Get_woken_def Let_def split: if_split_asm)
qed

text \<open>A task \<open>t\<close> that becomes the tasks \<open>us\<close>.\<close>

lemma leak_task:
  assumes inv: "leak_inv s" and t: "nth_task i s = Some t"
    and step: "\<And>Y. leak_step (pool s) (set_mset (task_objs t) \<union> Y) \<Longrightarrow> leak_step p (set_mset (tsum task_objs us) \<union> Y)"
    and us: "\<forall>t \<in> set us. no_ping_task t"
  shows "leak_inv (s\<lparr>pool := p, tasks := us @ drop_nth i (tasks s), held := hs, known := ks\<rparr>)"
proof -
  have "leak_step (pool s) (set_mset (task_objs t) \<union> set_mset (tsum task_objs (drop_nth i (tasks s))))"
    using inv tsum_nth[OF t, of task_objs] by (simp add: leak_inv_alt)
  then show ?thesis using step inv us drop_nth_sub[of i "tasks s"] by (auto simp: leak_inv_alt)
qed

lemmas leak_task_same = leak_task[where hs = "held s" and ks = "known s" and s = s for s, unfolded psys_same]

lemma leak_dialled: "leak_step p (insert k Y) \<Longrightarrow> Get_dialled k p = Some q \<Longrightarrow> leak_step q Y"
  by (rule leak_step_move[of p "insert k Y"])
    (auto simp: Get_dialled_def add_active_def place_def emptied_def leak_step_def split: if_split_asm)

lemma leak_flag: "leak_step p Y \<Longrightarrow> begin_return k p = Some q \<Longrightarrow> leak_step q Y"
  by (rule leak_step_move[of p Y]) (auto simp: begin_return_def place_def emptied_def leak_step_def split: if_split_asm)

lemma leak_act_tasks:
  assumes inv: "leak_inv s" and a: "act cfg a s = Some s'" and np: "\<not> has_ping cfg"
    and k: "a \<in> {ADialFail i, ADialOk i None now, AGot i, ADrop i, APut i now, AMarkSection i}"
  shows "leak_inv s'"
  using k
proof (elim insertE emptyE)
  assume "a = ADialFail i"
  then show ?thesis
    using a leak_task_same[OF inv, of i TDial "Get_dial_failed (pool s)" "[]"]
    by (auto simp: Get_dial_failed_def leak_step_def emptied_def task_objs_def split: option.split_asm task.split_asm)
next
  assume "a = ADialOk i None now"
  then obtain k p where "nth_task i s = Some TDial" "wrapConn None now (pool s) = (k, p)"
    "s' = s\<lparr>pool := p, tasks := [TGot k] @ drop_nth i (tasks s)\<rparr>" using a by (auto split: option.split_asm task.split_asm prod.split_asm)
  then show ?thesis using leak_task_same[OF inv, of i TDial p "[TGot k]"] leak_step_wrap by (auto simp: task_objs_def no_ping_task_def)
next
  assume "a = AGot i"
  then obtain k where k: "nth_task i s = Some (TGot k)" and s': "case Get_dialled k (pool s) of
      Some p \<Rightarrow> s' = s\<lparr>pool := p, tasks := [] @ drop_nth i (tasks s), held := k # held s, known := k # known s\<rparr>
    | None \<Rightarrow> s' = s\<lparr>pool := pool s, tasks := [TDrop k] @ drop_nth i (tasks s)\<rparr>"
    using a by (auto split: option.split_asm task.split_asm option.split)
  show ?thesis
    using s' leak_task[OF inv k, where us = "[]" and hs = "k # held s" and ks = "k # known s"] leak_task_same[OF inv k, of "pool s" "[TDrop k]"] leak_dialled
    by (auto simp: task_objs_def no_ping_task_def split: option.split_asm)
next
  assume "a = ADrop i"
  then show ?thesis
    using a leak_task_same[OF inv, of i "TDrop k" "closeConnLocked k (pool s)" "[]" for k] leak_step_close
    by (auto simp: task_objs_def split: option.split_asm task.split_asm)
next
  assume "a = APut i now"
  then obtain k p ping where "nth_task i s = Some (TPut k)" "put_section cfg now k (pool s) = (p, ping)"
    "s' = s\<lparr>pool := p, tasks := (if ping then [TPingPut k] else []) @ drop_nth i (tasks s)\<rparr>"
    using a by (auto split: option.split_asm task.split_asm prod.split_asm)
  then show ?thesis using leak_task_same[OF inv, of i "TPut k" p "[]"] leak_put_section[OF _ np, of "pool s" _ now k p ping]
      inv[unfolded leak_inv_alt] by (auto simp: task_objs_def)
next
  assume "a = AMarkSection i"
  then show ?thesis
    using a leak_task_same[OF inv, of i "TMark k" "mark_section k (pool s)" "[]" for k] leak_mark
    by (auto simp: task_objs_def split: option.split_asm task.split_asm)
qed

lemma leak_act_gets:
  assumes inv: "leak_inv s" and a: "act cfg a s = Some s'" and np: "\<not> has_ping cfg"
    and k: "a \<in> {AGet now c, AWake i now c d}"
  shows "leak_inv s'"
proof -
  obtain ts p g where s': "s' = after_get now ts s (p, g)" and g: "Get_start cfg now c (pool s) = (p, g) \<or> Get_woken cfg now c d (pool s) = (p, g)"
    and ts: "set ts \<subseteq> set (tasks s)" "leak_step (pool s) (set_mset (tsum task_objs ts))"
  proof -
    consider "s' = after_get now (tasks s) s (Get_start cfg now c (pool s))"
      | "nth_task i s = Some TWait" "s' = after_get now (drop_nth i (tasks s)) s (Get_woken cfg now c d (pool s))"
      using a k by (auto split: option.split_asm task.split_asm)
    then show thesis
    proof cases
      case 1
      show thesis by (rule that[of "tasks s" "fst (Get_start cfg now c (pool s))" "snd (Get_start cfg now c (pool s))"]) (use 1 inv in \<open>simp_all add: leak_inv_alt\<close>)
    next
      case 2
      have "tsum task_objs (tasks s) = tsum task_objs (drop_nth i (tasks s))" using tsum_nth[OF 2(1), of task_objs] by (simp add: task_objs_def)
      then show thesis using that[of "drop_nth i (tasks s)" "fst (Get_woken cfg now c d (pool s))" "snd (Get_woken cfg now c d (pool s))"]
          2 inv drop_nth_sub[of i "tasks s"] by (simp add: leak_inv_alt)
    qed
  qed
  show ?thesis unfolding s'
    by (rule leak_after_get[OF leak_get(1)[OF ts(2) np g] leak_get(2)[OF ts(2) np g]]) (use inv ts(1) in \<open>auto simp: leak_inv_alt\<close>)
qed

lemma leak_act_users:
  assumes inv: "leak_inv s" and a: "act cfg a s = Some s'" and k: "a \<in> {AClose k, AMark k, AStaleClose k, APutOther None now, ARelease}"
  shows "leak_inv s'"
  using k
proof (elim insertE emptyE)
  assume "a = APutOther None now"
  then show ?thesis using a inv leak_put_other[of "pool s"] by (auto simp: leak_inv_alt)
next
  assume "a = ARelease"
  then show ?thesis using a inv leak_step_move[of "pool s" _ "(pool s)\<lparr>closed := True\<rparr>"]
    by (auto simp: leak_inv_alt Release_begin_def task_objs_def no_ping_task_def place_def leak_step_def emptied_def leak_ok_def split: option.split_asm if_split_asm)
qed (use a inv leak_flag[of "pool s" _ k] in \<open>auto simp: leak_inv_alt task_objs_def no_ping_task_def split: option.split_asm if_split_asm\<close>)

lemma nth_task_in: "nth_task i s = Some t \<Longrightarrow> t \<in> set (tasks s)"
  by (auto simp: nth_task_def split: if_splits)

lemma leak_act_clean:
  assumes inv: "leak_inv s" and a: "act cfg a s = Some s'" and k: "a \<in> {AClean now, ACleanNext i, AReleaseEnd i}"
    and rel: "TRelease \<in> set (tasks s) \<Longrightarrow> closed (pool s)"
  shows "leak_inv s'"
  using k
proof (elim insertE emptyE)
  assume "a = AClean now"
  then obtain p out c l where o: "\<not> closed (pool s)" and c: "clean_section cfg now (pool s) = (p, out, c, l)"
    and s': "s' = s\<lparr>pool := p, tasks := TClean out c l # tasks s\<rparr>"
    using a by (auto split: if_split_asm prod.split_asm)
  have "leak_step p (set out \<union> set_mset (tsum task_objs (tasks s)))" using leak_clean[OF _ o c] inv by (simp add: leak_inv_alt)
  then show ?thesis using inv by (simp add: s' leak_inv_alt task_objs_def no_ping_task_def)
next
  assume "a = ACleanNext i"
  then consider k ks c l where "nth_task i s = Some (TClean (k # ks) c l)"
      "s' = s\<lparr>pool := closeConnLocked k (pool s), tasks := [TClean ks c l] @ drop_nth i (tasks s)\<rparr>"
    | c l where "nth_task i s = Some (TClean [] c l)" "s' = s\<lparr>pool := clean_end c l (pool s), tasks := [] @ drop_nth i (tasks s)\<rparr>"
    using a by (auto split: option.split_asm task.split_asm list.split_asm)
  then show ?thesis
  proof cases
    case 1
    show ?thesis unfolding 1(2) by (rule leak_task_same[OF inv 1(1)]) (auto simp: task_objs_def no_ping_task_def intro: leak_step_close)
  next
    case 2
    show ?thesis unfolding 2(2) by (rule leak_task_same[OF inv 2(1)]) (auto simp: task_objs_def clean_end_def leak_step_def emptied_def)
  qed
next
  assume e: "a = AReleaseEnd i"
  then have t: "nth_task i s = Some TRelease" "s' = s\<lparr>pool := Release_end (pool s), tasks := [] @ drop_nth i (tasks s)\<rparr>"
    using a by (auto split: option.split_asm task.split_asm if_split_asm)
  have c: "closed (pool s)" by (rule rel[OF nth_task_in[OF t(1)]])
  show ?thesis unfolding t(2)
    by (rule leak_task_same[OF inv t(1)]) (simp_all add: task_objs_def leak_release_end[OF _ c])
qed

lemma in_drop_nth: "x \<in> set (drop_nth i xs) \<Longrightarrow> x \<in> set xs"
  using drop_nth_sub[of i xs] by blast

lemma after_get_release: "TRelease \<in> set (tasks (after_get now ts s r)) \<Longrightarrow> TRelease \<in> set ts"
  by (cases r) (auto simp: after_get_def split: get_next.split_asm)

lemma act_no_release:
  "act cfg a s = Some s' \<Longrightarrow> TRelease \<in> set (tasks s') \<Longrightarrow> a \<noteq> ARelease \<Longrightarrow> TRelease \<in> set (tasks s)"
  by (induction cfg a s rule: act.induct)
    (auto split: option.split_asm task.split_asm prod.split_asm if_split_asm list.split_asm dest!: after_get_release dest: in_drop_nth)

lemma act_release_closed:
  assumes "TRelease \<in> set (tasks s) \<longrightarrow> closed (pool s)" "act cfg a s = Some s'"
  shows "TRelease \<in> set (tasks s') \<longrightarrow> closed (pool s')"
proof (cases "a = ARelease")
  case True
  then show ?thesis using assms by (auto simp: Release_begin_def split: option.split_asm if_split_asm)
next
  case False
  then show ?thesis using assms act_no_release[OF assms(2)] act_keeps_closed[OF assms(2)] by blast
qed

lemma leak_act:
  assumes inv: "leak_inv s" and rel: "TRelease \<in> set (tasks s) \<longrightarrow> closed (pool s)" and f: "fresh_use a" and np: "\<not> has_ping cfg"
    and a: "act cfg a s = Some s'"
  shows "leak_inv s'"
proof (cases a)
  case (APingGet i c ok)
  then have False using a inv nth_task_in[of i s] by (auto simp: leak_inv_def no_ping_task_def split: option.split_asm task.split_asm)
  then show ?thesis ..
next
  case (APingPut i now ok)
  then have False using a inv nth_task_in[of i s] by (auto simp: leak_inv_def no_ping_task_def split: option.split_asm task.split_asm)
  then show ?thesis ..
qed (use f rel leak_act_gets[OF inv a np] leak_act_tasks[OF inv a np] leak_act_users[OF inv a] leak_act_clean[OF inv a] in
  \<open>auto simp: fresh_use_def\<close>)

lemma leak_run:
  "leak_inv s \<Longrightarrow> TRelease \<in> set (tasks s) \<longrightarrow> closed (pool s) \<Longrightarrow> \<forall>a \<in> set as. fresh_use a \<Longrightarrow> \<not> has_ping cfg \<Longrightarrow>
   run_pool cfg as s = Some s' \<Longrightarrow> leak_inv s'"
proof (induction as arbitrary: s)
  case (Cons a as)
  then obtain t where t: "act cfg a s = Some t" "run_pool cfg as t = Some s'" by (auto split: option.splits)
  show ?case
    by (rule Cons.IH[OF leak_act[OF Cons.prems(1,2) _ Cons.prems(4) t(1)] act_release_closed[OF Cons.prems(2) t(1)]])
      (use Cons.prems(3,4) t(2) in simp_all)
qed simp

lemma leak_init:
  "leak_step p {} \<Longrightarrow> \<not> released p \<Longrightarrow> init_conns now f n p = Inr q \<Longrightarrow> leak_step q {}"
proof (induction n arbitrary: p)
  case (Suc n)
  obtain k r where w: "wrapConn None now p = (k, r)" by fastforce
  have rel: "\<not> released r" using w Suc.prems(2) by (auto simp: wrapConn_def take_obj_def)
  have "leak_step (r\<lparr>idleConns := idleConns r @ [k]\<rparr>) {}"
    by (rule leak_step_move[OF leak_step_wrap[OF Suc.prems(1) w]]) (use rel in \<open>auto simp: place_def emptied_def\<close>)
  then show ?case using Suc.IH[of "r\<lparr>idleConns := idleConns r @ [k]\<rparr>"] Suc.prems(3) rel by (simp add: w split: if_split_asm)
qed simp

lemma leak_new:
  assumes "NewPool cfg n f now = Inr p"
  shows "leak_inv (start p)"
proof -
  obtain g q where q: "init_conns now g (nat n) empty_pool = Inr q" and p: "p = q\<lparr>connCnt := n\<rparr>"
    using assms by (auto simp: NewPool_def sum_bind_Inr_iff split: if_splits option.splits)
  have "leak_step empty_pool {}" by (simp add: leak_step_def leak_ok_def empty_pool_def place_def emptied_def)
  then have "leak_step q {}" by (rule leak_init[OF _ _ q]) (simp add: empty_pool_def)
  then show ?thesis by (simp add: leak_inv_alt start_def p leak_step_def emptied_def)
qed

section \<open>Property\<close>

text \<open>
  C23: A released pool leaks nothing. Without a ping function and without recycled wrappers, once
  \<^verbatim>\<open>Release\<close> and every other call has come to its end, every connection that was ever dialled or
  put into the pool has been closed, exactly once.
\<close>

theorem released_pool_closes_all:
  assumes "NewPool cfg n f now = Inr p" "run_pool cfg as (start p) = Some s" "\<forall>a \<in> set as. fresh_use a" "\<not> has_ping cfg"
    "released (pool s)" "tasks s = []"
  shows "distinct (closedNet (pool s)) \<and> set (closedNet (pool s)) = {..<nextNet (pool s)}"
proof -
  have inv: "leak_inv s" by (rule leak_run[OF leak_new[OF assms(1)] _ assms(3,4,2)]) (simp add: start_def)
  then have "place (pool s) = {}" using assms(5) by (auto simp: leak_inv_def emptied_def place_def)
  then have "leak_ok (pool s) {}" using inv assms(6) by (simp add: leak_inv_def)
  then show ?thesis using leakD(3)[of "pool s" "{}"] leakD(4,5)[of "pool s" "{}"] by blast
qed

theorem released_pool_closes_all_witness:
  "let s = ex_run False [AGet 5 False, AClose 0, AGet 6 False, APut 1 7, AWake 0 8 False 2, ARelease, AReleaseEnd 0, AStaleClose 0, APut 0 9]
   in set (closedNet (pool s)) = {..<nextNet (pool s)} \<and> nextNet (pool s) = 1"
proof -
  let ?as = "[AGet 5 False, AClose 0, AGet 6 False, APut 1 7, AWake 0 8 False 2, ARelease, AReleaseEnd 0, AStaleClose 0, APut 0 9]"
  have r: "run_pool (cfg_ex False) ?as (start (ex_pool False)) = Some (ex_run False ?as)" by (rule ex_run) code_simp
  have f: "\<forall>a \<in> set ?as. fresh_use a" by code_simp
  have p: "\<not> has_ping (cfg_ex False)" by code_simp
  have e: "released (pool (ex_run False ?as))" "tasks (ex_run False ?as) = []" "nextNet (pool (ex_run False ?as)) = 1" by code_simp+
  show ?thesis using released_pool_closes_all[OF ex_pool r f p e(1,2)] e(3) by (simp add: Let_def)
qed

end
