(* ===== verification/LocalCache.thy ===== *)
theory LocalCache
  imports Prelude "HOL-Library.Multiset"
begin

text \<open>
  The in-memory cache of \<^verbatim>\<open>cache/localCache.go\<close>: a map to nodes of a doubly linked list that is
  kept from the newest to the oldest entry. Nodes live in a heap and are numbered; 0 and 1 are
  the sentinels \<^verbatim>\<open>head\<close> and \<^verbatim>\<open>tail\<close>. A nil dereference is a panic. The size of keys and values
  (\<^verbatim>\<open>Of\<close> of \<^verbatim>\<open>cache/size.go\<close>) is an argument, as is the clock. An operation that holds the lock is
  one step.
\<close>

section \<open>State\<close>

record 'v item =
  it_key :: string
  it_value :: "'v option"   \<comment> \<open>\<open>None\<close>: nil\<close>
  it_deadline :: "int option"   \<comment> \<open>\<open>None\<close>: the zero time\<close>
  it_size :: u32
  it_prev :: "nat option"
  it_next :: "nat option"

datatype cache_error = ErrKeyNotFound string | ErrRepeatClose | ErrUnsupportedType

record 'v BuildInMapCache =
  c_data :: "string \<rightharpoonup> nat"
  c_heap :: "nat \<Rightarrow> 'v item"
  c_alloc :: nat              \<comment> \<open>the next new node\<close>
  c_size :: u32
  c_capacity :: u32
  c_evicted :: "(string \<times> 'v option) list"   \<comment> \<open>the calls of \<^verbatim>\<open>onEvicted\<close>\<close>

definition deadlineBefore :: "'v item \<Rightarrow> int \<Rightarrow> bool" where
  "deadlineBefore i t = (case it_deadline i of None \<Rightarrow> False | Some d \<Rightarrow> d < t)"

definition initItem :: "string \<Rightarrow> 'v item" where
  "initItem key = \<lparr>it_key = key, it_value = None, it_deadline = None, it_size = 0, it_prev = None, it_next = None\<rparr>"

definition head :: nat where "head = 0"
definition tail :: nat where "tail = 1"

definition NewBuildInMapCache :: "u32 \<Rightarrow> 'v BuildInMapCache" where
  "NewBuildInMapCache capacity =
     \<lparr>c_data = Map.empty,
      c_heap = (\<lambda>_. initItem [])(head := (initItem ''head'')\<lparr>it_next := Some tail\<rparr>, tail := (initItem ''tail'')\<lparr>it_prev := Some head\<rparr>),
      c_alloc = 2, c_size = 0, c_capacity = capacity, c_evicted = []\<rparr>"

section \<open>The list\<close>

definition deref :: "nat option \<Rightarrow> go_panic + nat" where
  "deref p = (case p of None \<Rightarrow> Inl NilPanic | Some n \<Rightarrow> Inr n)"

definition set_item :: "nat \<Rightarrow> ('v item \<Rightarrow> 'v item) \<Rightarrow> 'v BuildInMapCache \<Rightarrow> 'v BuildInMapCache" where
  "set_item n f b = b\<lparr>c_heap := (c_heap b)(n := f (c_heap b n))\<rparr>"

definition set_next :: "nat \<Rightarrow> nat option \<Rightarrow> 'v BuildInMapCache \<Rightarrow> 'v BuildInMapCache" where
  "set_next n p = set_item n (\<lambda>i. i\<lparr>it_next := p\<rparr>)"

definition set_prev :: "nat \<Rightarrow> nat option \<Rightarrow> 'v BuildInMapCache \<Rightarrow> 'v BuildInMapCache" where
  "set_prev n p = set_item n (\<lambda>i. i\<lparr>it_prev := p\<rparr>)"

definition addToHead :: "nat \<Rightarrow> 'v BuildInMapCache \<Rightarrow> go_panic + 'v BuildInMapCache" where
  "addToHead node b =
     (let b = set_next node (it_next (c_heap b head)) b;
          b = set_prev node (Some head) b
      in sum_bind (deref (it_next (c_heap b head)))
           (\<lambda>first. Inr (set_next head (Some node) (set_prev first (Some node) b))))"

definition removeNode :: "nat \<Rightarrow> 'v BuildInMapCache \<Rightarrow> go_panic + 'v BuildInMapCache" where
  "removeNode node b =
     sum_bind (deref (it_prev (c_heap b node)))
       (\<lambda>p. let b = set_next p (it_next (c_heap b node)) b
            in sum_bind (deref (it_next (c_heap b node)))
                 (\<lambda>n. Inr (set_prev n (it_prev (c_heap b node)) b)))"

definition moveToHead :: "nat \<Rightarrow> 'v BuildInMapCache \<Rightarrow> go_panic + 'v BuildInMapCache" where
  "moveToHead node b = sum_bind (removeNode node b) (addToHead node)"

definition removeTail :: "'v BuildInMapCache \<Rightarrow> go_panic + nat \<times> 'v BuildInMapCache" where
  "removeTail b =
     sum_bind (deref (it_prev (c_heap b tail))) (\<lambda>node. sum_bind (removeNode node b) (\<lambda>b. Inr (node, b)))"

section \<open>Operations\<close>

definition delete :: "string \<Rightarrow> 'v BuildInMapCache \<Rightarrow> 'v BuildInMapCache" where
  "delete key b =
     (case c_data b key of
        None \<Rightarrow> b
      | Some n \<Rightarrow> b\<lparr>c_data := (c_data b)(key := None), c_evicted := c_evicted b @ [(key, it_value (c_heap b n))]\<rparr>)"

definition add_node :: "string \<Rightarrow> 'v \<Rightarrow> int \<Rightarrow> u32 \<Rightarrow> int \<Rightarrow> 'v BuildInMapCache \<Rightarrow> go_panic + 'v BuildInMapCache" where
  "add_node key val expiration pairSize now b =
     (let n = c_alloc b;
          node = \<lparr>it_key = key, it_value = Some val, it_deadline = (if expiration > 0 then Some (now + expiration) else None),
                  it_size = pairSize, it_prev = None, it_next = None\<rparr>;
          b = b\<lparr>c_alloc := Suc n, c_heap := (c_heap b)(n := node), c_data := (c_data b)(key \<mapsto> n)\<rparr>
      in sum_bind (addToHead n b) (\<lambda>b. Inr (b\<lparr>c_size := c_size b + pairSize\<rparr>)))"

text \<open>
  The loop that makes room: \<open>p\<close> goes from the oldest node towards the head, while the node that
  is removed is always the one before the tail.
\<close>

partial_function (option) make_room ::
  "u32 \<Rightarrow> nat option \<Rightarrow> u32 \<Rightarrow> 'v BuildInMapCache \<Rightarrow> (go_panic + 'v BuildInMapCache) option" where
  "make_room pairSize p margin b =
     (if margin < pairSize then
        (case p of
           None \<Rightarrow> Some (Inl NilPanic)
         | Some p \<Rightarrow>
             (case removeTail b of
                Inl e \<Rightarrow> Some (Inl e)
              | Inr (n, b') \<Rightarrow>
                  make_room pairSize (it_prev (c_heap b' p)) (margin + it_size (c_heap b p))
                    (b'\<lparr>c_data := (c_data b')(it_key (c_heap b' n) := None), c_size := c_size b' - it_size (c_heap b' p)\<rparr>)))
      else Some (Inr b))"

definition Set_sized :: "string \<Rightarrow> 'v \<Rightarrow> int \<Rightarrow> u32 \<Rightarrow> int \<Rightarrow> 'v BuildInMapCache \<Rightarrow> (go_panic + 'v BuildInMapCache) option" where
  "Set_sized key val expiration pairSize now b =
     (case c_data b key of
        Some node \<Rightarrow>
          Some (sum_bind (moveToHead node (set_item node (\<lambda>i. i\<lparr>it_value := Some val\<rparr>) b))
                  (add_node key val expiration pairSize now))
      | None \<Rightarrow>
          (case (if c_size b + pairSize > c_capacity b
                 then make_room pairSize (it_prev (c_heap b tail)) (c_capacity b - c_size b) b
                 else Some (Inr b)) of
             None \<Rightarrow> None
           | Some r \<Rightarrow> Some (sum_bind r (add_node key val expiration pairSize now))))"

text \<open>\<open>None\<close>: the call does not return. The sizes are added as 32-bit numbers.\<close>

definition Set :: "(string \<Rightarrow> cache_error + u32) \<Rightarrow> ('v \<Rightarrow> cache_error + u32) \<Rightarrow> string \<Rightarrow> 'v \<Rightarrow> int \<Rightarrow> int \<Rightarrow>
    'v BuildInMapCache \<Rightarrow> (go_panic + 'v BuildInMapCache \<times> cache_error option) option" where
  "Set of_key of_val key val expiration now b =
     (case of_key key of
        Inl e \<Rightarrow> Some (Inr (b, Some e))
      | Inr keySize \<Rightarrow>
          (case of_val val of
             Inl e \<Rightarrow> Some (Inr (b, Some e))
           | Inr valSize \<Rightarrow>
               map_option (\<lambda>r. sum_bind r (\<lambda>b. Inr (b, None))) (Set_sized key val expiration (keySize + valSize) now b)))"

text \<open>
  \<^verbatim>\<open>Get\<close> first looks under the read lock; only for an entry that has expired it goes on to a
  second part under the write lock, before which other calls may have come.
\<close>

datatype 'v looked = Missing | Found "'v option" | Expired

definition Get_look :: "string \<Rightarrow> int \<Rightarrow> 'v BuildInMapCache \<Rightarrow> 'v looked" where
  "Get_look key now b =
     (case c_data b key of
        None \<Rightarrow> Missing
      | Some n \<Rightarrow> if deadlineBefore (c_heap b n) now then Expired else Found (it_value (c_heap b n)))"

definition Get_again :: "string \<Rightarrow> int \<Rightarrow> 'v BuildInMapCache \<Rightarrow> go_panic + 'v BuildInMapCache \<times> (cache_error + 'v option)" where
  "Get_again key now b =
     (case c_data b key of
        None \<Rightarrow> Inr (b, Inl (ErrKeyNotFound key))
      | Some n \<Rightarrow>
          if deadlineBefore (c_heap b n) now then Inr (delete key b, Inl (ErrKeyNotFound key))
          else sum_bind (moveToHead n b) (\<lambda>b. Inr (b, Inr (it_value (c_heap b n)))))"

definition Get :: "string \<Rightarrow> int \<Rightarrow> 'v BuildInMapCache \<Rightarrow> go_panic + 'v BuildInMapCache \<times> (cache_error + 'v option)" where
  "Get key now b =
     (case Get_look key now b of
        Missing \<Rightarrow> Inr (b, Inl (ErrKeyNotFound key))
      | Found v \<Rightarrow> Inr (b, Inr v)
      | Expired \<Rightarrow> Get_again key now b)"

definition Delete :: "string \<Rightarrow> 'v BuildInMapCache \<Rightarrow> 'v BuildInMapCache \<times> cache_error option" where
  "Delete key b = (if c_data b key = None then (b, Some (ErrKeyNotFound key)) else (delete key b, None))"

text \<open>
  A tick of the cleaning goroutine at time \<open>t\<close>; \<open>ks\<close> are the keys in the order of the map, of
  which it visits at most 1001.
\<close>

definition clean :: "int \<Rightarrow> string list \<Rightarrow> 'v BuildInMapCache \<Rightarrow> 'v BuildInMapCache" where
  "clean t ks b =
     fold (\<lambda>k b. case c_data b k of
                   Some n \<Rightarrow> if deadlineBefore (c_heap b n) t then delete k b else b
                 | None \<Rightarrow> b) (take 1001 ks) b"

text \<open>
  \<^verbatim>\<open>Close\<close> sends on an unbuffered channel without blocking, so it succeeds only while the goroutine
  waits at its \<^verbatim>\<open>select\<close>; the goroutine that has received closes the channel and ends.
\<close>

datatype closing = Running | Received | Closed

definition Close :: "bool \<Rightarrow> closing \<Rightarrow> go_panic + closing \<times> cache_error option" where
  "Close waiting c =
     (case c of
        Closed \<Rightarrow> Inl (UserPanic ''send on closed channel'')
      | Received \<Rightarrow> Inr (Received, Some ErrRepeatClose)
      | Running \<Rightarrow> if waiting then Inr (Received, None) else Inr (Running, Some ErrRepeatClose))"

definition close_received :: "closing \<Rightarrow> closing" where
  "close_received c = (case c of Received \<Rightarrow> Closed | _ \<Rightarrow> c)"

section \<open>The list as a sequence of nodes\<close>

fun linked :: "(nat \<Rightarrow> 'v item) \<Rightarrow> nat list \<Rightarrow> bool" where
  "linked h (a # b # ns) = (it_next (h a) = Some b \<and> it_prev (h b) = Some a \<and> linked h (b # ns))"
| "linked h _ = True"

definition payload :: "'v item \<Rightarrow> string \<times> 'v option \<times> int option \<times> u32" where
  "payload i = (it_key i, it_value i, it_deadline i, it_size i)"

definition rep :: "'v BuildInMapCache \<Rightarrow> nat list \<Rightarrow> bool" where
  "rep b xs = (linked (c_heap b) (head # xs @ [tail]) \<and> distinct (head # xs @ [tail]) \<and>
     (\<forall>n \<in> set xs. n < c_alloc b) \<and> 2 \<le> c_alloc b \<and> it_prev (c_heap b head) = None)"

definition same :: "'v BuildInMapCache \<Rightarrow> 'v BuildInMapCache \<Rightarrow> bool" where
  "same b b' = (c_data b' = c_data b \<and> c_size b' = c_size b \<and> c_capacity b' = c_capacity b \<and>
     c_alloc b' = c_alloc b \<and> c_evicted b' = c_evicted b \<and> (\<forall>m. payload (c_heap b' m) = payload (c_heap b m)))"

lemma linked_append: "linked h (xs @ y # zs) \<longleftrightarrow> linked h (xs @ [y]) \<and> linked h (y # zs)"
  by (induction h xs rule: linked.induct) (auto simp: neq_Nil_conv Cons_eq_append_conv)

lemma linked_next_upd: "n \<notin> set (butlast ns) \<Longrightarrow> linked (h(n := (h n)\<lparr>it_next := p\<rparr>)) ns = linked h ns"
  by (induction h ns rule: linked.induct) (auto split: if_splits)

lemma linked_prev_upd: "n \<notin> set (tl ns) \<Longrightarrow> linked (h(n := (h n)\<lparr>it_prev := p\<rparr>)) ns = linked h ns"
  by (induction h ns rule: linked.induct) (auto split: if_splits)

lemma linked_value_upd: "linked (h(n := (h n)\<lparr>it_value := v\<rparr>)) ns = linked h ns"
  by (induction h ns rule: linked.induct) (auto split: if_splits)

lemma linked_fresh_upd: "n \<notin> set ns \<Longrightarrow> linked (h(n := i)) ns = linked h ns"
  by (induction h ns rule: linked.induct) (auto split: if_splits)

lemma same_refl [simp]: "same b b"
  by (simp add: same_def)

lemma same_trans: "same a b \<Longrightarrow> same b c \<Longrightarrow> same a c"
  by (simp add: same_def)

lemma same_links [simp]: "same a (set_next n p b) = same a b" "same a (set_prev n p b) = same a b"
  by (auto simp: same_def set_next_def set_prev_def set_item_def payload_def)

lemma heap_links [simp]:
  "c_heap (set_next n p b) = (c_heap b)(n := (c_heap b n)\<lparr>it_next := p\<rparr>)"
  "c_heap (set_prev n p b) = (c_heap b)(n := (c_heap b n)\<lparr>it_prev := p\<rparr>)"
  by (simp_all add: set_next_def set_prev_def set_item_def)

lemma alloc_links [simp]: "c_alloc (set_next n p b) = c_alloc b" "c_alloc (set_prev n p b) = c_alloc b"
  by (simp_all add: set_next_def set_prev_def set_item_def)

lemma rep_first: "rep b xs \<Longrightarrow> it_next (c_heap b head) = Some (hd (xs @ [tail]))"
  by (cases xs) (simp_all add: rep_def)

lemma rep_last: "rep b xs \<Longrightarrow> it_prev (c_heap b tail) = Some (last (head # xs))"
proof (cases xs rule: rev_cases)
  case (snoc ys y)
  assume "rep b xs"
  then have "linked (c_heap b) ((head # ys) @ y # [tail])" by (simp add: rep_def snoc)
  then show ?thesis using linked_append [of "c_heap b" "head # ys" y "[tail]"] by (simp add: snoc)
qed (simp add: rep_def)

lemma list_around:
  obtains as p q bs where "head # xs = as @ [p]" "ys @ [tail] = q # bs"
  by (metis append_butlast_last_id list.collapse list.distinct(1) snoc_eq_iff_butlast)

lemma in_set_tlD: "x \<in> set (tl xs) \<Longrightarrow> x \<in> set xs"
  by (cases xs) simp_all

lemma linked_unlink:
  assumes "linked h (as @ p # n # q # bs)" "distinct (as @ p # n # q # bs)"
  shows "linked (h(p := (h p)\<lparr>it_next := Some q\<rparr>, q := (h q)\<lparr>it_prev := Some p\<rparr>)) (as @ p # q # bs)"
proof -
  have l: "linked h (as @ [p])" "linked h (q # bs)"
    using assms(1) linked_append [of h as p "n # q # bs"] by simp_all
  let ?h = "h(p := (h p)\<lparr>it_next := Some q\<rparr>)"
  have "linked (?h(q := (?h q)\<lparr>it_prev := Some p\<rparr>)) (as @ [p])"
    using assms(2) l(1) by (subst linked_prev_upd) (auto simp: linked_next_upd butlast_append dest: in_set_tlD)
  moreover have "linked (?h(q := (?h q)\<lparr>it_prev := Some p\<rparr>)) (q # bs)"
    using assms(2) l(2) by (subst linked_prev_upd) (simp_all add: linked_fresh_upd)
  moreover have "?h q = h q" using assms(2) by simp
  ultimately show ?thesis
    using assms(2) by (subst linked_append) simp
qed

lemma linked_insert_head:
  assumes "linked h (p # q # bs)" "distinct (p # n # q # bs)" "it_next (h n) = Some q" "it_prev (h n) = Some p"
  shows "linked (h(q := (h q)\<lparr>it_prev := Some n\<rparr>, p := ((h(q := (h q)\<lparr>it_prev := Some n\<rparr>)) p)\<lparr>it_next := Some n\<rparr>)) (p # n # q # bs)"
proof -
  let ?h = "h(q := (h q)\<lparr>it_prev := Some n\<rparr>)"
  have "linked (?h(p := (?h p)\<lparr>it_next := Some n\<rparr>)) (q # bs)"
    using assms(1,2) by (subst linked_fresh_upd) (auto simp: linked_prev_upd)
  then show ?thesis using assms by simp
qed

lemma removeNode_rep:
  assumes "rep b (xs @ n # ys)"
  obtains b' where "removeNode n b = Inr b'" "rep b' (xs @ ys)" "same b b'"
    "c_heap b' n = c_heap b n"
proof -
  obtain as p q bs where s: "head # xs = as @ [p]" "ys @ [tail] = q # bs"
    by (rule list_around)
  have full: "head # (xs @ n # ys) @ [tail] = as @ p # n # q # bs" "head # (xs @ ys) @ [tail] = as @ p # q # bs"
    using s by (metis append.assoc append_Cons append_Nil)+
  have l: "linked (c_heap b) (as @ p # n # q # bs)" "distinct (as @ p # n # q # bs)"
    using assms unfolding rep_def full by simp_all
  have lk: "it_prev (c_heap b n) = Some p" "it_next (c_heap b n) = Some q"
    using l(1) linked_append [of "c_heap b" as p "n # q # bs"] by simp_all
  have ne: "p \<noteq> n" "q \<noteq> n" "p \<noteq> q" "n \<noteq> p" using l(2) by auto
  let ?b = "set_prev q (Some p) (set_next p (Some q) b)"
  have q: "q \<noteq> head" using s(2) assms unfolding rep_def by (cases ys) auto
  have "removeNode n b = Inr ?b" using ne by (simp add: removeNode_def lk deref_def Let_def)
  moreover have "rep ?b (xs @ ys)"
  proof -
    have "linked (c_heap ?b) (as @ p # q # bs)" using linked_unlink [OF l] ne(3) by simp
    moreover have "distinct (as @ p # q # bs)" using l(2) by auto
    moreover have "it_prev (c_heap ?b head) = None" using assms q by (simp add: rep_def)
    moreover have "\<forall>m \<in> set (xs @ ys). m < c_alloc ?b" "2 \<le> c_alloc ?b" using assms by (auto simp: rep_def)
    ultimately show ?thesis unfolding rep_def full by (intro conjI)
  qed
  moreover have "same b ?b" by simp
  moreover have "c_heap ?b n = c_heap b n" using ne by simp
  ultimately show ?thesis using that by blast
qed

lemma addToHead_rep:
  assumes "rep b xs" "n \<notin> set xs" "n \<noteq> head" "n \<noteq> tail" "n < c_alloc b"
  obtains b' where "addToHead n b = Inr b'" "rep b' (n # xs)" "same b b'"
proof -
  obtain q bs where s: "xs @ [tail] = q # bs" by (cases xs) auto
  have l: "linked (c_heap b) (head # q # bs)" "distinct (head # n # q # bs)"
    using assms unfolding rep_def s [symmetric] by auto
  let ?c = "set_prev n (Some head) (set_next n (Some q) b)"
  let ?b = "set_next head (Some n) (set_prev q (Some n) ?c)"
  have f: "it_next (c_heap b head) = Some q" using l(1) by simp
  have "addToHead n b = Inr ?b" using assms(3) f by (simp add: addToHead_def deref_def Let_def)
  moreover have "rep ?b (n # xs)"
  proof -
    have "linked (c_heap ?c) (head # q # bs)"
      using l by (simp add: linked_fresh_upd)
    then have "linked (c_heap ?b) (head # (n # xs) @ [tail])"
      unfolding append_Cons s heap_links(1) heap_links(2) [of q "Some n" ?c]
      using l(2) by (rule linked_insert_head) (use assms(3) l(2) in auto)
    moreover have "distinct (head # (n # xs) @ [tail])" unfolding append_Cons s by (rule l(2))
    moreover have "it_prev (c_heap ?b head) = None" using assms(1,3) l(2) by (auto simp: rep_def)
    moreover have "\<forall>m \<in> set (n # xs). m < c_alloc ?b" "2 \<le> c_alloc ?b" using assms(1,5) by (simp_all add: rep_def)
    ultimately show ?thesis unfolding rep_def by (intro conjI)
  qed
  moreover have "same b ?b" by simp
  ultimately show ?thesis using that by blast
qed

section \<open>Invariant\<close>

definition sizes :: "'v BuildInMapCache \<Rightarrow> nat list \<Rightarrow> u32" where
  "sizes b xs = sum_list (map (\<lambda>n. it_size (c_heap b n)) xs)"

definition entries_ok :: "'v BuildInMapCache \<Rightarrow> nat list \<Rightarrow> bool" where
  "entries_ok b xs = (\<forall>k n. c_data b k = Some n \<longrightarrow> n \<in> set xs \<and> it_key (c_heap b n) = k)"

text \<open>
  The list is well linked in both directions, the entries of the map are nodes of it under their
  own key, and the recorded size is the sum of the sizes in the list (as a 32-bit number).
\<close>

definition cache_inv :: "'v BuildInMapCache \<Rightarrow> bool" where
  "cache_inv b = (\<exists>xs. rep b xs \<and> entries_ok b xs \<and> c_size b = sizes b xs)"

lemma cache_invI: "rep b xs \<Longrightarrow> entries_ok b xs \<Longrightarrow> c_size b = sizes b xs \<Longrightarrow> cache_inv b"
  by (auto simp: cache_inv_def)

lemma same_heap: "same b b' \<Longrightarrow> it_key (c_heap b' n) = it_key (c_heap b n) \<and> it_value (c_heap b' n) = it_value (c_heap b n) \<and>
    it_deadline (c_heap b' n) = it_deadline (c_heap b n) \<and> it_size (c_heap b' n) = it_size (c_heap b n)"
  by (simp add: same_def payload_def)

lemma same_fields: "same b b' \<Longrightarrow> c_data b' = c_data b \<and> c_size b' = c_size b \<and> c_capacity b' = c_capacity b \<and> c_alloc b' = c_alloc b \<and>
    c_evicted b' = c_evicted b"
  by (simp add: same_def)

lemma same_sizes: "same b b' \<Longrightarrow> sizes b' xs = sizes b xs"
  by (simp add: sizes_def same_heap)

lemma same_entries: "same b b' \<Longrightarrow> entries_ok b' xs = entries_ok b xs"
  by (simp add: entries_ok_def same_heap same_fields)

lemma rep_distinct: "rep b xs \<Longrightarrow> distinct xs \<and> head \<notin> set xs \<and> tail \<notin> set xs \<and> (\<forall>n \<in> set xs. n < c_alloc b)"
  by (simp add: rep_def)

lemma moveToHead_rep:
  assumes "rep b xs" "n \<in> set xs"
  obtains b' ys where "moveToHead n b = Inr b'" "rep b' ys" "same b b'" "mset ys = mset xs"
proof -
  obtain as bs where xs: "xs = as @ n # bs" using assms(2) by (meson split_list)
  from removeNode_rep [OF assms(1) [unfolded xs]]
  obtain b1 where 1: "removeNode n b = Inr b1" "rep b1 (as @ bs)" "same b b1" .
  have "n \<notin> set (as @ bs)" "n \<noteq> head" "n \<noteq> tail" "n < c_alloc b1"
    using rep_distinct [OF assms(1)] same_fields [OF 1(3)] by (auto simp: xs)
  from addToHead_rep [OF 1(2) this] obtain b2 where 2: "addToHead n b1 = Inr b2" "rep b2 (n # as @ bs)" "same b1 b2" .
  show ?thesis
    by (rule that [of b2 "n # as @ bs"]) (use 1 2 same_trans [OF 1(3) 2(3)] in \<open>simp_all add: moveToHead_def xs\<close>)
qed

lemma sizes_mset: "mset ys = mset xs \<Longrightarrow> sizes b ys = sizes b xs"
  unfolding sizes_def by (metis mset_map sum_mset_sum_list)

lemma entries_mset: "mset ys = mset xs \<Longrightarrow> entries_ok b ys = entries_ok b xs"
  unfolding entries_ok_def by (metis set_mset_mset)

lemma moveToHead_inv:
  assumes "cache_inv b" "c_data b k = Some n"
  obtains b' where "moveToHead n b = Inr b'" "cache_inv b'" "same b b'"
proof -
  obtain xs where xs: "rep b xs" "entries_ok b xs" "c_size b = sizes b xs" using assms(1) by (auto simp: cache_inv_def)
  have "n \<in> set xs" using xs(2) assms(2) by (auto simp: entries_ok_def)
  from moveToHead_rep [OF xs(1) this] obtain b' ys
    where 1: "moveToHead n b = Inr b'" "rep b' ys" "same b b'" "mset ys = mset xs" .
  have "cache_inv b'"
    using 1(2) by (rule cache_invI)
      (use xs same_entries [OF 1(3)] same_fields [OF 1(3)] same_sizes [OF 1(3)] entries_mset [OF 1(4), of b] sizes_mset [OF 1(4), of b] in simp_all)
  with 1 show ?thesis using that by blast
qed

lemma removeTail_rep:
  assumes "rep b (xs @ [n])"
  obtains b' where "removeTail b = Inr (n, b')" "rep b' xs" "same b b'" "it_prev (c_heap b' n) = Some (last (head # xs))"
proof -
  obtain b' where 1: "removeNode n b = Inr b'" "rep b' xs" "same b b'" "c_heap b' n = c_heap b n"
    using removeNode_rep [of b xs n "[]"] assms by auto
  have "it_prev (c_heap b n) = Some (last (head # xs))"
  proof (cases xs rule: rev_cases)
    case (snoc ys y)
    then have "linked (c_heap b) ((head # ys) @ y # [n, tail])" using assms by (simp add: rep_def)
    then show ?thesis using linked_append [of "c_heap b" "head # ys" y "[n, tail]"] by (simp add: snoc)
  qed (use assms in \<open>simp add: rep_def\<close>)
  moreover have "it_prev (c_heap b tail) = Some n" using rep_last [OF assms] by simp
  ultimately show ?thesis
    by (intro that [of b']) (use 1 in \<open>simp_all add: removeTail_def deref_def\<close>)
qed

lemma removeTail_empty: "rep b [] \<Longrightarrow> removeTail b = Inl NilPanic"
  using rep_last [of b "[]"] by (simp add: removeTail_def removeNode_def deref_def rep_def)

section \<open>Making room\<close>

definition dropped :: "'v BuildInMapCache \<Rightarrow> 'v BuildInMapCache \<Rightarrow> nat list \<Rightarrow> bool" where
  "dropped b b' zs = (c_capacity b' = c_capacity b \<and> c_alloc b' = c_alloc b \<and> c_evicted b' = c_evicted b \<and>
     (\<forall>m. payload (c_heap b' m) = payload (c_heap b m)) \<and>
     c_data b' = (\<lambda>k. if k \<in> (\<lambda>n. it_key (c_heap b n)) ` set zs then None else c_data b k))"

lemma rep_cong: "c_heap b' = c_heap b \<Longrightarrow> c_alloc b' = c_alloc b \<Longrightarrow> rep b' xs = rep b xs"
  by (simp add: rep_def)

lemma dropped_refl: "dropped b b []"
  by (simp add: dropped_def)

lemma dropped_trans: "dropped a b zs \<Longrightarrow> dropped b c ys \<Longrightarrow> dropped a c (ys @ zs)"
  by (auto simp: dropped_def payload_def fun_eq_iff)

lemma drop_last:
  assumes "rep b (xs @ [n])" "entries_ok b (xs @ [n])" "c_size b = sizes b (xs @ [n])"
  obtains b1 b2 where "removeTail b = Inr (n, b1)" "it_prev (c_heap b1 n) = it_prev (c_heap b2 tail)"
    "b2 = b1\<lparr>c_data := (c_data b1)(it_key (c_heap b1 n) := None), c_size := c_size b1 - it_size (c_heap b1 n)\<rparr>"
    "rep b2 xs" "entries_ok b2 xs" "c_size b2 = sizes b2 xs" "dropped b b2 [n]" "c_size b2 = c_size b - it_size (c_heap b n)"
proof -
  from removeTail_rep [OF assms(1)] obtain b1
    where 1: "removeTail b = Inr (n, b1)" "rep b1 xs" "same b b1" "it_prev (c_heap b1 n) = Some (last (head # xs))" .
  let ?b = "b1\<lparr>c_data := (c_data b1)(it_key (c_heap b1 n) := None), c_size := c_size b1 - it_size (c_heap b1 n)\<rparr>"
  have r: "rep ?b xs" using 1(2) by (subst rep_cong [of _ b1]) simp_all
  have "entries_ok ?b xs"
    using assms(2) same_fields [OF 1(3)] same_heap [OF 1(3)]
    by (auto simp: entries_ok_def split: if_splits)
  moreover have "c_size ?b = sizes ?b xs"
    using assms(3) same_fields [OF 1(3)] same_sizes [OF 1(3)] same_heap [OF 1(3)] by (simp add: sizes_def)
  moreover have "dropped b ?b [n]"
    using 1(3) same_heap [OF 1(3)] by (auto simp: dropped_def same_def)
  moreover have "c_size ?b = c_size b - it_size (c_heap b n)"
    using same_fields [OF 1(3)] same_heap [OF 1(3)] by simp
  moreover have "it_prev (c_heap b1 n) = it_prev (c_heap ?b tail)" using 1(4) rep_last [OF r] by simp
  ultimately show ?thesis using that [of b1 ?b] 1(1) r by blast
qed

lemma make_room_ok:
  assumes "rep b xs" "entries_ok b xs" "c_size b = sizes b xs"
  shows "make_room pairSize (it_prev (c_heap b tail)) (c_capacity b - c_size b) b = Some (Inl NilPanic) \<and> c_capacity b < pairSize \<or>
    (\<exists>b' ys zs. make_room pairSize (it_prev (c_heap b tail)) (c_capacity b - c_size b) b = Some (Inr b') \<and>
    xs = ys @ zs \<and> rep b' ys \<and> entries_ok b' ys \<and> c_size b' = sizes b' ys \<and> dropped b b' zs \<and>
    pairSize \<le> c_capacity b - c_size b')"
  using assms
proof (induction xs arbitrary: b rule: rev_induct)
  case Nil
  then have c: "c_size b = 0" by (simp add: sizes_def)
  show ?case
  proof (cases "c_capacity b < pairSize")
    case True
    then show ?thesis using Nil(1) by (subst make_room.simps) (simp add: c removeTail_empty rep_last)
  next
    case False
    then have "make_room pairSize (it_prev (c_heap b tail)) (c_capacity b - c_size b) b = Some (Inr b)"
      by (subst make_room.simps) (simp add: c)
    with False Nil show ?thesis
      by (intro disjI2 exI [of _ b] exI [of _ "[]"]) (simp add: dropped_refl sizes_def)
  qed
next
  case (snoc n xs)
  show ?case
  proof (cases "c_capacity b - c_size b < pairSize")
    case False
    then have "make_room pairSize (it_prev (c_heap b tail)) (c_capacity b - c_size b) b = Some (Inr b)"
      by (simp add: make_room.simps)
    with False snoc.prems show ?thesis
      by (intro disjI2 exI [of _ b] exI [of _ "xs @ [n]"] exI [of _ "[]"]) (simp add: dropped_refl)
  next
    case True
    from drop_last [OF snoc.prems(1-3)] obtain b1 b2
      where 1: "removeTail b = Inr (n, b1)" "it_prev (c_heap b1 n) = it_prev (c_heap b2 tail)"
        "b2 = b1\<lparr>c_data := (c_data b1)(it_key (c_heap b1 n) := None), c_size := c_size b1 - it_size (c_heap b1 n)\<rparr>"
        and 2: "rep b2 xs" "entries_ok b2 xs" "c_size b2 = sizes b2 xs" "dropped b b2 [n]"
        "c_size b2 = c_size b - it_size (c_heap b n)" .
    have cap: "c_capacity b2 = c_capacity b" using 2(4) by (simp add: dropped_def)
    have p: "it_prev (c_heap b tail) = Some n" using rep_last [OF snoc.prems(1)] by simp
    have m: "c_capacity b - c_size b + it_size (c_heap b n) = c_capacity b2 - c_size b2" by (simp add: 2(5) cap)
    have "make_room pairSize (it_prev (c_heap b tail)) (c_capacity b - c_size b) b =
        make_room pairSize (it_prev (c_heap b2 tail)) (c_capacity b2 - c_size b2) b2"
      using True by (subst make_room.simps) (simp add: p 1(1) 1(2) m 1(3) [symmetric])
    moreover have "make_room pairSize (it_prev (c_heap b2 tail)) (c_capacity b2 - c_size b2) b2 = Some (Inl NilPanic) \<and> c_capacity b < pairSize \<or>
        (\<exists>b' ys zs. make_room pairSize (it_prev (c_heap b2 tail)) (c_capacity b2 - c_size b2) b2 = Some (Inr b') \<and> xs = ys @ zs \<and>
          rep b' ys \<and> entries_ok b' ys \<and> c_size b' = sizes b' ys \<and> dropped b2 b' zs \<and> pairSize \<le> c_capacity b - c_size b')"
      using snoc.IH [OF 2(1-3)] cap by simp
    ultimately show ?thesis using dropped_trans [OF 2(4)] by (simp only:) (metis append.assoc)
  qed
qed

section \<open>Storing an entry\<close>

definition deadline_of :: "int \<Rightarrow> int \<Rightarrow> int option" where
  "deadline_of expiration now = (if expiration > 0 then Some (now + expiration) else None)"

definition stored :: "string \<Rightarrow> 'v \<Rightarrow> int option \<Rightarrow> u32 \<Rightarrow> 'v BuildInMapCache \<Rightarrow> 'v BuildInMapCache \<Rightarrow> bool" where
  "stored key val dl pairSize b b' =
     (c_data b' = (c_data b)(key \<mapsto> c_alloc b) \<and> c_alloc b' = Suc (c_alloc b) \<and> c_capacity b' = c_capacity b \<and>
      c_evicted b' = c_evicted b \<and> c_size b' = c_size b + pairSize \<and>
      payload (c_heap b' (c_alloc b)) = (key, Some val, dl, pairSize) \<and>
      (\<forall>m. m \<noteq> c_alloc b \<longrightarrow> payload (c_heap b' m) = payload (c_heap b m)))"

lemma add_node_ok:
  assumes "rep b xs" "entries_ok b xs" "c_size b = sizes b xs"
  obtains b' where "add_node key val expiration pairSize now b = Inr b'" "rep b' (c_alloc b # xs)"
    "entries_ok b' (c_alloc b # xs)" "c_size b' = sizes b' (c_alloc b # xs)"
    "stored key val (deadline_of expiration now) pairSize b b'"
proof -
  let ?n = "c_alloc b"
  let ?node = "\<lparr>it_key = key, it_value = Some val, it_deadline = deadline_of expiration now,
                it_size = pairSize, it_prev = None, it_next = None\<rparr>"
  let ?b1 = "b\<lparr>c_alloc := Suc ?n, c_heap := (c_heap b)(?n := ?node), c_data := (c_data b)(key \<mapsto> ?n)\<rparr>"
  have n: "?n \<notin> set xs" "?n \<noteq> head" "?n \<noteq> tail"
    using assms(1) by (auto simp: rep_def head_def tail_def)
  have "rep ?b1 xs"
    using assms(1) n by (auto simp: rep_def linked_fresh_upd)
  from addToHead_rep [OF this n] obtain b2
    where 2: "addToHead ?n ?b1 = Inr b2" "rep b2 (?n # xs)" "same ?b1 b2" by auto
  let ?b = "b2\<lparr>c_size := c_size b2 + pairSize\<rparr>"
  have p: "payload (c_heap b2 m) = (if m = ?n then (key, Some val, deadline_of expiration now, pairSize) else payload (c_heap b m))" for m
    using 2(3) by (simp add: same_def payload_def)
  have h: "it_key (c_heap b2 m) = (if m = ?n then key else it_key (c_heap b m))"
    "it_size (c_heap b2 m) = (if m = ?n then pairSize else it_size (c_heap b m))" for m
    using p [of m] by (auto simp: payload_def split: if_splits)
  have f: "c_data b2 = (c_data b)(key \<mapsto> ?n)" "c_size b2 = c_size b" "c_capacity b2 = c_capacity b" "c_alloc b2 = Suc ?n" "c_evicted b2 = c_evicted b"
    using same_fields [OF 2(3)] by simp_all
  have "add_node key val expiration pairSize now b = Inr ?b"
    using 2(1) by (simp add: add_node_def Let_def deadline_of_def)
  moreover have "rep ?b (?n # xs)" using 2(2) by (subst rep_cong [of _ b2]) simp_all
  moreover have "entries_ok ?b (?n # xs)" using assms(2) n(1) by (auto simp: entries_ok_def f h)
  moreover have "c_size ?b = sizes ?b (?n # xs)"
  proof -
    have "sizes ?b xs = sizes b xs"
      unfolding sizes_def using n(1) by (intro arg_cong [of _ _ sum_list] map_cong) (auto simp: h)
    moreover have "sizes ?b (?n # xs) = pairSize + sizes ?b xs" by (simp add: sizes_def h(2) [of ?n])
    ultimately show ?thesis using assms(3) by (simp add: f(2))
  qed
  moreover have "stored key val (deadline_of expiration now) pairSize b ?b" by (simp add: stored_def f p)
  ultimately show ?thesis using that by blast
qed

lemma set_value_inv:
  assumes "rep b xs" "entries_ok b xs" "c_size b = sizes b xs"
  shows "rep (set_item n (\<lambda>i. i\<lparr>it_value := v\<rparr>) b) xs" "entries_ok (set_item n (\<lambda>i. i\<lparr>it_value := v\<rparr>) b) xs"
    "c_size (set_item n (\<lambda>i. i\<lparr>it_value := v\<rparr>) b) = sizes (set_item n (\<lambda>i. i\<lparr>it_value := v\<rparr>) b) xs"
proof -
  show "rep (set_item n (\<lambda>i. i\<lparr>it_value := v\<rparr>) b) xs"
    using assms(1) by (simp add: rep_def set_item_def linked_value_upd)
  show "entries_ok (set_item n (\<lambda>i. i\<lparr>it_value := v\<rparr>) b) xs"
    using assms(2) by (simp add: entries_ok_def set_item_def)
  have "it_size (c_heap (set_item n (\<lambda>i. i\<lparr>it_value := v\<rparr>) b) m) = it_size (c_heap b m)" for m
    by (simp add: set_item_def)
  then have "sizes (set_item n (\<lambda>i. i\<lparr>it_value := v\<rparr>) b) xs = sizes b xs" by (simp add: sizes_def)
  then show "c_size (set_item n (\<lambda>i. i\<lparr>it_value := v\<rparr>) b) = sizes (set_item n (\<lambda>i. i\<lparr>it_value := v\<rparr>) b) xs"
    using assms(3) by (simp add: set_item_def)
qed

text \<open>
  Whatever branch is taken, the entry is added to a state \<open>b1\<close> that keeps or drops each of the
  other entries.
\<close>

definition kept :: "string \<Rightarrow> 'v BuildInMapCache \<Rightarrow> 'v BuildInMapCache \<Rightarrow> bool" where
  "kept key b b1 = (\<forall>k. k \<noteq> key \<longrightarrow> c_data b1 k = None \<or>
     (\<exists>n. c_data b1 k = Some n \<and> c_data b k = Some n \<and> payload (c_heap b1 n) = payload (c_heap b n)))"

lemma Set_sized_fresh:
  assumes "rep b xs" "entries_ok b xs" "c_size b = sizes b xs" "c_data b key = None"
  obtains "Set_sized key val expiration pairSize now b = Some (Inl NilPanic)" "c_capacity b < pairSize"
  | b1 b' ys zs where "Set_sized key val expiration pairSize now b = Some (Inr b')" "xs = ys @ zs"
    "dropped b b1 zs" "rep b1 ys" "entries_ok b1 ys" "c_size b1 = sizes b1 ys"
    "rep b' (c_alloc b1 # ys)" "entries_ok b' (c_alloc b1 # ys)" "c_size b' = sizes b' (c_alloc b1 # ys)"
    "stored key val (deadline_of expiration now) pairSize b1 b'"
    "c_size b1 + pairSize \<le> c_capacity b \<and> zs = [] \<or> pairSize \<le> c_capacity b - c_size b1"
proof -
  let ?r = "if c_size b + pairSize > c_capacity b then make_room pairSize (it_prev (c_heap b tail)) (c_capacity b - c_size b) b
      else Some (Inr b)"
  have "?r = Some (Inl NilPanic) \<and> c_capacity b < pairSize \<or>
      (\<exists>b1 ys zs. ?r = Some (Inr b1) \<and> xs = ys @ zs \<and> rep b1 ys \<and> entries_ok b1 ys \<and> c_size b1 = sizes b1 ys \<and> dropped b b1 zs \<and>
      (c_size b1 + pairSize \<le> c_capacity b \<and> zs = [] \<or> pairSize \<le> c_capacity b - c_size b1))"
  proof (cases "c_size b + pairSize > c_capacity b")
    case True
    with make_room_ok [OF assms(1-3), of pairSize] show ?thesis by auto
  next
    case False
    then show ?thesis
      using assms(1-3) dropped_refl [of b] leI [OF False]
      by - (rule disjI2, rule exI [of _ b], rule exI [of _ xs], rule exI [of _ "[]"], simp)
  qed
  then consider "?r = Some (Inl NilPanic)" "c_capacity b < pairSize"
    | b1 ys zs where "?r = Some (Inr b1)" "xs = ys @ zs" "rep b1 ys" "entries_ok b1 ys" "c_size b1 = sizes b1 ys" "dropped b b1 zs"
      "c_size b1 + pairSize \<le> c_capacity b \<and> zs = [] \<or> pairSize \<le> c_capacity b - c_size b1" by blast
  then show ?thesis
  proof cases
    case 1
    then show ?thesis using that(1) assms(4) by (simp add: Set_sized_def)
  next
    case (2 b1 ys zs)
    from add_node_ok [OF 2(3-5)] obtain b' where 3: "add_node key val expiration pairSize now b1 = Inr b'"
      "rep b' (c_alloc b1 # ys)" "entries_ok b' (c_alloc b1 # ys)" "c_size b' = sizes b' (c_alloc b1 # ys)"
      "stored key val (deadline_of expiration now) pairSize b1 b'" .
    have "Set_sized key val expiration pairSize now b = Some (Inr b')"
      using 2(1) 3(1) assms(4) by (simp add: Set_sized_def)
    from that(2) [OF this 2(2,6,3-5) 3(2-5) 2(7)] show ?thesis .
  qed
qed

lemma Set_sized_ok:
  assumes "cache_inv b"
  obtains "Set_sized key val expiration pairSize now b = Some (Inl NilPanic)" "c_data b key = None" "c_capacity b < pairSize"
  | b1 b' where "Set_sized key val expiration pairSize now b = Some (Inr b')" "cache_inv b'"
    "stored key val (deadline_of expiration now) pairSize b1 b'" "kept key b b1" "cache_inv b1"
proof -
  obtain xs where xs: "rep b xs" "entries_ok b xs" "c_size b = sizes b xs" using assms by (auto simp: cache_inv_def)
  note add = add_node_ok [of _ _ key val expiration pairSize now]
  show ?thesis
  proof (cases "c_data b key")
    case (Some n)
    let ?b0 = "set_item n (\<lambda>i. i\<lparr>it_value := Some val\<rparr>) b"
    have "cache_inv ?b0" using set_value_inv [OF xs] by (rule cache_invI)
    moreover have "c_data ?b0 key = Some n" by (simp add: set_item_def Some)
    ultimately obtain b1 where 1: "moveToHead n ?b0 = Inr b1" "cache_inv b1" "same ?b0 b1" by (rule moveToHead_inv)
    obtain ys where ys: "rep b1 ys" "entries_ok b1 ys" "c_size b1 = sizes b1 ys" using 1(2) by (auto simp: cache_inv_def)
    from add [OF ys] obtain b' where 2: "add_node key val expiration pairSize now b1 = Inr b'" "cache_inv b'"
      "stored key val (deadline_of expiration now) pairSize b1 b'" by (metis cache_invI)
    have "payload (c_heap b1 m) = payload (c_heap b m)" if "c_data b k = Some m" "k \<noteq> key" for k m
    proof -
      have "m \<noteq> n" using xs(2) Some that by (auto simp: entries_ok_def)
      then show ?thesis using 1(3) by (simp add: same_def set_item_def)
    qed
    moreover have "c_data b1 = c_data b" using 1(3) by (simp add: same_def set_item_def)
    ultimately have "kept key b b1" by (simp add: kept_def) (meson not_None_eq)
    then show ?thesis using that(2) [of b' b1] 1(1,2) 2 Some by (simp add: Set_sized_def)
  next
    case None
    from xs None show ?thesis
    proof (cases rule: Set_sized_fresh [of b xs key val expiration pairSize now])
      case 1
      then show ?thesis using that(1) None by blast
    next
      case (2 b1 b' ys zs)
      have "kept key b b1" using 2(3) by (auto simp: kept_def dropped_def split: if_splits)
      then show ?thesis using that(2) [of b' b1] 2(1,10) cache_invI [OF 2(4-6)] cache_invI [OF 2(7-9)] by simp
    qed
  qed
qed

lemma stored_kept_look:
  assumes "stored key val (deadline_of expiration now) pairSize b1 b'" "kept key b b1" "cache_inv b1"
  shows "expiration \<le> 0 \<or> t \<le> now + expiration \<Longrightarrow> Get_look key t b' = Found (Some val)"
    "k \<noteq> key \<Longrightarrow> Get_look k t b' \<in> {Missing, Get_look k t b}"
proof -
  show "Get_look key t b' = Found (Some val)" if "expiration \<le> 0 \<or> t \<le> now + expiration"
    using assms(1) that by (auto simp: stored_def Get_look_def deadlineBefore_def payload_def deadline_of_def)
  assume k: "k \<noteq> key"
  show "Get_look k t b' \<in> {Missing, Get_look k t b}"
  proof (cases "c_data b1 k")
    case None
    then show ?thesis using assms(1) k by (simp add: stored_def Get_look_def)
  next
    case (Some n)
    then have n: "n \<noteq> c_alloc b1" using assms(3) by (auto simp: cache_inv_def entries_ok_def rep_def)
    have "c_data b k = Some n" "payload (c_heap b1 n) = payload (c_heap b n)"
      using assms(2) Some k by (auto simp: kept_def)
    moreover have "c_data b' k = Some n" "payload (c_heap b' n) = payload (c_heap b1 n)"
      using assms(1) k n Some by (auto simp: stored_def)
    ultimately show ?thesis by (simp add: Get_look_def deadlineBefore_def payload_def)
  qed
qed

lemma Get_found: "Get_look key t b = Found v \<Longrightarrow> Get key t b = Inr (b, Inr v)"
  by (simp add: Get_def)

section \<open>Termination and panics\<close>

lemma Set_cases:
  assumes "cache_inv b"
  obtains e where "Set of_key of_val key val expiration now b = Some (Inr (b, Some e))" "of_key key = Inl e \<or> of_val val = Inl e"
  | ks vs where "Set of_key of_val key val expiration now b = Some (Inl NilPanic)" "of_key key = Inr ks" "of_val val = Inr vs"
      "c_data b key = None" "c_capacity b < ks + vs"
  | ks vs b1 b' where "Set of_key of_val key val expiration now b = Some (Inr (b', None))" "of_key key = Inr ks" "of_val val = Inr vs"
      "cache_inv b'" "stored key val (deadline_of expiration now) (ks + vs) b1 b'" "kept key b b1" "cache_inv b1"
proof (cases "\<exists>ks vs. of_key key = Inr ks \<and> of_val val = Inr vs")
  case True
  then obtain ks vs where s: "of_key key = Inr ks" "of_val val = Inr vs" by blast
  from assms show ?thesis
  proof (cases rule: Set_sized_ok [of b key val expiration "ks + vs" now])
    case 1
    then show ?thesis using that(2) s by (simp add: Set_def)
  next
    case (2 b1 b')
    then show ?thesis using that(3) s by (simp add: Set_def)
  qed
next
  case False
  then show ?thesis using that(1) by (cases "of_key key"; cases "of_val val") (auto simp: Set_def)
qed

lemma delete_inv: "cache_inv b \<Longrightarrow> cache_inv (delete key b)"
  by (auto simp: cache_inv_def delete_def rep_def entries_ok_def sizes_def split: option.splits)

lemma clean_inv: "cache_inv b \<Longrightarrow> cache_inv (clean t ks b)"
proof -
  have "cache_inv b \<Longrightarrow> cache_inv (fold (\<lambda>k b. case c_data b k of
      Some n \<Rightarrow> if deadlineBefore (c_heap b n) t then delete k b else b | None \<Rightarrow> b) ks b)" for ks
    by (induction ks arbitrary: b) (auto simp: delete_inv split: option.split)
  then show "cache_inv b \<Longrightarrow> cache_inv (clean t ks b)" by (simp add: clean_def)
qed

lemma Get_again_ok:
  assumes "cache_inv b"
  obtains b' r where "Get_again key now b = Inr (b', r)" "cache_inv b'"
proof (cases "c_data b key")
  case (Some n)
  from moveToHead_inv [OF assms Some] obtain b' where "moveToHead n b = Inr b'" "cache_inv b'" .
  then show ?thesis using that Some delete_inv [OF assms]
    by (cases "deadlineBefore (c_heap b n) now") (auto simp: Get_again_def)
qed (use that assms in \<open>simp add: Get_again_def\<close>)

lemma Get_ok:
  assumes "cache_inv b"
  obtains b' r where "Get key now b = Inr (b', r)" "cache_inv b'"
proof (cases "Get_look key now b")
  case Expired
  from Get_again_ok [OF assms] obtain b' r where "Get_again key now b = Inr (b', r)" "cache_inv b'" .
  then show ?thesis using that Expired by (simp add: Get_def)
qed (use that assms in \<open>simp_all add: Get_def\<close>)

section \<open>Accounting without wrap-around\<close>

definition total :: "'v BuildInMapCache \<Rightarrow> nat list \<Rightarrow> nat" where
  "total b xs = sum_list (map (\<lambda>n. unat (it_size (c_heap b n))) xs)"

lemma total_append: "total b (xs @ ys) = total b xs + total b ys"
  by (simp add: total_def)

lemma of_nat_total: "of_nat (total b xs) = sizes b xs"
  by (induction xs) (simp_all add: total_def sizes_def)

lemma unat_sizes: "total b xs < 2 ^ 32 \<Longrightarrow> unat (sizes b xs) = total b xs"
  unfolding of_nat_total [symmetric] by (simp add: unat_of_nat)

lemma of_nat_unat_u32: "of_nat (unat w) = (w :: u32)"
  by simp

lemma total_cong: "(\<And>m. m \<in> set xs \<Longrightarrow> payload (c_heap b' m) = payload (c_heap b m)) \<Longrightarrow> total b' xs = total b xs"
  unfolding total_def by (intro arg_cong [of _ _ sum_list] map_cong) (auto simp: payload_def)

text \<open>The recorded size is the sum of the sizes in the list as a number, and within the capacity.\<close>

definition within :: "u32 \<Rightarrow> 'v BuildInMapCache \<Rightarrow> bool" where
  "within cap b = (\<exists>xs. rep b xs \<and> entries_ok b xs \<and> unat (c_size b) = total b xs \<and> c_size b \<le> c_capacity b \<and> c_capacity b = cap)"

lemma within_inv: "within cap b \<Longrightarrow> cache_inv b"
  unfolding within_def cache_inv_def by (metis of_nat_total of_nat_unat_u32)

lemma Set_sized_within:
  assumes "within cap b" "c_data b key = None" "pairSize \<le> c_capacity b" "unat (c_capacity b) < 2 ^ 31"
  obtains b' where "Set_sized key val expiration pairSize now b = Some (Inr b')" "within cap b'"
proof -
  obtain xs where xs: "rep b xs" "entries_ok b xs" "unat (c_size b) = total b xs" "c_size b \<le> c_capacity b"
    and c: "c_capacity b = cap" using assms(1) by (auto simp: within_def)
  have "c_size b = sizes b xs" using xs(3) of_nat_total [of b xs] by (metis of_nat_unat_u32)
  with xs(1,2) obtain b1 b' ys zs
    where 1: "Set_sized key val expiration pairSize now b = Some (Inr b')" "xs = ys @ zs" "dropped b b1 zs"
      "c_size b1 = sizes b1 ys" "rep b' (c_alloc b1 # ys)" "entries_ok b' (c_alloc b1 # ys)"
      "stored key val (deadline_of expiration now) pairSize b1 b'" "rep b1 ys"
      "c_size b1 + pairSize \<le> c_capacity b \<and> zs = [] \<or> pairSize \<le> c_capacity b - c_size b1"
    using assms(2,3) by (cases rule: Set_sized_fresh [of b xs key val expiration pairSize now]) auto
  have t: "total b1 ys = total b ys" using 1(3) by (intro total_cong) (simp add: dropped_def)
  have le: "total b ys \<le> unat (c_size b)" using xs(3) by (simp add: 1(2) total_append)
  have cap: "unat (c_size b) \<le> unat (c_capacity b)" "unat pairSize \<le> unat (c_capacity b)"
    using xs(4) assms(3) by (simp_all add: word_le_nat_alt)
  have s1: "unat (c_size b1) = total b ys"
    using unat_sizes [of b1 ys] t le cap assms(4) 1(4) by simp
  have fit: "unat (c_size b1) + unat pairSize \<le> unat (c_capacity b)"
  proof -
    have "unat (c_size b1) + unat pairSize < 2 ^ 32" using s1 le cap assms(4) by simp
    then have "unat (c_size b1 + pairSize) = unat (c_size b1) + unat pairSize" by (simp add: unat_word_ariths)
    moreover have "c_size b1 \<le> c_capacity b" using s1 le cap by (simp add: word_le_nat_alt)
    then have "unat (c_capacity b - c_size b1) = unat (c_capacity b) - unat (c_size b1)" by (rule unat_sub)
    ultimately show ?thesis using 1(9) s1 le cap by (auto simp: word_le_nat_alt)
  qed
  have f: "c_size b' = c_size b1 + pairSize" "c_capacity b' = c_capacity b" "it_size (c_heap b' (c_alloc b1)) = pairSize"
    using 1(3,7) by (auto simp: stored_def dropped_def payload_def)
  have "unat (c_size b') = unat (c_size b1) + unat pairSize"
    using fit assms(4) by (simp add: f(1) unat_word_ariths)
  moreover have "total b' ys = total b ys"
  proof -
    have "c_alloc b1 \<notin> set ys" using 1(8) by (auto simp: rep_def)
    then have "total b' ys = total b1 ys" using 1(7) by (intro total_cong) (unfold stored_def, metis)
    then show ?thesis using t by simp
  qed
  ultimately have "within cap b'"
    unfolding within_def using fit s1 1(5,6)
    by (intro exI [of _ "c_alloc b1 # ys"]) (use c in \<open>auto simp: total_def f word_le_nat_alt\<close>)
  with 1(1) show ?thesis using that by blast
qed

text \<open>A pair that does not fit: every node is evicted, and then the head itself is to be removed.\<close>

lemma make_room_too_big:
  assumes "rep b xs" "unat (c_size b) = total b xs" "c_size b \<le> c_capacity b" "c_capacity b < pairSize"
  shows "make_room pairSize (it_prev (c_heap b tail)) (c_capacity b - c_size b) b = Some (Inl NilPanic)"
  using assms
proof (induction xs arbitrary: b rule: rev_induct)
  case Nil
  then have "c_size b = 0" by (simp add: total_def unat_eq_0)
  with Nil show ?case by (subst make_room.simps) (simp add: removeTail_empty rep_last)
next
  case (snoc n xs)
  from removeTail_rep [OF snoc.prems(1)] obtain b1
    where 1: "removeTail b = Inr (n, b1)" "rep b1 xs" "same b b1" "it_prev (c_heap b1 n) = Some (last (head # xs))" .
  let ?b = "b1\<lparr>c_data := (c_data b1)(it_key (c_heap b1 n) := None), c_size := c_size b1 - it_size (c_heap b1 n)\<rparr>"
  have r: "rep ?b xs" using 1(2) by (subst rep_cong [of _ b1]) simp_all
  have t: "total ?b xs = total b xs" using 1(3) by (intro total_cong) (simp add: same_def)
  have u: "unat (c_size b) = total b xs + unat (it_size (c_heap b n))" using snoc.prems(2) by (simp add: total_def)
  then have "it_size (c_heap b n) \<le> c_size b" by (simp add: word_le_nat_alt)
  then have s: "unat (c_size ?b) = total ?b xs"
    using u t same_fields [OF 1(3)] same_heap [OF 1(3)] by (simp add: unat_sub)
  have le: "c_size ?b \<le> c_capacity ?b"
    using s t u snoc.prems(3) same_fields [OF 1(3)] by (simp add: word_le_nat_alt)
  have "make_room pairSize (it_prev (c_heap ?b tail)) (c_capacity ?b - c_size ?b) ?b = Some (Inl NilPanic)"
    using snoc.prems(4) same_fields [OF 1(3)] by (intro snoc.IH [OF r s le]) simp
  moreover have "c_capacity b - c_size b < pairSize"
  proof -
    have "unat (c_capacity b - c_size b) \<le> unat (c_capacity b)" using snoc.prems(3) by (simp add: unat_sub)
    then show ?thesis using snoc.prems(4) by (simp add: word_less_nat_alt)
  qed
  ultimately show ?case
    using 1(1,4) rep_last [OF r] rep_last [OF snoc.prems(1)] same_fields [OF 1(3)] same_heap [OF 1(3), of n]
    by (subst make_room.simps) (simp add: algebra_simps)
qed

section \<open>Reachable caches\<close>

text \<open>
  The caches that a sequence of calls can produce. \<open>P\<close> restricts the calls of \<^verbatim>\<open>Set\<close>. The second part
  of a \<^verbatim>\<open>Get\<close> is a step of its own, since other calls may come between the parts.
\<close>

inductive cache_reach :: "(string \<Rightarrow> 'v \<Rightarrow> 'v BuildInMapCache \<Rightarrow> bool) \<Rightarrow> (string \<Rightarrow> cache_error + u32) \<Rightarrow> ('v \<Rightarrow> cache_error + u32) \<Rightarrow> u32 \<Rightarrow>
    'v BuildInMapCache \<Rightarrow> bool" for P of_key of_val cap where
  new: "cache_reach P of_key of_val cap (NewBuildInMapCache cap)"
| set: "cache_reach P of_key of_val cap b \<Longrightarrow> P key val b \<Longrightarrow> Set of_key of_val key val expiration now b = Some (Inr (b', e)) \<Longrightarrow>
    cache_reach P of_key of_val cap b'"
| get: "cache_reach P of_key of_val cap b \<Longrightarrow> Get key now b = Inr (b', r) \<Longrightarrow> cache_reach P of_key of_val cap b'"
| again: "cache_reach P of_key of_val cap b \<Longrightarrow> Get_again key now b = Inr (b', r) \<Longrightarrow> cache_reach P of_key of_val cap b'"
| del: "cache_reach P of_key of_val cap b \<Longrightarrow> cache_reach P of_key of_val cap (fst (Delete key b))"
| tick: "cache_reach P of_key of_val cap b \<Longrightarrow> cache_reach P of_key of_val cap (clean t ks b)"

lemma rep_new: "rep (NewBuildInMapCache cap) []"
  by (simp add: rep_def NewBuildInMapCache_def head_def tail_def initItem_def)

lemma cache_inv_new: "cache_inv (NewBuildInMapCache cap)"
  by (rule cache_invI [OF rep_new]) (simp_all add: entries_ok_def sizes_def NewBuildInMapCache_def)

lemma Set_inv:
  assumes "cache_inv b" "Set of_key of_val key val expiration now b = Some (Inr (b', e))"
  shows "cache_inv b'"
  using assms(1)
  by (cases rule: Set_cases [of b of_key of_val key val expiration now]) (use assms in auto)

lemma reach_inv: "cache_reach P of_key of_val cap b \<Longrightarrow> cache_inv b"
proof (induction rule: cache_reach.induct)
  case (set b key val expiration now b' e)
  then show ?case by (blast intro: Set_inv)
next
  case (get b key now b' r)
  then show ?case by (metis Get_ok Inr_inject prod.inject)
next
  case (again b key now b' r)
  then show ?case by (metis Get_again_ok Inr_inject prod.inject)
next
  case (del b key)
  then show ?case by (simp add: Delete_def delete_inv)
qed (simp_all add: cache_inv_new clean_inv)

lemma within_delete: "within cap b \<Longrightarrow> within cap (delete key b)"
  by (auto simp: within_def delete_def rep_def entries_ok_def total_def split: option.splits)

lemma within_clean: "within cap b \<Longrightarrow> within cap (clean t ks b)"
proof -
  have "within cap b \<Longrightarrow> within cap (fold (\<lambda>k b. case c_data b k of
      Some n \<Rightarrow> if deadlineBefore (c_heap b n) t then delete k b else b | None \<Rightarrow> b) ks b)" for ks
    by (induction ks arbitrary: b) (auto simp: within_delete split: option.split)
  then show "within cap b \<Longrightarrow> within cap (clean t ks b)" by (simp add: clean_def)
qed

lemma within_moveToHead:
  assumes "within cap b" "c_data b k = Some n" "moveToHead n b = Inr b'"
  shows "within cap b'"
proof -
  obtain xs where xs: "rep b xs" "entries_ok b xs" "unat (c_size b) = total b xs" "c_size b \<le> c_capacity b"
    and c: "c_capacity b = cap" using assms(1) by (auto simp: within_def)
  have "n \<in> set xs" using xs(2) assms(2) by (auto simp: entries_ok_def)
  from moveToHead_rep [OF xs(1) this] assms(3) obtain ys where 1: "rep b' ys" "same b b'" "mset ys = mset xs" by auto
  have "total b' ys = total b ys" using 1(2) by (intro total_cong) (simp add: same_def)
  also have "\<dots> = total b xs" unfolding total_def using 1(3) by (metis mset_map sum_mset_sum_list)
  finally have "unat (c_size b') = total b' ys" "c_size b' \<le> c_capacity b'" "c_capacity b' = cap"
    using xs(3,4) c same_fields [OF 1(2)] by simp_all
  moreover have "entries_ok b' ys" using xs(2) same_entries [OF 1(2)] entries_mset [OF 1(3), of b] by simp
  ultimately show ?thesis using 1(1) by (auto simp: within_def)
qed

lemma within_Get_again:
  assumes "within cap b" "Get_again key now b = Inr (b', r)"
  shows "within cap b'"
proof (cases "c_data b key")
  case (Some n)
  then show ?thesis using assms within_delete [of cap b key] within_moveToHead [OF assms(1) Some]
    by (auto simp: Get_again_def sum_bind_Inr_iff split: if_splits)
qed (use assms in \<open>simp add: Get_again_def\<close>)

lemma within_Get: "within cap b \<Longrightarrow> Get key now b = Inr (b', r) \<Longrightarrow> within cap b'"
  by (auto simp: Get_def intro: within_Get_again split: looked.splits)

definition fits_fresh :: "(string \<Rightarrow> cache_error + u32) \<Rightarrow> ('v \<Rightarrow> cache_error + u32) \<Rightarrow> string \<Rightarrow> 'v \<Rightarrow> 'v BuildInMapCache \<Rightarrow> bool" where
  "fits_fresh of_key of_val key val b =
     (c_data b key = None \<and>
      (case (of_key key, of_val val) of (Inr ks, Inr vs) \<Rightarrow> ks + vs \<le> c_capacity b | _ \<Rightarrow> True))"

lemma Set_within:
  assumes "within cap b" "fits_fresh of_key of_val key val b" "unat (c_capacity b) < 2 ^ 31"
    "Set of_key of_val key val expiration now b = Some (Inr (b', e))"
  shows "within cap b'"
proof (cases "\<exists>ks vs. of_key key = Inr ks \<and> of_val val = Inr vs")
  case True
  then obtain ks vs where s: "of_key key = Inr ks" "of_val val = Inr vs" by blast
  with assms(2) have "c_data b key = None" "ks + vs \<le> c_capacity b" by (simp_all add: fits_fresh_def)
  from Set_sized_within [OF assms(1) this assms(3)] obtain b2
    where "Set_sized key val expiration (ks + vs) now b = Some (Inr b2)" "within cap b2" .
  then show ?thesis using assms(4) s by (simp add: Set_def)
next
  case False
  then show ?thesis using assms(1,4) by (cases "of_key key"; cases "of_val val") (auto simp: Set_def)
qed

lemma within_new: "within cap (NewBuildInMapCache cap)"
  unfolding within_def using rep_new [of cap] by (intro exI [of _ "[]"]) (simp add: entries_ok_def total_def NewBuildInMapCache_def)

lemma reach_within:
  assumes "unat cap < 2 ^ 31"
  shows "cache_reach (fits_fresh of_key of_val) of_key of_val cap b \<Longrightarrow> within cap b"
proof (induction rule: cache_reach.induct)
  case (set b key val expiration now b' e)
  then have "c_capacity b = cap" by (auto simp: within_def)
  then have "unat (c_capacity b) < 2 ^ 31" using assms by simp
  from Set_within [OF set.IH set.hyps(2) this set.hyps(3)] show ?case .
next
  case (get b key now b' r)
  then show ?case by (blast intro: within_Get)
next
  case (again b key now b' r)
  then show ?case by (blast intro: within_Get_again)
next
  case (del b key)
  then show ?case by (simp add: Delete_def within_delete)
qed (simp_all add: within_new within_clean)

section \<open>Properties\<close>

text \<open>An example: values of 8 bytes, keys of 16 bytes and their characters; one entry in a cache of 100 bytes.\<close>

definition key_size :: "string \<Rightarrow> cache_error + u32" where
  "key_size k = Inr (16 + of_nat (length k))"

definition val_size :: "nat \<Rightarrow> cache_error + u32" where
  "val_size v = Inr 8"

definition cache_after :: "(go_panic + nat BuildInMapCache \<times> cache_error option) option \<Rightarrow> nat BuildInMapCache" where
  "cache_after r = (case r of Some (Inr (b, _)) \<Rightarrow> b | _ \<Rightarrow> NewBuildInMapCache 0)"

definition one_entry :: "nat BuildInMapCache" where
  "one_entry = cache_after (Set key_size val_size ''a'' 7 0 0 (NewBuildInMapCache 100))"

lemma one_entry_set: "Set key_size val_size ''a'' 7 0 0 (NewBuildInMapCache 100) = Some (Inr (one_entry, None))"
  using cache_inv_new [of 100]
  by (cases rule: Set_cases [of "NewBuildInMapCache 100" key_size val_size "''a''" 7 0 0])
    (auto simp: one_entry_def cache_after_def key_size_def val_size_def NewBuildInMapCache_def)

lemma one_entry_reach: "P ''a'' 7 (NewBuildInMapCache 100) \<Longrightarrow> cache_reach P key_size val_size 100 one_entry"
  using one_entry_set by (blast intro: cache_reach.new cache_reach.set)



text \<open>
  C9: In every state that calls of \<^verbatim>\<open>Set\<close>, \<^verbatim>\<open>Get\<close>, \<^verbatim>\<open>Delete\<close> and ticks of the cleaning goroutine can
  produce, with the two parts of a \<^verbatim>\<open>Get\<close> interleaved in any way, the doubly linked list and the map
  agree. In such a state every \<^verbatim>\<open>Get\<close> answers without a panic, and every \<^verbatim>\<open>Set\<close> ends; it panics only
  for a new key whose pair is larger than the whole capacity.
\<close>

theorem cache_reachable_safe:
  assumes "cache_reach P of_key of_val cap b"
  shows "cache_inv b \<and> (\<exists>b' r. Get key t b = Inr (b', r)) \<and> (\<exists>b' r. Get_again key t b = Inr (b', r)) \<and>
    (\<exists>r. Set of_key of_val key val expiration now b = Some r \<and>
      (r = Inl e \<longrightarrow> c_data b key = None \<and> (\<exists>ks vs. of_key key = Inr ks \<and> of_val val = Inr vs \<and> c_capacity b < ks + vs)))"
proof -
  have inv: "cache_inv b" using assms by (rule reach_inv)
  moreover have "\<exists>b' r. Get key t b = Inr (b', r)" using Get_ok [OF inv] by metis
  moreover have "\<exists>b' r. Get_again key t b = Inr (b', r)" using Get_again_ok [OF inv] by metis
  moreover from inv have "\<exists>r. Set of_key of_val key val expiration now b = Some r \<and>
      (r = Inl e \<longrightarrow> c_data b key = None \<and> (\<exists>ks vs. of_key key = Inr ks \<and> of_val val = Inr vs \<and> c_capacity b < ks + vs))"
    by (cases rule: Set_cases [of b of_key of_val key val expiration now]) auto
  ultimately show ?thesis by blast
qed

theorem cache_reachable_safe_witness:
  "cache_reach (\<lambda>_ _ _. True) key_size val_size 100 one_entry \<and> cache_inv one_entry \<and>
   (\<exists>b' r. Get ''a'' 5 one_entry = Inr (b', r)) \<and> (\<exists>r. Set key_size val_size ''a'' 1 0 0 one_entry = Some r)"
  using cache_reachable_safe [OF one_entry_reach [of "\<lambda>_ _ _. True", OF TrueI], of "''a''" 5 1 0 0]
    one_entry_reach [of "\<lambda>_ _ _. True"] by blast

text \<open>
  C25: As long as \<^verbatim>\<open>Set\<close> is only called for keys that are not in the map and pairs that are not larger
  than the capacity, and the capacity is below 2 GiB, the recorded size is the sum of the sizes of
  the nodes in the list and never exceeds the capacity.
\<close>

theorem cache_capacity:
  assumes "cache_reach (fits_fresh of_key of_val) of_key of_val cap b" "unat cap < 2 ^ 31"
  shows "c_size b \<le> cap \<and> (\<exists>xs. rep b xs \<and> unat (c_size b) = total b xs)"
  using reach_within [OF assms(2,1)] by (auto simp: within_def)

theorem cache_capacity_witness:
  "c_size one_entry \<le> 100 \<and> (\<exists>xs. rep one_entry xs \<and> unat (c_size one_entry) = total one_entry xs)"
  by (rule cache_capacity [OF one_entry_reach])
    (simp_all add: fits_fresh_def key_size_def val_size_def NewBuildInMapCache_def)

text \<open>
  A new key whose pair is larger than the capacity crashes \<^verbatim>\<open>Set\<close>: the loop that makes room
  evicts every entry and then removes the head sentinel, whose predecessor is nil.
\<close>

lemma oversized_set_panics:
  assumes "within cap b" "of_key key = Inr ks" "of_val val = Inr vs" "c_data b key = None" "cap < ks + vs"
    "unat (c_size b) + unat (ks + vs) < 2 ^ 32"
  shows "Set of_key of_val key val expiration now b = Some (Inl NilPanic)"
proof -
  obtain xs where xs: "rep b xs" "unat (c_size b) = total b xs" "c_size b \<le> c_capacity b" "c_capacity b = cap"
    using assms(1) by (auto simp: within_def)
  have "unat (c_size b + (ks + vs)) = unat (c_size b) + unat (ks + vs)" using assms(6) by (simp add: unat_word_ariths)
  then have "c_capacity b < c_size b + (ks + vs)" using assms(5) xs(4) by (simp add: word_less_nat_alt)
  moreover have "make_room (ks + vs) (it_prev (c_heap b tail)) (c_capacity b - c_size b) b = Some (Inl NilPanic)"
    using xs assms(5) by (intro make_room_too_big) simp_all
  ultimately show ?thesis using assms(2-4) by (simp add: Set_def Set_sized_def)
qed

text \<open>
  Overwriting a key adds a second node for it and counts it again: the size passes the capacity,
  and from then on the difference \<^verbatim>\<open>capacity - size\<close> wraps, so that nothing is evicted any more.
\<close>

definition overwritten :: "nat BuildInMapCache" where
  "overwritten = cache_after (Set (\<lambda>_. Inr 52) val_size ''a'' 8 0 0 (cache_after (Set (\<lambda>_. Inr 52) val_size ''a'' 7 0 0 (NewBuildInMapCache 100))))"

declare make_room.simps [code]

lemma overwrite_exceeds_capacity:
  "c_size overwritten = 120 \<and> c_capacity overwritten = 100 \<and>
   c_size (cache_after (Set (\<lambda>_. Inr 52) val_size ''b'' 9 0 0 overwritten)) = 180"
  by code_simp

end
