(* ===== verification/CacheSize.thy ===== *)
theory CacheSize
  imports LocalCache
begin

text \<open>
  The memory size of a Go value (\<^verbatim>\<open>cache/size.go\<close>): a traversal by reflection that remembers the
  addresses it has seen. Values that a pointer, slice or map refers to are objects of a heap, so
  that values may share objects and be cyclic; the address that \<^verbatim>\<open>Pointer()\<close> reports is part of the
  value, since different objects may have the same address (a struct and its first field, or nil).
\<close>

section \<open>Values\<close>

datatype gval =
    ScalarV int   \<comment> \<open>numbers, booleans, channels and functions: the size of the type\<close>
  | StrV nat string
  | ArrV int "gval list"   \<comment> \<open>the size of the element type\<close>
  | SliceV nat int int nat   \<comment> \<open>address, capacity, size of the element type, object\<close>
  | PtrV nat "nat option"
  | IfaceV "gval option"
  | MapV nat nat
  | StructV int "gval list"   \<comment> \<open>the size of the type with its padding\<close>
  | UnsafeV   \<comment> \<open>\<^verbatim>\<open>unsafe.Pointer\<close>, a kind the traversal does not know\<close>

record gheap =
  h_ptr :: "nat \<Rightarrow> gval"
  h_slice :: "nat \<Rightarrow> gval list"
  h_map :: "nat \<Rightarrow> (gval \<times> gval) list"   \<comment> \<open>in the order of \<^verbatim>\<open>MapKeys\<close>\<close>

fun type_size :: "gval \<Rightarrow> int" where
  "type_size (ScalarV n) = n"
| "type_size (StrV _ _) = 16"
| "type_size (ArrV n vs) = int (length vs) * n"
| "type_size (SliceV _ _ _ _) = 24"
| "type_size (PtrV _ _) = 8"
| "type_size (IfaceV _) = 16"
| "type_size (MapV _ _) = 8"
| "type_size (StructV n _) = n"
| "type_size UnsafeV = 8"

section \<open>The traversal\<close>

text \<open>
  A result is the returned pair with the addresses seen so far. The fuel counts the objects the
  traversal goes into; \<open>None\<close> is a traversal that needs more. A loop over elements ends early
  (\<open>Inl\<close>) at an error.
\<close>

type_synonym size_result = "int \<times> cache_error option"

definition plus_size :: "int \<Rightarrow> ((size_result + int) \<times> nat list) option \<Rightarrow> (size_result \<times> nat list) option" where
  "plus_size extra r =
     (case r of
        None \<Rightarrow> None
      | Some (Inl e, c) \<Rightarrow> Some (e, c)
      | Some (Inr acc, c) \<Rightarrow> Some ((acc + extra, None), c))"

definition elem_size :: "int \<Rightarrow> (size_result \<times> nat list) option \<Rightarrow> (size_result \<times> nat list) option" where
  "elem_size extra r =
     (case r of
        None \<Rightarrow> None
      | Some ((s, e), c) \<Rightarrow> if e \<noteq> None \<or> s < 0 then Some ((-1, e), c) else Some ((s + extra, None), c))"

fun sizeOf :: "nat \<Rightarrow> gheap \<Rightarrow> gval \<Rightarrow> nat list \<Rightarrow> (size_result \<times> nat list) option"
  and sizeOfs :: "nat \<Rightarrow> gheap \<Rightarrow> gval list \<Rightarrow> int \<Rightarrow> nat list \<Rightarrow> ((size_result + int) \<times> nat list) option" where
  "sizeOf f h (ScalarV n) c = Some ((n, None), c)"
| "sizeOf f h (StrV a s) c =
     (if a \<in> set c then Some ((16, None), c) else Some ((16 + int (length s), None), a # c))"
| "sizeOf f h (ArrV n vs) c = plus_size 0 (sizeOfs f h vs 0 c)"
| "sizeOf f h (SliceV a cap n obj) c =
     (if a \<in> set c then Some ((0, None), c)
      else (case f of
              0 \<Rightarrow> None
            | Suc f \<Rightarrow> plus_size (24 + (cap - int (length (h_slice h obj))) * n) (sizeOfs f h (h_slice h obj) 0 (a # c))))"
| "sizeOf f h (PtrV a p) c =
     (if a \<in> set c then Some ((8, None), c)
      else (case p of
              None \<Rightarrow> Some ((8, None), a # c)
            | Some obj \<Rightarrow> (case f of 0 \<Rightarrow> None | Suc f \<Rightarrow> elem_size 8 (sizeOf f h (h_ptr h obj) (a # c)))))"
| "sizeOf f h (IfaceV None) c = Some ((-1, Some ErrUnsupportedType), c)"
| "sizeOf f h (IfaceV (Some v)) c = elem_size 16 (sizeOf f h v c)"
| "sizeOf f h (MapV a obj) c =
     (if a \<in> set c then Some ((0, None), c)
      else (case f of
              0 \<Rightarrow> None
            | Suc f \<Rightarrow> plus_size 8 (sizeOfs f h (concat (map (\<lambda>(k, v). [v, k]) (h_map h obj))) 0 (a # c))))"
| "sizeOf f h (StructV n vs) c = plus_size (n - sum_list (map type_size vs)) (sizeOfs f h vs 0 c)"
| "sizeOf f h UnsafeV c = Some ((-1, Some ErrUnsupportedType), c)"
| "sizeOfs f h [] acc c = Some (Inr acc, c)"
| "sizeOfs f h (v # vs) acc c =
     (case sizeOf f h v c of
        None \<Rightarrow> None
      | Some ((s, e), c') \<Rightarrow> if e \<noteq> None \<or> s < 0 then Some (Inl (-1, e), c') else sizeOfs f h vs (acc + s) c')"

text \<open>\<^verbatim>\<open>Of(nil)\<close> has an invalid value (\<open>None\<close>), which is not supported either.\<close>

definition Of :: "nat \<Rightarrow> gheap \<Rightarrow> gval option \<Rightarrow> (cache_error + u32) option" where
  "Of f h val =
     (case (case val of None \<Rightarrow> Some ((-1, Some ErrUnsupportedType), []) | Some v \<Rightarrow> sizeOf f h v []) of
        None \<Rightarrow> None
      | Some ((s, Some e), _) \<Rightarrow> Some (Inl e)
      | Some ((s, None), _) \<Rightarrow> Some (Inr (of_int s)))"

text \<open>The size of a cache key is that of a string header and its bytes.\<close>

lemma Of_string: "Of f h (Some (StrV a k)) = Some (Inr (16 + of_nat (length k)))"
  by (simp add: Of_def)

section \<open>The fuel does not matter\<close>

lemma plus_size_None: "plus_size extra r = None \<longleftrightarrow> r = None"
  by (auto simp: plus_size_def split: option.splits sum.splits)

lemma elem_size_None: "elem_size extra r = None \<longleftrightarrow> r = None"
  by (auto simp: elem_size_def split: option.splits)

lemma sizeOf_more_fuel:
  "sizeOf f h v c \<noteq> None \<Longrightarrow> f \<le> g \<Longrightarrow> sizeOf g h v c = sizeOf f h v c"
  "sizeOfs f h vs acc c \<noteq> None \<Longrightarrow> f \<le> g \<Longrightarrow> sizeOfs g h vs acc c = sizeOfs f h vs acc c"
proof (induction f h v c and f h vs acc c arbitrary: g and g rule: sizeOf_sizeOfs.induct)
  case (4 f h a cap n obj c)
  show ?case
  proof (cases "a \<in> set c")
    case False
    then obtain f' where f: "f = Suc f'" using "4.prems" by (cases f) auto
    obtain g' where g: "g = Suc g'" using "4.prems" f by (cases g) auto
    show ?thesis using "4.IH" [OF False f, of g'] "4.prems" False by (simp add: f g plus_size_None del: not_None_eq)
  qed simp
next
  case (5 f h a p c)
  show ?case
  proof (cases "a \<in> set c \<or> p = None")
    case False
    then obtain f' obj where f: "f = Suc f'" "p = Some obj" using "5.prems" by (cases f) auto
    obtain g' where g: "g = Suc g'" using "5.prems" f by (cases g) auto
    show ?thesis using "5.IH" [OF _ f(2,1), of g'] "5.prems" False by (simp add: f g elem_size_None del: not_None_eq)
  qed auto
next
  case (8 f h a obj c)
  show ?case
  proof (cases "a \<in> set c")
    case False
    then obtain f' where f: "f = Suc f'" using "8.prems" by (cases f) auto
    obtain g' where g: "g = Suc g'" using "8.prems" f by (cases g) auto
    show ?thesis using "8.IH" [OF False f, of g'] "8.prems" False by (simp add: f g plus_size_None del: not_None_eq)
  qed simp
next
  case (12 f h v vs acc c)
  then obtain s e c' where 1: "sizeOf f h v c = Some ((s, e), c')" by (cases "sizeOf f h v c") auto
  show ?case using 1 "12.IH"(1) [of g] "12.IH"(2) [OF 1 refl refl, of g] "12.prems"
    by (cases "e \<noteq> None \<or> s < 0") (simp_all del: not_None_eq)
next
  case (3 f h n vs c)
  show ?case using "3.prems" "3.IH" [of g] by (simp only: sizeOf.simps plus_size_None simp_thms)
next
  case (7 f h v c)
  show ?case using "7.prems" "7.IH" [of g] by (simp only: sizeOf.simps elem_size_None simp_thms)
next
  case (9 f h n vs c)
  show ?case using "9.prems" "9.IH" [of g] by (simp only: sizeOf.simps plus_size_None simp_thms)
qed simp_all

section \<open>Termination\<close>

text \<open>
  Values of a well-typed program: type sizes are not negative, a slice is not longer than its
  capacity, a struct is at least as large as its fields together, there is no nil interface and no
  \<^verbatim>\<open>unsafe.Pointer\<close>. All addresses of slices, pointers and maps are in \<open>A\<close>.
\<close>

fun sized :: "nat set \<Rightarrow> gheap \<Rightarrow> gval \<Rightarrow> bool" where
  "sized A h (ScalarV n) = (0 \<le> n)"
| "sized A h (StrV _ _) = True"
| "sized A h (ArrV n vs) = (\<forall>v \<in> set vs. sized A h v)"
| "sized A h (SliceV a cap n obj) = (a \<in> A \<and> int (length (h_slice h obj)) \<le> cap \<and> 0 \<le> n)"
| "sized A h (PtrV a p) = (a \<in> A)"
| "sized A h (IfaceV None) = False"
| "sized A h (IfaceV (Some v)) = sized A h v"
| "sized A h (MapV a obj) = (a \<in> A)"
| "sized A h (StructV n vs) = (sum_list (map type_size vs) \<le> n \<and> (\<forall>v \<in> set vs. sized A h v))"
| "sized A h UnsafeV = False"

definition sized_heap :: "nat set \<Rightarrow> gheap \<Rightarrow> bool" where
  "sized_heap A h = (\<forall>obj. sized A h (h_ptr h obj) \<and> (\<forall>v \<in> set (h_slice h obj). sized A h v) \<and>
     (\<forall>(k, v) \<in> set (h_map h obj). sized A h k \<and> sized A h v))"

lemma card_visit:
  assumes "finite A" "a \<in> A" "a \<notin> set c" "card (A - set c) \<le> Suc f"
  shows "card (A - set (a # c)) \<le> f"
proof -
  have "A - set (a # c) = (A - set c) - {a}" by auto
  then show ?thesis using assms by simp
qed

lemma card_visited_zero: "finite A \<Longrightarrow> a \<in> A \<Longrightarrow> a \<notin> set c \<Longrightarrow> \<not> card (A - set c) \<le> 0"
  by auto

lemma card_mono_visited:
  assumes "finite A" "set c \<subseteq> set c'" "card (A - set c) \<le> f"
  shows "card (A - set c') \<le> f"
proof -
  have "A - set c' \<subseteq> A - set c" using assms(2) by blast
  then have "card (A - set c') \<le> card (A - set c)" using assms(1) by (intro card_mono) auto
  then show ?thesis using assms(3) by simp
qed

lemma sizeOf_returns:
  assumes A: "finite A" "sized_heap A h"
  shows "sized A h v \<Longrightarrow> card (A - set c) \<le> f \<Longrightarrow>
      \<exists>s c'. sizeOf f h v c = Some ((s, None), c') \<and> 0 \<le> s \<and> set c \<subseteq> set c'"
    "(\<forall>v \<in> set vs. sized A h v) \<Longrightarrow> card (A - set c) \<le> f \<Longrightarrow> 0 \<le> acc \<Longrightarrow>
      \<exists>s c'. sizeOfs f h vs acc c = Some (Inr s, c') \<and> 0 \<le> s \<and> set c \<subseteq> set c'"
  using A
proof (induction f h v c and f h vs acc c rule: sizeOf_sizeOfs.induct)
  case (4 f h a cap n obj c)
  show ?case
  proof (cases "a \<in> set c")
    case False
    then obtain g where f: "f = Suc g" using "4.prems" card_visited_zero [of A a c] by (cases f) auto
    have "card (A - set (a # c)) \<le> g" using "4.prems" False f card_visit [of A a c g] by simp
    moreover have "\<forall>v \<in> set (h_slice h obj). sized A h v" using "4.prems" by (simp add: sized_heap_def)
    ultimately obtain s c' where "sizeOfs g h (h_slice h obj) 0 (a # c) = Some (Inr s, c')" "0 \<le> s" "set (a # c) \<subseteq> set c'"
      using "4.IH" [OF False f] "4.prems" by blast
    moreover have "0 \<le> (cap - int (length (h_slice h obj))) * n" using "4.prems"(1) by simp
    ultimately show ?thesis using False f by (auto simp: plus_size_def)
  qed auto
next
  case (5 f h a p c)
  show ?case
  proof (cases "a \<in> set c \<or> p = None")
    case False
    then obtain obj g where f: "f = Suc g" "p = Some obj" using "5.prems" card_visited_zero [of A a c] by (cases f) auto
    have "card (A - set (a # c)) \<le> g" using "5.prems" False f card_visit [of A a c g] by simp
    moreover have "sized A h (h_ptr h obj)" using "5.prems" by (simp add: sized_heap_def)
    ultimately obtain s c' where "sizeOf g h (h_ptr h obj) (a # c) = Some ((s, None), c')" "0 \<le> s" "set (a # c) \<subseteq> set c'"
      using "5.IH" [OF _ f(2) f(1)] "5.prems" False by blast
    then show ?thesis using False f by (auto simp: elem_size_def)
  qed auto
next
  case (8 f h a obj c)
  show ?case
  proof (cases "a \<in> set c")
    case False
    then obtain g where f: "f = Suc g" using "8.prems" card_visited_zero [of A a c] by (cases f) auto
    have "card (A - set (a # c)) \<le> g" using "8.prems" False f card_visit [of A a c g] by simp
    moreover have "\<forall>v \<in> set (concat (map (\<lambda>(k, v). [v, k]) (h_map h obj))). sized A h v"
      using "8.prems" by (fastforce simp: sized_heap_def)
    ultimately obtain s c' where "sizeOfs g h (concat (map (\<lambda>(k, v). [v, k]) (h_map h obj))) 0 (a # c) = Some (Inr s, c')" "0 \<le> s" "set (a # c) \<subseteq> set c'"
      using "8.IH" [OF False f] "8.prems" by blast
    then show ?thesis using False f by (auto simp: plus_size_def)
  qed auto
next
  case (12 f h v vs acc c)
  then obtain s c1 where 1: "sizeOf f h v c = Some ((s, None), c1)" "0 \<le> s" "set c \<subseteq> set c1" by auto
  have "card (A - set c1) \<le> f" using card_mono_visited [OF "12.prems"(4) 1(3) "12.prems"(2)] .
  with "12.IH"(2) [OF 1(1)] "12.prems" 1(2) obtain s' c' where "sizeOfs f h vs (acc + s) c1 = Some (Inr s', c')" "0 \<le> s'" "set c1 \<subseteq> set c'"
    by fastforce
  with 1 show ?case by auto
next
  case (3 f h n vs c)
  then show ?case by (auto simp: plus_size_def)
next
  case (7 f h v c)
  then show ?case by (auto simp: elem_size_def)
next
  case (9 f h n vs c)
  then obtain s c' where "sizeOfs f h vs 0 c = Some (Inr s, c')" "0 \<le> s" "set c \<subseteq> set c'" by auto
  with 9(2) show ?case by (simp add: plus_size_def)
qed auto

section \<open>Properties\<close>


text \<open>A list node of 16 bytes whose next pointer refers to itself.\<close>

definition cyclic :: gheap where
  "cyclic = \<lparr>h_ptr = (\<lambda>_. StructV 16 [ScalarV 8, PtrV 4096 (Some 0)]), h_slice = (\<lambda>_. []), h_map = (\<lambda>_. [])\<rparr>"


text \<open>
  Addresses are compared without their types: a pointer to a struct of 16 bytes and one to its
  first field have the same address, so that the order of the two decides whether the struct is counted.
\<close>

definition same_address :: gheap where
  "same_address = \<lparr>h_ptr = (\<lambda>obj. if obj = 0 then StructV 16 [ScalarV 8, ScalarV 8] else ScalarV 8),
     h_slice = (\<lambda>_. []), h_map = (\<lambda>_. [])\<rparr>"

lemma field_pointer_hides_struct:
  "Of 2 same_address (Some (StructV 16 [PtrV 4096 (Some 0), PtrV 4096 (Some 1)])) = Some (Inr 32) \<and>
   Of 2 same_address (Some (StructV 16 [PtrV 4096 (Some 1), PtrV 4096 (Some 0)])) = Some (Inr 24)"
  by code_simp

end
