(* ===== verification/CacheThrough.thy ===== *)
theory CacheThrough
  imports LocalCache
begin

text \<open>
  The caches that wrap another one: \<^verbatim>\<open>cache/read_through.go\<close> and \<^verbatim>\<open>cache/write_through.go\<close>, which the
  interface of \<^verbatim>\<open>cache/type.go\<close> connects with the in-memory cache, and the thin wrapper of a Redis
  client in \<^verbatim>\<open>cache/redis.go\<close>. The functions that reach the database and the client are arguments.
\<close>

section \<open>The interface\<close>

type_synonym ('c, 'r) returned = "(go_panic + 'c \<times> 'r) option"   \<comment> \<open>\<open>None\<close>: the call does not return\<close>

text \<open>
  What the users of a cache rely on: a call of \<^verbatim>\<open>Set\<close> that reports no error makes the value
  readable until its deadline, and no call destroys the invariant of the cache.
\<close>

locale kv_cache =
  fixes inv :: "'c \<Rightarrow> bool"
    and put :: "string \<Rightarrow> 'v \<Rightarrow> int \<Rightarrow> int \<Rightarrow> 'c \<Rightarrow> ('c, cache_error option) returned"
    and look :: "string \<Rightarrow> int \<Rightarrow> 'c \<Rightarrow> go_panic + 'c \<times> (cache_error + 'v option)"
  assumes put_inv: "inv c \<Longrightarrow> put key val expiration now c = Some (Inr (c', e)) \<Longrightarrow> inv c'"
    and put_error: "inv c \<Longrightarrow> put key val expiration now c = Some (Inr (c', Some err)) \<Longrightarrow> c' = c"
    and put_look: "inv c \<Longrightarrow> put key val expiration now c = Some (Inr (c', None)) \<Longrightarrow>
      expiration \<le> 0 \<or> t \<le> now + expiration \<Longrightarrow> look key t c' = Inr (c', Inr (Some val))"
    and look_inv: "inv c \<Longrightarrow> \<exists>c' r. look key t c = Inr (c', r) \<and> inv c'"

section \<open>Write-through\<close>

datatype 'e wt_error = StoreErr 'e | CacheErr cache_error

text \<open>The state is that of the database and of the cache.\<close>

definition WriteThrough_Set ::
  "(string \<Rightarrow> 'v \<Rightarrow> int \<Rightarrow> 'd \<Rightarrow> 'e option \<times> 'd) \<Rightarrow> (string \<Rightarrow> 'v \<Rightarrow> int \<Rightarrow> int \<Rightarrow> 'c \<Rightarrow> ('c, cache_error option) returned) \<Rightarrow>
   string \<Rightarrow> 'v \<Rightarrow> int \<Rightarrow> int \<Rightarrow> 'd \<times> 'c \<Rightarrow> ('d \<times> 'c, 'e wt_error option) returned" where
  "WriteThrough_Set storeFunc put key val expiration now s =
     (case s of (d, c) \<Rightarrow>
       (case storeFunc key val expiration d of
          (Some e, d) \<Rightarrow> Some (Inr ((d, c), Some (StoreErr e)))
        | (None, d) \<Rightarrow> map_option (\<lambda>r. sum_bind r (\<lambda>(c, e). Inr ((d, c), map_option CacheErr e))) (put key val expiration now c)))"

text \<open>
  A goroutine that the asynchronous variants start; \<^verbatim>\<open>log.Fatalln\<close> at an error ends the process.
\<close>

datatype task_end = Done | Fatal

definition cache_task ::
  "(string \<Rightarrow> 'v \<Rightarrow> int \<Rightarrow> int \<Rightarrow> 'c \<Rightarrow> ('c, cache_error option) returned) \<Rightarrow> string \<Rightarrow> 'v \<Rightarrow> int \<Rightarrow> int \<Rightarrow> 'd \<times> 'c \<Rightarrow>
   ('d \<times> 'c, task_end) returned" where
  "cache_task put key val expiration now s =
     (case s of (d, c) \<Rightarrow>
       map_option (\<lambda>r. sum_bind r (\<lambda>(c, e). Inr ((d, c), if e = None then Done else Fatal))) (put key val expiration now c))"

text \<open>The first component of the answer is the error, the second the goroutine that is left behind.\<close>

definition WriteThrough_SemiAsyncSet ::
  "(string \<Rightarrow> 'v \<Rightarrow> int \<Rightarrow> 'd \<Rightarrow> 'e option \<times> 'd) \<Rightarrow> (string \<Rightarrow> 'v \<Rightarrow> int \<Rightarrow> int \<Rightarrow> 'c \<Rightarrow> ('c, cache_error option) returned) \<Rightarrow>
   string \<Rightarrow> 'v \<Rightarrow> int \<Rightarrow> 'd \<times> 'c \<Rightarrow> ('d \<times> 'c) \<times> 'e wt_error option \<times> (int \<Rightarrow> 'd \<times> 'c \<Rightarrow> ('d \<times> 'c, task_end) returned)" where
  "WriteThrough_SemiAsyncSet storeFunc put key val expiration s =
     (case s of (d, c) \<Rightarrow>
       (case storeFunc key val expiration d of (e, d) \<Rightarrow> ((d, c), map_option StoreErr e, cache_task put key val expiration)))"

definition WriteThrough_AsyncSet ::
  "(string \<Rightarrow> 'v \<Rightarrow> int \<Rightarrow> 'd \<Rightarrow> 'e option \<times> 'd) \<Rightarrow> (string \<Rightarrow> 'v \<Rightarrow> int \<Rightarrow> int \<Rightarrow> 'c \<Rightarrow> ('c, cache_error option) returned) \<Rightarrow>
   string \<Rightarrow> 'v \<Rightarrow> int \<Rightarrow> 'd \<times> 'c \<Rightarrow> ('d \<times> 'c) \<times> 'e wt_error option \<times> (int \<Rightarrow> 'd \<times> 'c \<Rightarrow> ('d \<times> 'c, task_end) returned)" where
  "WriteThrough_AsyncSet storeFunc put key val expiration s =
     (s, None, \<lambda>now (d, c).
        (case storeFunc key val expiration d of
           (Some e, d) \<Rightarrow> Some (Inr ((d, c), Fatal))
         | (None, d) \<Rightarrow> cache_task put key val expiration now (d, c)))"

section \<open>Read-through\<close>

text \<open>
  \<^verbatim>\<open>Get\<close> means to ask the wrapped cache but calls itself: the embedded \<^verbatim>\<open>Cache\<close> has a method of the same
  name, which the method of the wrapper hides. An error that was just created is identical with no
  other error, so that \<^verbatim>\<open>errors.Is(err, errs.NewErrKeyNotFound(key))\<close> is false.
\<close>

datatype ('e, 'v) rt_result = Value "'v option" | LoadErr 'e | RtCacheErr cache_error | RefreshErr "'v option" cache_error

definition errors_Is_new :: "('e, 'v) rt_result \<Rightarrow> string \<Rightarrow> bool" where
  "errors_Is_new r key = False"

definition load_and_set ::
  "(string \<Rightarrow> 'd \<Rightarrow> ('e + 'v) \<times> 'd) \<Rightarrow> (string \<Rightarrow> 'v \<Rightarrow> int \<Rightarrow> int \<Rightarrow> 'c \<Rightarrow> ('c, cache_error option) returned) \<Rightarrow> int \<Rightarrow> string \<Rightarrow> int \<Rightarrow>
   'd \<times> 'c \<Rightarrow> ('d \<times> 'c, ('e, 'v) rt_result) returned" where
  "load_and_set LoadFunc put expiration key now s =
     (case s of (d, c) \<Rightarrow>
       (case LoadFunc key d of
          (Inl e, d) \<Rightarrow> Some (Inr ((d, c), LoadErr e))
        | (Inr v, d) \<Rightarrow>
            map_option (\<lambda>r. sum_bind r (\<lambda>(c, e). Inr ((d, c), case e of None \<Rightarrow> Value (Some v) | Some e \<Rightarrow> RefreshErr (Some v) e)))
              (put key v expiration now c)))"

partial_function (option) ReadThrough_Get ::
  "(string \<Rightarrow> 'd \<Rightarrow> ('e + 'v) \<times> 'd) \<Rightarrow> (string \<Rightarrow> 'v \<Rightarrow> int \<Rightarrow> int \<Rightarrow> 'c \<Rightarrow> ('c, cache_error option) returned) \<Rightarrow> int \<Rightarrow> string \<Rightarrow> int \<Rightarrow>
   'd \<times> 'c \<Rightarrow> ('d \<times> 'c, ('e, 'v) rt_result) returned" where
  "ReadThrough_Get LoadFunc put expiration key now s =
     Option.bind (ReadThrough_Get LoadFunc put expiration key now s)
       (\<lambda>ret. case ret of
          Inl p \<Rightarrow> Some (Inl p)
        | Inr (s, r) \<Rightarrow>
            if errors_Is_new r key then load_and_set LoadFunc put expiration key now s else Some (Inr (s, r)))"

text \<open>The asynchronous variants also start with \<^verbatim>\<open>Get\<close>; the last component says what the goroutine has to do.\<close>

datatype 'v rt_task = Nothing | LoadAndSet | SetValue 'v

definition ReadThrough_AsyncGet ::
  "(string \<Rightarrow> 'd \<Rightarrow> ('e + 'v) \<times> 'd) \<Rightarrow> (string \<Rightarrow> 'v \<Rightarrow> int \<Rightarrow> int \<Rightarrow> 'c \<Rightarrow> ('c, cache_error option) returned) \<Rightarrow> int \<Rightarrow> string \<Rightarrow> int \<Rightarrow>
   'd \<times> 'c \<Rightarrow> ('d \<times> 'c, ('e, 'v) rt_result \<times> 'v rt_task) returned" where
  "ReadThrough_AsyncGet LoadFunc put expiration key now s =
     (case ReadThrough_Get LoadFunc put expiration key now s of
        None \<Rightarrow> None
      | Some (Inl p) \<Rightarrow> Some (Inl p)
      | Some (Inr (s, r)) \<Rightarrow> Some (Inr (s, r, if errors_Is_new r key then LoadAndSet else Nothing)))"

definition ReadThrough_SemiAsyncGet ::
  "(string \<Rightarrow> 'd \<Rightarrow> ('e + 'v) \<times> 'd) \<Rightarrow> (string \<Rightarrow> 'v \<Rightarrow> int \<Rightarrow> int \<Rightarrow> 'c \<Rightarrow> ('c, cache_error option) returned) \<Rightarrow> int \<Rightarrow> string \<Rightarrow> int \<Rightarrow>
   'd \<times> 'c \<Rightarrow> ('d \<times> 'c, ('e, 'v) rt_result \<times> 'v rt_task) returned" where
  "ReadThrough_SemiAsyncGet LoadFunc put expiration key now s =
     (case ReadThrough_Get LoadFunc put expiration key now s of
        None \<Rightarrow> None
      | Some (Inl p) \<Rightarrow> Some (Inl p)
      | Some (Inr ((d, c), r)) \<Rightarrow>
          if errors_Is_new r key then
            (case LoadFunc key d of
               (Inl e, d) \<Rightarrow> Some (Inr ((d, c), LoadErr e, Nothing))
             | (Inr v, d) \<Rightarrow> Some (Inr ((d, c), Value (Some v), SetValue v)))
          else Some (Inr ((d, c), r, Nothing)))"

section \<open>Redis\<close>

datatype 'e redis_error = ClientErr 'e | ErrRedisSetFailed string

definition RedisCache_Set :: "(string \<Rightarrow> 'v \<Rightarrow> int \<Rightarrow> 's \<Rightarrow> ('e + string) \<times> 's) \<Rightarrow> string \<Rightarrow> 'v \<Rightarrow> int \<Rightarrow> 's \<Rightarrow> 'e redis_error option \<times> 's" where
  "RedisCache_Set client_Set key val expiration s =
     (case client_Set key val expiration s of
        (Inl e, s) \<Rightarrow> (Some (ClientErr e), s)
      | (Inr res, s) \<Rightarrow> if res \<noteq> ''OK'' then (Some (ErrRedisSetFailed res), s) else (None, s))"

definition RedisCache_Get :: "(string \<Rightarrow> 's \<Rightarrow> ('e + string) \<times> 's) \<Rightarrow> string \<Rightarrow> 's \<Rightarrow> ('e + string) \<times> 's" where
  "RedisCache_Get client_Get key s = client_Get key s"

definition RedisCache_Delete :: "(string \<Rightarrow> 's \<Rightarrow> ('e + int) \<times> 's) \<Rightarrow> string \<Rightarrow> 's \<Rightarrow> 'e option \<times> 's" where
  "RedisCache_Delete client_Del key s =
     (case client_Del key s of (Inl e, s) \<Rightarrow> (Some e, s) | (Inr _, s) \<Rightarrow> (None, s))"

section \<open>Write-through over any cache\<close>

context kv_cache
begin

lemma write_through_ok:
  assumes "inv c" "WriteThrough_Set storeFunc put key val expiration now (d, c) = Some (Inr ((d', c'), None))"
  shows "storeFunc key val expiration d = (None, d') \<and> inv c' \<and>
    (expiration \<le> 0 \<or> t \<le> now + expiration \<longrightarrow> look key t c' = Inr (c', Inr (Some val)))"
proof -
  obtain e d1 where s: "storeFunc key val expiration d = (e, d1)" by (cases "storeFunc key val expiration d")
  with assms(2) have "e = None" "d1 = d'" "put key val expiration now c = Some (Inr (c', None))"
    by (auto simp: WriteThrough_Set_def sum_bind_Inr_iff split: option.splits)
  then show ?thesis using s put_inv [OF assms(1)] put_look [OF assms(1)] by simp
qed

lemma write_through_error:
  assumes "inv c" "WriteThrough_Set storeFunc put key val expiration now (d, c) = Some (Inr ((d', c'), Some e))"
  shows "c' = c"
  using assms(2) put_error [OF assms(1)]
  by (auto simp: WriteThrough_Set_def sum_bind_Inr_iff split: option.splits prod.splits)

end

interpretation local_cache: kv_cache cache_inv "Set of_key of_val" Get for of_key and of_val :: "'v \<Rightarrow> cache_error + u32"
proof
  fix c :: "'v BuildInMapCache" and key :: string and val :: 'v and expiration now t :: int and c' e
  assume inv: "cache_inv c"
  show "Set of_key of_val key val expiration now c = Some (Inr (c', e)) \<Longrightarrow> cache_inv c'" for e
    using inv by (rule Set_inv)
  show "Set of_key of_val key val expiration now c = Some (Inr (c', Some e)) \<Longrightarrow> c' = c" for e
    using inv by (cases rule: Set_cases [of c of_key of_val key val expiration now]) auto
  show "Get key t c' = Inr (c', Inr (Some val))"
    if "Set of_key of_val key val expiration now c = Some (Inr (c', None))" "expiration \<le> 0 \<or> t \<le> now + expiration"
    using inv
  proof (cases rule: Set_cases [of c of_key of_val key val expiration now])
    case (3 ks vs b1 b')
    then show ?thesis using that stored_kept_look(1) [OF 3(5-7) that(2)] Get_found by auto
  qed (use that in auto)
  show "\<exists>c' r. Get key t c = Inr (c', r) \<and> cache_inv c'"
    using Get_ok [OF inv] by metis
qed

section \<open>Properties\<close>

text \<open>
  C28: When \<^verbatim>\<open>Set\<close> of a write-through cache over the in-memory cache reports success, the value has
  been stored in the database without an error and can be read from the cache until its deadline;
  when it reports an error, the cache is as before.
\<close>

theorem write_through_consistent:
  assumes "cache_inv c" "WriteThrough_Set storeFunc (Set of_key of_val) key val expiration now (d, c) = Some (Inr ((d', c'), e))"
  shows "cache_inv c' \<and>
    (case e of
       None \<Rightarrow> storeFunc key val expiration d = (None, d') \<and>
         (\<forall>t. expiration \<le> 0 \<or> t \<le> now + expiration \<longrightarrow> Get key t c' = Inr (c', Inr (Some val)))
     | Some _ \<Rightarrow> c' = c)"
proof (cases e)
  case None
  then show ?thesis using local_cache.write_through_ok [OF assms [unfolded None]] by simp
next
  case (Some x)
  then show ?thesis using assms(1) local_cache.write_through_error [OF assms [unfolded Some]] by simp
qed

text \<open>An example database: the list of the stored pairs, which refuses the empty key.\<close>

definition list_store :: "string \<Rightarrow> nat \<Rightarrow> int \<Rightarrow> (string \<times> nat) list \<Rightarrow> string option \<times> (string \<times> nat) list" where
  "list_store key val expiration d = (if key = [] then (Some ''refused'', d) else (None, (key, val) # d))"

theorem write_through_consistent_witness:
  "\<exists>c'. WriteThrough_Set list_store (Set key_size val_size) ''a'' 7 0 0 ([], NewBuildInMapCache 100) = Some (Inr (([(''a'', 7)], c'), None)) \<and>
     Get ''a'' 1 c' = Inr (c', Inr (Some 7))"
proof -
  have s: "WriteThrough_Set list_store (Set key_size val_size) ''a'' 7 0 0 ([], NewBuildInMapCache 100) = Some (Inr (([(''a'', 7)], one_entry), None))"
    by (simp add: WriteThrough_Set_def list_store_def one_entry_set)
  from write_through_consistent [OF cache_inv_new s] have "Get ''a'' 1 one_entry = Inr (one_entry, Inr (Some 7))" by simp
  with s show ?thesis by blast
qed

text \<open>
  The half-asynchronous variant starts the goroutine also when the database has refused the value:
  the caller sees the error, and the cache serves a value that was never stored.
\<close>

lemma semi_async_caches_unstored:
  "case WriteThrough_SemiAsyncSet list_store (Set key_size val_size) [] 7 0 ([], NewBuildInMapCache 100) of
     (s, e, run) \<Rightarrow> e = Some (StoreErr ''refused'') \<and>
       (case run 0 s of Some (Inr ((d, c), Done)) \<Rightarrow> d = [] \<and> Get_look [] 1 c = Found (Some 7) | _ \<Rightarrow> False)"
  by code_simp

text \<open>
  C38: No variant of \<^verbatim>\<open>Get\<close> of a read-through cache ever returns, whatever the cache holds and the
  database answers: the method calls itself instead of the wrapped cache.
\<close>

theorem read_through_never_returns:
  "ReadThrough_Get LoadFunc put expiration key now s = None \<and>
   ReadThrough_AsyncGet LoadFunc put expiration key now s = None \<and>
   ReadThrough_SemiAsyncGet LoadFunc put expiration key now s = None"
proof -
  have "ReadThrough_Get LoadFunc put expiration key now s = Some r \<Longrightarrow> False" for r
    by (rule ReadThrough_Get.raw_induct [where P = "\<lambda>_ _ _ _ _ _ _. False"]) (auto simp: bind_eq_Some_conv)
  then have "ReadThrough_Get LoadFunc put expiration key now s = None" by (cases "ReadThrough_Get LoadFunc put expiration key now s") auto
  then show ?thesis by (simp add: ReadThrough_AsyncGet_def ReadThrough_SemiAsyncGet_def)
qed

end
