(* ===== verification/RedisLock.thy ===== *)
theory RedisLock
  imports Prelude
begin

text \<open>
  The distributed lock of \<^verbatim>\<open>cache/redis_lock.go\<close> with its Lua scripts (\<^verbatim>\<open>cache/lua\<close>) and the retry
  strategy of \<^verbatim>\<open>cache/retry.go\<close>. The Redis server is an argument: a record of its commands, with what
  their documentation promises as a predicate. A script runs on the server as one step.
\<close>

section \<open>The server\<close>

datatype client_error = DeadlineExceeded | OtherErr string

text \<open>An argument of a command: an integer, or a number that is not an integer.\<close>

datatype num_arg = IntArg int | FracArg int

record 's redis =
  r_GET :: "string \<Rightarrow> 's \<Rightarrow> string option"
  r_SET :: "string \<Rightarrow> string \<Rightarrow> num_arg \<Rightarrow> 's \<Rightarrow> (string + string) \<times> 's"   \<comment> \<open>\<^verbatim>\<open>SET key val EX n\<close>\<close>
  r_SETNX :: "string \<Rightarrow> string \<Rightarrow> int \<Rightarrow> 's \<Rightarrow> (string + bool) \<times> 's"
  r_EXPIRE :: "string \<Rightarrow> num_arg \<Rightarrow> 's \<Rightarrow> (string + int) \<times> 's"
  r_DEL :: "string \<Rightarrow> 's \<Rightarrow> int \<times> 's"
  r_LAPSE :: "string \<Rightarrow> 's \<Rightarrow> 's"   \<comment> \<open>the time to live of a key ends\<close>

definition positive_arg :: "num_arg \<Rightarrow> bool" where
  "positive_arg a = (case a of IntArg n \<Rightarrow> n > 0 | FracArg _ \<Rightarrow> False)"

text \<open>
  The documented behaviour. Any command with an expire time may be refused, and then it changes
  nothing; \<^verbatim>\<open>SET\<close> always refuses one that is not a positive integer and \<^verbatim>\<open>EXPIRE\<close> one that is not an
  integer, while \<^verbatim>\<open>EXPIRE\<close> deletes the key if the number is not positive.
\<close>

definition redis_laws :: "'s redis \<Rightarrow> bool" where
  "redis_laws R =
     ((\<forall>k v a s. case r_SET R k v a s of
          (Inl _, s') \<Rightarrow> s' = s
        | (Inr m, s') \<Rightarrow> m = ''OK'' \<and> positive_arg a \<and> (\<lambda>j. r_GET R j s') = (\<lambda>j. r_GET R j s)(k := Some v)) \<and>
      (\<forall>k v d s. case r_SETNX R k v d s of
          (Inl _, s') \<Rightarrow> s' = s
        | (Inr ok, s') \<Rightarrow> ok = (r_GET R k s = None) \<and>
            (\<lambda>j. r_GET R j s') = (if ok then (\<lambda>j. r_GET R j s)(k := Some v) else (\<lambda>j. r_GET R j s))) \<and>
      (\<forall>k a s. case r_EXPIRE R k a s of
          (Inl _, s') \<Rightarrow> s' = s
        | (Inr n, s') \<Rightarrow>
            (case a of
               FracArg _ \<Rightarrow> False
             | IntArg i \<Rightarrow> n = (if r_GET R k s = None then 0 else 1) \<and>
                 (\<lambda>j. r_GET R j s') = (if i > 0 then (\<lambda>j. r_GET R j s) else (\<lambda>j. r_GET R j s)(k := None)))) \<and>
      (\<forall>k s. fst (r_DEL R k s) = (if r_GET R k s = None then 0 else 1) \<and>
         (\<lambda>j. r_GET R j (snd (r_DEL R k s))) = (\<lambda>j. r_GET R j s)(k := None)) \<and>
      (\<forall>k s. (\<lambda>j. r_GET R j (r_LAPSE R k s)) = (\<lambda>j. r_GET R j s)(k := None)))"

section \<open>Calls over the network\<close>

text \<open>A request may be lost before it reaches the server, or its reply after it was executed.\<close>

datatype fault = NoFault | NoRequest client_error | NoReply client_error

definition call :: "fault \<Rightarrow> ('s \<Rightarrow> (string + 'r) \<times> 's) \<Rightarrow> 's \<Rightarrow> (client_error + 'r) \<times> 's" where
  "call f cmd s =
     (case f of
        NoRequest e \<Rightarrow> (Inl e, s)
      | NoReply e \<Rightarrow> (Inl e, snd (cmd s))
      | NoFault \<Rightarrow> (case cmd s of (Inl m, s) \<Rightarrow> (Inl (OtherErr m), s) | (Inr r, s) \<Rightarrow> (Inr r, s)))"

section \<open>Scripts\<close>

definition lua_lock :: "'s redis \<Rightarrow> string \<Rightarrow> string \<Rightarrow> num_arg \<Rightarrow> 's \<Rightarrow> (string + string) \<times> 's" where
  "lua_lock R key val a s =
     (if r_GET R key s = Some val then
        (case r_EXPIRE R key a s of (Inl m, s) \<Rightarrow> (Inl m, s) | (Inr _, s) \<Rightarrow> (Inr ''OK'', s))
      else if r_GET R key s = None then r_SET R key val a s
      else (Inr [], s))"

definition lua_refresh :: "'s redis \<Rightarrow> string \<Rightarrow> string \<Rightarrow> num_arg \<Rightarrow> 's \<Rightarrow> (string + int) \<times> 's" where
  "lua_refresh R key val a s = (if r_GET R key s = Some val then r_EXPIRE R key a s else (Inr 0, s))"

definition lua_unlock :: "'s redis \<Rightarrow> string \<Rightarrow> string \<Rightarrow> 's \<Rightarrow> (string + int) \<times> 's" where
  "lua_unlock R key val s =
     (if r_GET R key s = Some val then (case r_DEL R key s of (n, s) \<Rightarrow> (Inr n, s)) else (Inr 0, s))"

section \<open>The lock\<close>

datatype lock_error = ErrFailedToPreemptLock | ErrLockNotHold | ClientError client_error | CtxErr

record Lock =
  l_key :: string
  l_uuid :: string
  l_expiration :: int   \<comment> \<open>nanoseconds\<close>
  l_closed :: bool   \<comment> \<open>\<^verbatim>\<open>unlockedChan\<close> is closed\<close>

definition new_lock :: "string \<Rightarrow> string \<Rightarrow> int \<Rightarrow> Lock" where
  "new_lock key uuid expiration = \<lparr>l_key = key, l_uuid = uuid, l_expiration = expiration, l_closed = False\<rparr>"

definition TryLock :: "'s redis \<Rightarrow> fault \<Rightarrow> string \<Rightarrow> string \<Rightarrow> int \<Rightarrow> 's \<Rightarrow> (lock_error + Lock) \<times> 's" where
  "TryLock R f uuid key timeout s =
     (case call f (r_SETNX R key uuid timeout) s of
        (Inl e, s) \<Rightarrow> (Inl (ClientError e), s)
      | (Inr ok, s) \<Rightarrow> if \<not> ok then (Inl ErrFailedToPreemptLock, s) else (Inr (new_lock key uuid timeout), s))"

text \<open>The channel is closed after the call in any case; closing it a second time panics.\<close>

definition Unlock :: "'s redis \<Rightarrow> fault \<Rightarrow> Lock \<Rightarrow> 's \<Rightarrow> (go_panic + Lock \<times> lock_error option) \<times> 's" where
  "Unlock R f l s =
     (case call f (lua_unlock R (l_key l) (l_uuid l)) s of (r, s) \<Rightarrow>
        (if l_closed l then Inl (UserPanic ''close of closed channel'')
         else Inr (l\<lparr>l_closed := True\<rparr>,
                   case r of Inl e \<Rightarrow> Some (ClientError e) | Inr n \<Rightarrow> if n \<noteq> 1 then Some ErrLockNotHold else None), s))"

text \<open>\<^verbatim>\<open>expiration.Seconds()\<close> is sent as a decimal number.\<close>

definition seconds_arg :: "int \<Rightarrow> num_arg" where
  "seconds_arg d = (if d mod 1000000000 = 0 then IntArg (d div 1000000000) else FracArg d)"

definition Refresh :: "'s redis \<Rightarrow> fault \<Rightarrow> Lock \<Rightarrow> 's \<Rightarrow> lock_error option \<times> 's" where
  "Refresh R f l s =
     (case call f (lua_refresh R (l_key l) (l_uuid l) (seconds_arg (l_expiration l))) s of
        (Inl e, s) \<Rightarrow> (Some (ClientError e), s)
      | (Inr n, s) \<Rightarrow> if n \<noteq> 1 then (Some ErrLockNotHold, s) else (None, s))"

text \<open>
  What the loop of \<^verbatim>\<open>AutoRefresh\<close> sees: ticks, before each of which others may have used the server,
  and the closed channel. It returns at the first error, so that the retry after a timeout, which
  stands behind that return, is never reached. \<open>None\<close>: the loop is still waiting.
\<close>

datatype 's refresh_event = Tick "'s \<Rightarrow> 's" fault | Unlocked

fun AutoRefresh :: "'s redis \<Rightarrow> Lock \<Rightarrow> 's refresh_event list \<Rightarrow> 's \<Rightarrow> lock_error option option \<times> 's" where
  "AutoRefresh R l [] s = (None, s)"
| "AutoRefresh R l (Unlocked # es) s = (Some None, s)"
| "AutoRefresh R l (Tick others f # es) s =
     (case Refresh R f l (others s) of
        (Some e, s) \<Rightarrow> (Some (Some e), s)
      | (None, s) \<Rightarrow> AutoRefresh R l es s)"

section \<open>Retrying\<close>

record FixedRetryStrategy =
  Interval :: int
  MaxCnt :: int
  Cnt :: int

definition Next :: "FixedRetryStrategy \<Rightarrow> int option \<times> FixedRetryStrategy" where
  "Next f = (if Cnt f \<ge> MaxCnt f then (None, f) else (Some (Interval f), f\<lparr>Cnt := Cnt f + 1\<rparr>))"

text \<open>
  The loop of \<^verbatim>\<open>Lock\<close> for any strategy. \<open>env n\<close> is what happens around attempt \<open>n\<close>: the fault of the
  call, what others do while it waits, and whether the context ends first. The expiration is sent
  as the number of its nanoseconds. After a timeout the result is nil, and the type assertion on it panics.
\<close>

partial_function (option) Lock_loop ::
  "'s redis \<Rightarrow> (nat \<Rightarrow> fault \<times> ('s \<Rightarrow> 's) \<times> bool) \<Rightarrow> ('st \<Rightarrow> int option \<times> 'st) \<Rightarrow> string \<Rightarrow> string \<Rightarrow> int \<Rightarrow> nat \<Rightarrow> 'st \<Rightarrow> 's \<Rightarrow>
   ((go_panic + lock_error + Lock) \<times> nat \<times> 's) option" where
  "Lock_loop R env next_wait key val expiration n st s =
     (case env n of (f, others, ctx_done) \<Rightarrow>
       (case call f (lua_lock R key val (IntArg expiration)) s of (res, s) \<Rightarrow>
         (case res of
            Inl e \<Rightarrow> if e \<noteq> DeadlineExceeded then Some (Inr (Inl (ClientError e)), n, s) else Some (Inl (UserPanic ''interface conversion''), n, s)
          | Inr v \<Rightarrow>
              if v = ''OK'' then Some (Inr (Inr (new_lock key val expiration)), n, s)
              else (case next_wait st of (w, st) \<Rightarrow>
                (case w of
                   None \<Rightarrow> Some (Inr (Inl ErrFailedToPreemptLock), n, s)
                 | Some interval \<Rightarrow>
                     if ctx_done then Some (Inr (Inl CtxErr), n, s)
                     else Lock_loop R env next_wait key val expiration (Suc n) st (others s))))))"

section \<open>What the commands do to a key\<close>

lemma GET_SET:
  assumes "redis_laws R" "j \<noteq> k"
  shows "r_GET R j (snd (r_SET R k v a s)) = r_GET R j s"
proof -
  have "case r_SET R k v a s of
      (Inl _, s') \<Rightarrow> s' = s
    | (Inr m, s') \<Rightarrow> m = ''OK'' \<and> positive_arg a \<and> (\<lambda>j. r_GET R j s') = (\<lambda>j. r_GET R j s)(k := Some v)"
    by (rule conjunct1 [OF assms(1) [unfolded redis_laws_def], rule_format])
  with assms(2) show ?thesis by (auto simp: fun_eq_iff split: prod.splits sum.splits)
qed

lemma GET_SETNX:
  assumes "redis_laws R" "r_GET R key s = Some u"
  shows "r_GET R key (snd (r_SETNX R k v d s)) = Some u" "k = key \<Longrightarrow> fst (r_SETNX R k v d s) \<noteq> Inr True"
proof -
  have "case r_SETNX R k v d s of
      (Inl _, s') \<Rightarrow> s' = s
    | (Inr ok, s') \<Rightarrow> ok = (r_GET R k s = None) \<and>
        (\<lambda>j. r_GET R j s') = (if ok then (\<lambda>j. r_GET R j s)(k := Some v) else (\<lambda>j. r_GET R j s))"
    by (rule conjunct1 [OF conjunct2 [OF assms(1) [unfolded redis_laws_def]], rule_format])
  with assms(2) show "r_GET R key (snd (r_SETNX R k v d s)) = Some u" "k = key \<Longrightarrow> fst (r_SETNX R k v d s) \<noteq> Inr True"
    by (auto simp: fun_eq_iff split: prod.splits sum.splits if_splits)
qed

lemma EXPIRE_law:
  assumes "redis_laws R"
  shows "case r_EXPIRE R k a s of
      (Inl _, s') \<Rightarrow> s' = s
    | (Inr n, s') \<Rightarrow>
        (case a of
           FracArg _ \<Rightarrow> False
         | IntArg i \<Rightarrow> n = (if r_GET R k s = None then 0 else 1) \<and>
             (\<lambda>j. r_GET R j s') = (if i > 0 then (\<lambda>j. r_GET R j s) else (\<lambda>j. r_GET R j s)(k := None)))"
  by (rule conjunct1 [OF conjunct2 [OF conjunct2 [OF assms [unfolded redis_laws_def]]], rule_format])

lemma GET_EXPIRE:
  assumes "redis_laws R" "j \<noteq> k \<or> (case a of IntArg n \<Rightarrow> n > 0 | FracArg _ \<Rightarrow> True)"
  shows "r_GET R j (snd (r_EXPIRE R k a s)) = r_GET R j s"
  using EXPIRE_law [OF assms(1), where a = a and k = k and s = s] assms(2)
  by (auto simp: fun_eq_iff split: prod.splits sum.splits num_arg.splits if_splits)

lemma GET_DEL: "redis_laws R \<Longrightarrow> r_GET R j (snd (r_DEL R k s)) = (if j = k then None else r_GET R j s)"
  unfolding redis_laws_def fun_eq_iff by simp

lemma GET_LAPSE: "redis_laws R \<Longrightarrow> r_GET R j (r_LAPSE R k s) = (if j = k then None else r_GET R j s)"
  unfolding redis_laws_def fun_eq_iff by simp

section \<open>Runs of several clients\<close>

datatype lock_event =
    ETry fault string string int   \<comment> \<open>\<^verbatim>\<open>TryLock\<close>\<close>
  | EAttempt fault string string int   \<comment> \<open>one attempt of \<^verbatim>\<open>Lock\<close>\<close>
  | EUnlock fault Lock
  | ERefresh fault Lock
  | ELapse string

definition acquired :: "('e + 'l) \<times> 's \<Rightarrow> ('l \<Rightarrow> bool) \<Rightarrow> bool \<times> 's" where
  "acquired r ok = (case r of (Inl _, s) \<Rightarrow> (False, s) | (Inr l, s) \<Rightarrow> (ok l, s))"

text \<open>The answer says whether the client of the event now believes to have acquired the lock.\<close>

definition lock_step :: "'s redis \<Rightarrow> lock_event \<Rightarrow> 's \<Rightarrow> bool \<times> 's" where
  "lock_step R e s =
     (case e of
        ETry f uuid key timeout \<Rightarrow> acquired (TryLock R f uuid key timeout s) (\<lambda>_. True)
      | EAttempt f uuid key expiration \<Rightarrow> acquired (call f (lua_lock R key uuid (IntArg expiration)) s) (\<lambda>v. v = ''OK'')
      | EUnlock f l \<Rightarrow> (False, snd (Unlock R f l s))
      | ERefresh f l \<Rightarrow> (False, snd (Refresh R f l s))
      | ELapse key \<Rightarrow> (False, r_LAPSE R key s))"

fun lock_run :: "'s redis \<Rightarrow> lock_event list \<Rightarrow> 's \<Rightarrow> bool list \<times> 's" where
  "lock_run R [] s = ([], s)"
| "lock_run R (e # es) s = (let (a, s) = lock_step R e s; (as, s) = lock_run R es s in (a # as, s))"

text \<open>The events that take the lock \<open>key\<close> away from its holder \<open>u\<close>.\<close>

definition gives_up :: "string \<Rightarrow> string \<Rightarrow> lock_event \<Rightarrow> bool" where
  "gives_up key u e =
     (case e of
        ETry _ _ _ _ \<Rightarrow> False
      | EAttempt _ v k d \<Rightarrow> v = u \<and> k = key \<and> d \<le> 0
      | EUnlock _ l \<Rightarrow> l_uuid l = u \<and> l_key l = key
      | ERefresh _ l \<Rightarrow> l_uuid l = u \<and> l_key l = key \<and> l_expiration l \<le> 0
      | ELapse k \<Rightarrow> k = key)"

definition contends :: "string \<Rightarrow> string \<Rightarrow> lock_event \<Rightarrow> bool" where
  "contends key u e =
     (case e of ETry _ v k _ \<Rightarrow> k = key | EAttempt _ v k _ \<Rightarrow> k = key \<and> v \<noteq> u | _ \<Rightarrow> False)"

lemma snd_call: "snd (call f cmd s) = s \<or> snd (call f cmd s) = snd (cmd s)"
  by (auto simp: call_def split: fault.splits prod.splits sum.splits)

lemma snd_acquired [simp]: "snd (acquired r ok) = snd r"
  by (auto simp: acquired_def split: prod.splits sum.splits)

lemma snd_ops:
  "snd (TryLock R f uuid key timeout s) = snd (call f (r_SETNX R key uuid timeout) s)"
  "snd (Unlock R f l s) = snd (call f (lua_unlock R (l_key l) (l_uuid l)) s)"
  "snd (Refresh R f l s) = snd (call f (lua_refresh R (l_key l) (l_uuid l) (seconds_arg (l_expiration l))) s)"
  by (auto simp: TryLock_def Unlock_def Refresh_def split: prod.splits sum.splits)

lemma lua_lock_held:
  assumes "redis_laws R" "r_GET R key s = Some u" "k = key \<and> v = u \<longrightarrow> d > 0"
  shows "r_GET R key (snd (lua_lock R k v (IntArg d) s)) = Some u"
proof (cases "k = key")
  case True
  then show ?thesis using assms GET_EXPIRE [OF assms(1), of key key "IntArg d" s]
    by (auto simp: lua_lock_def split: prod.splits sum.splits)
next
  case False
  have "snd (lua_lock R k v (IntArg d) s) \<in> {s, snd (r_EXPIRE R k (IntArg d) s), snd (r_SET R k v (IntArg d) s)}"
    by (auto simp: lua_lock_def split: prod.splits sum.splits)
  then show ?thesis using False assms(2) GET_EXPIRE [OF assms(1), of key k "IntArg d" s] GET_SET [OF assms(1), of key k] by auto
qed

lemma lua_refresh_held:
  assumes "redis_laws R" "r_GET R key s = Some u" "k = key \<and> v = u \<longrightarrow> d > 0"
  shows "r_GET R key (snd (lua_refresh R k v (seconds_arg d) s)) = Some u"
proof (cases "k = key \<and> v = u")
  case True
  then have "case seconds_arg d of IntArg n \<Rightarrow> n > 0 | FracArg _ \<Rightarrow> True"
    using assms(3) by (auto simp: seconds_arg_def)
  then show ?thesis using True assms(2) GET_EXPIRE [OF assms(1), of key key "seconds_arg d" s] by (simp add: lua_refresh_def)
next
  case False
  then show ?thesis using assms(2) GET_EXPIRE [OF assms(1), of key k "seconds_arg d" s] by (cases "k = key") (auto simp: lua_refresh_def)
qed

lemma lua_unlock_held:
  assumes "redis_laws R" "r_GET R key s = Some u" "\<not> (k = key \<and> v = u)"
  shows "r_GET R key (snd (lua_unlock R k v s)) = Some u"
  using assms(2,3) GET_DEL [OF assms(1), of key k s] by (auto simp: lua_unlock_def split: prod.splits)

lemma lock_step_held:
  assumes "redis_laws R" "r_GET R key s = Some u" "\<not> gives_up key u e"
  shows "r_GET R key (snd (lock_step R e s)) = Some u"
proof (cases e)
  case (ETry f v k d)
  have "r_GET R key (snd (r_SETNX R k v d s)) = Some u" using assms(1,2) by (rule GET_SETNX(1))
  then show ?thesis using assms(2) snd_call [of f "r_SETNX R k v d" s]
    by (auto simp: lock_step_def ETry snd_ops)
next
  case (EAttempt f v k d)
  then have "r_GET R key (snd (lua_lock R k v (IntArg d) s)) = Some u"
    using assms by (intro lua_lock_held) (auto simp: gives_up_def)
  then show ?thesis using assms(2) snd_call [of f "lua_lock R k v (IntArg d)" s] by (auto simp: lock_step_def EAttempt)
next
  case (EUnlock f l)
  then have "r_GET R key (snd (lua_unlock R (l_key l) (l_uuid l) s)) = Some u"
    using assms by (intro lua_unlock_held) (auto simp: gives_up_def)
  then show ?thesis using assms(2) snd_call [of f "lua_unlock R (l_key l) (l_uuid l)" s]
    by (auto simp: lock_step_def EUnlock snd_ops)
next
  case (ERefresh f l)
  then have "r_GET R key (snd (lua_refresh R (l_key l) (l_uuid l) (seconds_arg (l_expiration l)) s)) = Some u"
    using assms by (intro lua_refresh_held) (auto simp: gives_up_def)
  then show ?thesis using assms(2) snd_call [of f "lua_refresh R (l_key l) (l_uuid l) (seconds_arg (l_expiration l))" s]
    by (auto simp: lock_step_def ERefresh snd_ops)
next
  case (ELapse k)
  then show ?thesis using assms GET_LAPSE [OF assms(1), of key k s] by (simp add: lock_step_def gives_up_def)
qed

lemma lock_step_refused:
  assumes "redis_laws R" "r_GET R key s = Some u" "contends key u e"
  shows "\<not> fst (lock_step R e s)"
proof (cases e)
  case (ETry f v k d)
  then have "fst (r_SETNX R k v d s) \<noteq> Inr True" using assms(3) GET_SETNX(2) [OF assms(1,2)] by (simp add: contends_def)
  then show ?thesis
    by (auto simp: lock_step_def ETry acquired_def TryLock_def call_def split: fault.splits prod.splits sum.splits if_splits)
next
  case (EAttempt f v k d)
  then have "lua_lock R k v (IntArg d) s = (Inr [], s)" using assms by (auto simp: contends_def lua_lock_def)
  then show ?thesis
    by (simp add: lock_step_def EAttempt acquired_def call_def split: fault.splits)
qed (use assms in \<open>simp_all add: contends_def\<close>)

section \<open>Properties\<close>

text \<open>A server for the examples: a map without times.\<close>

definition map_redis :: "(string \<rightharpoonup> string) redis" where
  "map_redis =
     \<lparr>r_GET = (\<lambda>k s. s k),
      r_SET = (\<lambda>k v a s. if positive_arg a then (Inr ''OK'', s(k \<mapsto> v)) else (Inl ''ERR invalid expire time'', s)),
      r_SETNX = (\<lambda>k v d s. if d < -1 then (Inl ''ERR invalid expire time'', s) else if s k = None then (Inr True, s(k \<mapsto> v)) else (Inr False, s)),
      r_EXPIRE = (\<lambda>k a s. case a of
         FracArg _ \<Rightarrow> (Inl ''ERR value is not an integer'', s)
       | IntArg n \<Rightarrow> if s k = None then (Inr 0, s) else (Inr 1, if n > 0 then s else s(k := None))),
      r_DEL = (\<lambda>k s. (if s k = None then 0 else 1, s(k := None))),
      r_LAPSE = (\<lambda>k s. s(k := None))\<rparr>"

lemma map_redis_laws: "redis_laws map_redis"
  by (auto simp: redis_laws_def map_redis_def fun_eq_iff split: option.splits num_arg.splits)

text \<open>
  C12: Mutual exclusion. While the server holds the value of client \<open>u\<close> for a key, and until \<open>u\<close> itself
  unlocks, the key expires or \<open>u\<close> renews it with an expiration that is not positive, no sequence of
  calls of any clients changes that - with requests and replies lost in any way - and every attempt
  of another client to get the lock in between fails.
\<close>

theorem redis_lock_exclusive:
  assumes "redis_laws R" "r_GET R key s = Some u" "\<forall>e \<in> set es. \<not> gives_up key u e" "lock_run R es s = (as, s')"
  shows "r_GET R key s' = Some u \<and> (\<forall>i < length es. contends key u (es ! i) \<longrightarrow> \<not> as ! i)"
  using assms(2-4)
proof (induction es arbitrary: s as)
  case (Cons e es)
  obtain a s1 where 1: "lock_step R e s = (a, s1)" by fastforce
  obtain as' s2 where 2: "lock_run R es s1 = (as', s2)" by fastforce
  have h: "r_GET R key s1 = Some u" using lock_step_held [OF assms(1) Cons.prems(1), of e] Cons.prems(2) 1 by simp
  have r: "contends key u e \<Longrightarrow> \<not> a" using lock_step_refused [OF assms(1) Cons.prems(1), of e] 1 by simp
  have e: "as = a # as'" "s' = s2" using Cons.prems(3) 1 2 by simp_all
  have "r_GET R key s' = Some u \<and> (\<forall>i < length es. contends key u (es ! i) \<longrightarrow> \<not> as' ! i)"
    using Cons.IH [OF h] Cons.prems(2) 2 e(2) by simp
  then show ?case using r by (auto simp: e nth_Cons split: nat.splits)
qed simp

theorem redis_lock_exclusive_witness:
  "\<exists>s. TryLock map_redis NoFault ''u'' ''k'' 1000000000 Map.empty = (Inr (new_lock ''k'' ''u'' 1000000000), s) \<and>
     fst (lock_run map_redis [EAttempt NoFault ''v'' ''k'' 5, EUnlock NoFault (new_lock ''k'' ''v'' 5), ETry NoFault ''w'' ''k'' 5] s) ! 2 = False"
proof -
  let ?s = "[''k'' \<mapsto> ''u'']"
  let ?es = "[EAttempt NoFault ''v'' ''k'' 5, EUnlock NoFault (new_lock ''k'' ''v'' 5), ETry NoFault ''w'' ''k'' 5]"
  have "TryLock map_redis NoFault ''u'' ''k'' 1000000000 Map.empty = (Inr (new_lock ''k'' ''u'' 1000000000), ?s)"
    by (simp add: TryLock_def call_def map_redis_def)
  moreover have "\<not> fst (lock_run map_redis ?es ?s) ! 2"
  proof -
    obtain as s' where r: "lock_run map_redis ?es ?s = (as, s')" by (cases "lock_run map_redis ?es ?s")
    have "\<forall>i < length ?es. contends ''k'' ''u'' (?es ! i) \<longrightarrow> \<not> as ! i"
      by (rule conjunct2 [OF redis_lock_exclusive [OF map_redis_laws _ _ r]])
        (simp_all add: map_redis_def gives_up_def new_lock_def)
    from this [rule_format, of 2] have "\<not> as ! 2" by (simp add: contends_def)
    then show ?thesis unfolding r by simp
  qed
  ultimately show ?thesis by auto
qed

text \<open>
  Unlocking. The holder's \<^verbatim>\<open>Unlock\<close> that reaches the server frees the key and reports no error;
  anyone else's reports \<^verbatim>\<open>ErrLockNotHold\<close> and changes nothing on the server.
\<close>

lemma unlock_owner_only:
  assumes "redis_laws R" "\<not> l_closed l"
  shows "if r_GET R (l_key l) s = Some (l_uuid l)
    then \<exists>s'. Unlock R NoFault l s = (Inr (l\<lparr>l_closed := True\<rparr>, None), s') \<and>
      (\<lambda>j. r_GET R j s') = (\<lambda>j. r_GET R j s)(l_key l := None)
    else Unlock R NoFault l s = (Inr (l\<lparr>l_closed := True\<rparr>, Some ErrLockNotHold), s)"
proof (cases "r_GET R (l_key l) s = Some (l_uuid l)")
  case True
  obtain n s' where d: "r_DEL R (l_key l) s = (n, s')" by fastforce
  have "n = 1" using assms(1) True d unfolding redis_laws_def by (metis fst_conv option.distinct(1))
  moreover have "(\<lambda>j. r_GET R j s') = (\<lambda>j. r_GET R j s)(l_key l := None)"
    using GET_DEL [OF assms(1), of _ "l_key l" s] d by (auto simp: fun_eq_iff)
  ultimately show ?thesis using True assms(2) d by (simp add: Unlock_def call_def lua_unlock_def)
next
  case False
  then show ?thesis using assms(2) by (simp add: Unlock_def call_def lua_unlock_def)
qed

text \<open>
  C30: \<^verbatim>\<open>Lock\<close> with the fixed strategy ends for every server, every loss of messages and every behaviour
  of the other clients, after at most as many further attempts as the strategy allows retries.
\<close>

theorem lock_retry_terminates:
  "\<exists>r m s'. Lock_loop R env Next key val expiration n st s = Some (r, m, s') \<and> m \<le> n + nat (MaxCnt st - Cnt st)"
proof (induction "nat (MaxCnt st - Cnt st)" arbitrary: n st s)
  case 0
  then show ?case
    by (subst Lock_loop.simps) (auto simp: Next_def split: prod.split sum.split)
next
  case (Suc k)
  then have c: "Cnt st < MaxCnt st" by simp
  have k: "k = nat (MaxCnt (st\<lparr>Cnt := Cnt st + 1\<rparr>) - Cnt (st\<lparr>Cnt := Cnt st + 1\<rparr>))" using Suc(2) by simp
  have "\<exists>r m s'. Lock_loop R env Next key val expiration (Suc n) (st\<lparr>Cnt := Cnt st + 1\<rparr>) s1 = Some (r, m, s') \<and> m \<le> Suc n + k" for s1
    using Suc(1) [OF k, of "Suc n" s1] k by simp
  then show ?case using c Suc(2) [symmetric]
    by (subst Lock_loop.simps) (auto simp: Next_def split: prod.split sum.split)
qed

text \<open>
  A timeout of the call leaves a nil result, and the type assertion on it panics instead of retrying.
\<close>

lemma lock_timeout_panics:
  "env n = (NoRequest DeadlineExceeded, others, ended) \<Longrightarrow>
   Lock_loop R env next_wait key val expiration n st s = Some (Inl (UserPanic ''interface conversion''), n, s)"
  by (subst Lock_loop.simps) (simp add: call_def)

text \<open>
  A timeout of a refresh ends the automatic renewal, and a lifetime that is not a whole number of
  seconds cannot be renewed at all.
\<close>

lemma refresh_timeout_ends:
  "AutoRefresh R l (Tick others (NoRequest DeadlineExceeded) # es) s = (Some (Some (ClientError DeadlineExceeded)), others s)"
  by (simp add: Refresh_def call_def)

lemma fraction_not_renewed:
  assumes "redis_laws R" "r_GET R (l_key l) s = Some (l_uuid l)" "l_expiration l mod 1000000000 \<noteq> 0"
  shows "\<exists>m. Refresh R NoFault l s = (Some (ClientError (OtherErr m)), s)"
  using EXPIRE_law [OF assms(1), where a = "FracArg (l_expiration l)" and k = "l_key l" and s = s] assms(2,3)
  by (cases "r_EXPIRE R (l_key l) (FracArg (l_expiration l)) s")
    (auto simp: Refresh_def call_def lua_refresh_def seconds_arg_def split: sum.splits)

end
