(* ===== verification/RpcMessage.thy ===== *)
theory RpcMessage
  imports Frame "HOL-Library.Multiset"
begin

text \<open>
  The messages of \<^verbatim>\<open>micro/rpc\<close>: \<^verbatim>\<open>message/request.go\<close>, \<^verbatim>\<open>message/response.go\<close> and the stream helpers of
  \<^verbatim>\<open>common.go\<close>. A message is a header of 15 bytes, a variable part that ends with the header length and a body.
  In a request the variable part holds the names and the metadata, separated by line feeds and
  carriage returns. Strings are byte lists; every slice expression is checked against the bounds.
\<close>

section \<open>Data\<close>

record Request =
  rq_HeadLength :: u32
  rq_BodyLength :: u32
  rq_MessageID :: u32
  rq_Version :: u8
  rq_Compressor :: u8
  rq_Serializer :: u8
  rq_ServiceName :: bytes
  rq_MethodName :: bytes
  rq_Meta :: "(bytes \<times> bytes) list"   \<comment> \<open>one pair per key; nil and empty are the same\<close>
  rq_Data :: bytes

record Response =
  rs_HeadLength :: u32
  rs_BodyLength :: u32
  rs_MessageID :: u32
  rs_Version :: u8
  rs_Compressor :: u8
  rs_Serializer :: u8
  rs_ErrorInfo :: bytes
  rs_Data :: bytes

section \<open>Requests\<close>

definition rq_CalculateHeadLength :: "Request \<Rightarrow> Request" where
  "rq_CalculateHeadLength r =
     r\<lparr>rq_HeadLength := fold (\<lambda>(key, val) n. n + of_nat (length key + 1 + length val + 1)) (rq_Meta r)
        (of_nat (15 + length (rq_ServiceName r) + 1 + length (rq_MethodName r) + 1))\<rparr>"

definition rq_CalculateBodyLength :: "Request \<Rightarrow> Request" where
  "rq_CalculateBodyLength r = r\<lparr>rq_BodyLength := of_nat (length (rq_Data r))\<rparr>"

text \<open>A slice \<^verbatim>\<open>cur\<close> of the buffer \<^verbatim>\<open>bs\<close> is the position where it starts.\<close>

definition put_bytes :: "bytes \<Rightarrow> nat \<times> bytes \<Rightarrow> go_panic + nat \<times> bytes" where
  "put_bytes src w =
     (case w of (pos, bs) \<Rightarrow>
       if pos + length src \<le> length bs then Inr (pos + length src, copy_at pos src bs) else Inl IndexPanic)"

definition put_byte :: "u8 \<Rightarrow> nat \<times> bytes \<Rightarrow> go_panic + nat \<times> bytes" where
  "put_byte b w = (case w of (pos, bs) \<Rightarrow> if pos < length bs then Inr (Suc pos, bs[pos := b]) else Inl IndexPanic)"

definition put_line :: "bytes \<Rightarrow> nat \<times> bytes \<Rightarrow> go_panic + nat \<times> bytes" where
  "put_line src w = sum_bind (put_bytes src w) (put_byte 10)"

fun put_meta :: "(bytes \<times> bytes) list \<Rightarrow> nat \<times> bytes \<Rightarrow> go_panic + nat \<times> bytes" where
  "put_meta [] w = Inr w"
| "put_meta ((key, val) # m) w =
     sum_bind (put_bytes key w) (\<lambda>w. sum_bind (put_byte 13 w) (\<lambda>w. sum_bind (put_line val w) (put_meta m)))"

definition put_fixed :: "u32 \<Rightarrow> u32 \<Rightarrow> u32 \<Rightarrow> u8 \<Rightarrow> u8 \<Rightarrow> u8 \<Rightarrow> bytes \<Rightarrow> go_panic + nat \<times> bytes" where
  "put_fixed hl bl mid ver cmp ser bs =
     (if length bs < 15 then Inl IndexPanic
      else Inr (15, copy_at 0 (be_put 4 hl @ be_put 4 bl @ be_put 4 mid @ [ver, cmp, ser]) bs))"

text \<open>\<open>range_order\<close> is the order in which the range over the metadata visits the pairs.\<close>

definition EncodeRequest :: "((bytes \<times> bytes) list \<Rightarrow> (bytes \<times> bytes) list) \<Rightarrow> Request \<Rightarrow> go_panic + bytes" where
  "EncodeRequest range_order r =
     sum_bind (put_fixed (rq_HeadLength r) (rq_BodyLength r) (rq_MessageID r) (rq_Version r) (rq_Compressor r) (rq_Serializer r)
                 (replicate (unat (rq_HeadLength r + rq_BodyLength r)) 0))
       (\<lambda>w. sum_bind (put_line (rq_ServiceName r) w)
         (\<lambda>w. sum_bind (put_line (rq_MethodName r) w)
           (\<lambda>w. sum_bind (put_meta (range_order (rq_Meta r)) w)
             (\<lambda>(pos, bs). Inr (if rq_BodyLength r > 0 then copy_at pos (rq_Data r) bs else bs)))))"

definition cut_line :: "bytes \<Rightarrow> go_panic + bytes \<times> bytes" where
  "cut_line header =
     (case index_byte 10 header of None \<Rightarrow> Inl IndexPanic | Some i \<Rightarrow> Inr (take i header, drop (Suc i) header))"

definition map_set :: "'k \<Rightarrow> 'v \<Rightarrow> ('k \<times> 'v) list \<Rightarrow> ('k \<times> 'v) list" where
  "map_set k v m = (if k \<in> fst ` set m then map (\<lambda>(j, w). (j, if j = k then v else w)) m else m @ [(k, v)])"

function cut_meta :: "bytes \<Rightarrow> (bytes \<times> bytes) list \<Rightarrow> go_panic + (bytes \<times> bytes) list" where
  "cut_meta header m =
     (case index_byte 10 header of
        None \<Rightarrow> Inr m
      | Some i \<Rightarrow>
          (case index_byte 13 (take i header) of
             None \<Rightarrow> Inl IndexPanic
           | Some j \<Rightarrow> cut_meta (drop (Suc i) header) (map_set (take j (take i header)) (drop (Suc j) (take i header)) m)))"
  by pat_completeness auto

termination cut_meta
  by (relation "measure (\<lambda>(h, _). length h)") (auto simp: index_byte_Some_iff)

definition get_fixed :: "bytes \<Rightarrow> go_panic + u32 \<times> u32 \<times> u32 \<times> u8 \<times> u8 \<times> u8" where
  "get_fixed data =
     (if length data < 15 then Inl IndexPanic
      else Inr (be_get (take 4 data), be_get (take 4 (drop 4 data)), be_get (take 4 (drop 8 data)),
                data ! 12, data ! 13, data ! 14))"

text \<open>\<^verbatim>\<open>data[15:headLength]\<close>\<close>

definition get_header :: "u32 \<Rightarrow> bytes \<Rightarrow> go_panic + bytes" where
  "get_header hl data =
     (if unat hl < 15 \<or> length data < unat hl then Inl IndexPanic else Inr (drop 15 (take (unat hl) data)))"

definition DecodeRequest :: "bytes \<Rightarrow> go_panic + Request" where
  "DecodeRequest data =
     sum_bind (get_fixed data) (\<lambda>(hl, bl, mid, ver, cmp, ser).
       sum_bind (get_header hl data) (\<lambda>header.
         sum_bind (cut_line header) (\<lambda>(service, header).
           sum_bind (cut_line header) (\<lambda>(method, header).
             sum_bind (cut_meta header []) (\<lambda>meta.
               Inr \<lparr>rq_HeadLength = hl, rq_BodyLength = bl, rq_MessageID = mid, rq_Version = ver, rq_Compressor = cmp,
                    rq_Serializer = ser, rq_ServiceName = service, rq_MethodName = method, rq_Meta = meta,
                    rq_Data = (if bl > 0 then drop (unat hl) data else [])\<rparr>)))))"

section \<open>Responses\<close>

definition rs_CalculateHeadLength :: "Response \<Rightarrow> Response" where
  "rs_CalculateHeadLength r = r\<lparr>rs_HeadLength := of_nat (15 + length (rs_ErrorInfo r))\<rparr>"

definition rs_CalculateBodyLength :: "Response \<Rightarrow> Response" where
  "rs_CalculateBodyLength r = r\<lparr>rs_BodyLength := of_nat (length (rs_Data r))\<rparr>"

definition EncodeResponse :: "Response \<Rightarrow> go_panic + bytes" where
  "EncodeResponse r =
     sum_bind (put_fixed (rs_HeadLength r) (rs_BodyLength r) (rs_MessageID r) (rs_Version r) (rs_Compressor r) (rs_Serializer r)
                 (replicate (unat (rs_HeadLength r + rs_BodyLength r)) 0))
       (\<lambda>w. sum_bind (put_bytes (rs_ErrorInfo r) w) (\<lambda>(pos, bs). Inr (copy_at pos (rs_Data r) bs)))"

definition DecodeResponse :: "bytes \<Rightarrow> go_panic + Response" where
  "DecodeResponse data =
     sum_bind (get_fixed data) (\<lambda>(hl, bl, mid, ver, cmp, ser).
       sum_bind (get_header hl data) (\<lambda>header.
         Inr \<lparr>rs_HeadLength = hl, rs_BodyLength = bl, rs_MessageID = mid, rs_Version = ver, rs_Compressor = cmp,
              rs_Serializer = ser, rs_ErrorInfo = header, rs_Data = (if bl > 0 then drop (unat hl) data else [])\<rparr>))"

section \<open>Streams\<close>

text \<open>
  A connection is the list of the segments that have arrived. One \<^verbatim>\<open>Read\<close> returns bytes of the first
  segment only, at most as many as asked for; the callers ignore how many there were, so that the
  rest of their buffer stays zero. The end of the list is the end of the stream.
\<close>

datatype conn_error = EOF

definition conn_Read :: "nat \<Rightarrow> bytes list \<Rightarrow> (conn_error + bytes) \<times> bytes list" where
  "conn_Read n segs =
     (if n = 0 then (Inr [], segs)
      else (case segs of
              [] \<Rightarrow> (Inl EOF, [])
            | seg # segs \<Rightarrow> (Inr (take n seg @ replicate (n - length seg) 0),
                             if length seg \<le> n then segs else drop n seg # segs)))"

definition numOfLengthBytes :: nat where "numOfLengthBytes = 8"

definition receive_stream :: "bytes list \<Rightarrow> (go_panic + conn_error + bytes) \<times> bytes list" where
  "receive_stream segs =
     (case conn_Read numOfLengthBytes segs of
        (Inl e, segs) \<Rightarrow> (Inr (Inl e), segs)
      | (Inr len, segs) \<Rightarrow>
          let total = unat (be_get (take 4 len) + be_get (drop 4 len) :: u32)
          in if total < numOfLengthBytes then (Inl IndexPanic, segs)
             else (case conn_Read (total - numOfLengthBytes) segs of
                     (Inl e, segs) \<Rightarrow> (Inr (Inl e), segs)
                   | (Inr rest, segs) \<Rightarrow> (Inr (Inr (len @ rest)), segs)))"

definition ReceiveRequestStream :: "bytes list \<Rightarrow> (go_panic + conn_error + bytes) \<times> bytes list" where
  "ReceiveRequestStream segs = receive_stream segs"

definition ReceiveResponseStream :: "bytes list \<Rightarrow> (go_panic + conn_error + bytes) \<times> bytes list" where
  "ReceiveResponseStream segs = receive_stream segs"

definition EncapsulatedData :: "bytes \<Rightarrow> bytes" where
  "EncapsulatedData data = copy_at numOfLengthBytes data
     (copy_at 0 (be_put 8 (of_nat (length data) :: u64)) (replicate (numOfLengthBytes + length data) 0))"

definition Recv :: "bytes list \<Rightarrow> (conn_error + bytes) \<times> bytes list" where
  "Recv segs =
     (case conn_Read numOfLengthBytes segs of
        (Inl e, segs) \<Rightarrow> (Inl e, segs)
      | (Inr len, segs) \<Rightarrow> conn_Read (unat (be_get len :: u64)) segs)"

section \<open>What the encoders write\<close>

definition fixed_part :: "u32 \<Rightarrow> u32 \<Rightarrow> u32 \<Rightarrow> u8 \<Rightarrow> u8 \<Rightarrow> u8 \<Rightarrow> bytes" where
  "fixed_part hl bl mid ver cmp ser = be_put 4 hl @ be_put 4 bl @ be_put 4 mid @ [ver, cmp, ser]"

definition meta_part :: "(bytes \<times> bytes) list \<Rightarrow> bytes" where
  "meta_part m = concat (map (\<lambda>(key, val). key @ 13 # val @ [10]) m)"

lemma length_fixed_part [simp]: "length (fixed_part hl bl mid ver cmp ser) = 15"
  by (simp add: fixed_part_def)

lemma put_bytes_step:
  "length src \<le> n \<Longrightarrow> put_bytes src (length xs, xs @ replicate n 0) = Inr (length (xs @ src), (xs @ src) @ replicate (n - length src) 0)"
  by (simp add: put_bytes_def copy_at_def)

lemma put_byte_step:
  "0 < n \<Longrightarrow> put_byte b (length xs, xs @ replicate n 0) = Inr (length (xs @ [b]), (xs @ [b]) @ replicate (n - 1) 0)"
  by (cases n) (simp_all add: put_byte_def list_update_append)

lemma put_line_step:
  "length src < n \<Longrightarrow> put_line src (length xs, xs @ replicate n 0) =
     Inr (length (xs @ src @ [10]), (xs @ src @ [10]) @ replicate (n - Suc (length src)) 0)"
  using put_bytes_step [of src n xs] put_byte_step [of "n - length src" 10 "xs @ src"] by (simp add: put_line_def)

lemma put_meta_step:
  "length (meta_part m) \<le> n \<Longrightarrow> put_meta m (length xs, xs @ replicate n 0) =
     Inr (length (xs @ meta_part m), (xs @ meta_part m) @ replicate (n - length (meta_part m)) 0)"
proof (induction m arbitrary: xs n)
  case Nil
  show ?case by (simp add: meta_part_def)
next
  case (Cons p m)
  obtain key val where p: "p = (key, val)" by fastforce
  have len: "length (meta_part (p # m)) = length key + length val + 2 + length (meta_part m)" by (simp add: meta_part_def p)
  have 1: "put_bytes key (length xs, xs @ replicate n 0) = Inr (length (xs @ key), (xs @ key) @ replicate (n - length key) 0)"
    using Cons.prems len by (intro put_bytes_step) simp
  have 2: "put_byte 13 (length (xs @ key), (xs @ key) @ replicate (n - length key) 0) =
      Inr (length (xs @ key @ [13]), (xs @ key @ [13]) @ replicate (n - length key - 1) 0)"
    using Cons.prems len put_byte_step [of "n - length key" 13 "xs @ key"] by simp
  have 3: "put_line val (length (xs @ key @ [13]), (xs @ key @ [13]) @ replicate (n - length key - 1) 0) =
      Inr (length (xs @ key @ [13] @ val @ [10]), (xs @ key @ [13] @ val @ [10]) @ replicate (n - length key - 1 - Suc (length val)) 0)"
    using Cons.prems len put_line_step [of val "n - length key - 1" "xs @ key @ [13]"] by simp
  have 4: "put_meta m (length (xs @ key @ [13] @ val @ [10]), (xs @ key @ [13] @ val @ [10]) @ replicate (n - length key - 1 - Suc (length val)) 0) =
      Inr (length ((xs @ key @ [13] @ val @ [10]) @ meta_part m), ((xs @ key @ [13] @ val @ [10]) @ meta_part m) @
        replicate (n - length key - 1 - Suc (length val) - length (meta_part m)) 0)"
    using Cons.prems len by (intro Cons.IH) simp
  have 5: "n - length key - 1 - Suc (length val) - length (meta_part m) = n - length (meta_part (p # m))" using len by simp
  show ?case
    unfolding p put_meta.simps 1 sum_bind_simps 2 3 4 5 [unfolded p] by (simp add: meta_part_def)
qed

lemma put_fixed_zeros:
  "15 \<le> n \<Longrightarrow> put_fixed hl bl mid ver cmp ser (replicate n 0) =
     Inr (length (fixed_part hl bl mid ver cmp ser), fixed_part hl bl mid ver cmp ser @ replicate (n - 15) 0)"
  by (simp add: put_fixed_def fixed_part_def copy_at_def)

text \<open>The length of the variable part of a request is what \<^verbatim>\<open>CalculateHeadLength\<close> computes.\<close>

definition request_header :: "((bytes \<times> bytes) list) \<Rightarrow> Request \<Rightarrow> bytes" where
  "request_header m r = rq_ServiceName r @ [10] @ rq_MethodName r @ [10] @ meta_part m"

lemma fold_meta_length:
  "fold (\<lambda>(key, val) n. n + of_nat (length key + 1 + length val + 1)) m (a :: u32) = a + of_nat (length (meta_part m))"
  by (induction m arbitrary: a) (auto simp: meta_part_def algebra_simps)

lemma length_meta_part_mset: "mset m' = mset m \<Longrightarrow> length (meta_part m') = length (meta_part m)"
proof -
  have l: "length (meta_part m) = sum_mset (image_mset (\<lambda>(k, v). length k + length v + 2) (mset m))" for m
    by (induction m) (auto simp: meta_part_def)
  show "mset m' = mset m \<Longrightarrow> length (meta_part m') = length (meta_part m)" by (simp add: l)
qed

lemma HeadLength_calculated:
  "rq_HeadLength (rq_CalculateHeadLength r) = of_nat (15 + length (request_header (rq_Meta r) r))"
  unfolding rq_CalculateHeadLength_def Request.simps Request.update_convs fold_meta_length by (simp add: request_header_def algebra_simps)

section \<open>Round trips\<close>

text \<open>Requests whose names and metadata do not contain the separators, and whose length fits.\<close>

definition plain :: "Request \<Rightarrow> bool" where
  "plain r = (10 \<notin> set (rq_ServiceName r) \<and> 10 \<notin> set (rq_MethodName r) \<and> distinct (map fst (rq_Meta r)) \<and>
     (\<forall>(key, val) \<in> set (rq_Meta r). 10 \<notin> set key \<and> 13 \<notin> set key \<and> 10 \<notin> set val) \<and>
     15 + length (request_header (rq_Meta r) r) + length (rq_Data r) < 2 ^ 32)"

definition with_lengths :: "Request \<Rightarrow> Request" where
  "with_lengths r = rq_CalculateBodyLength (rq_CalculateHeadLength r)"

lemma with_lengths_fields [simp]:
  "rq_MessageID (with_lengths r) = rq_MessageID r" "rq_Version (with_lengths r) = rq_Version r"
  "rq_Compressor (with_lengths r) = rq_Compressor r" "rq_Serializer (with_lengths r) = rq_Serializer r"
  "rq_ServiceName (with_lengths r) = rq_ServiceName r" "rq_MethodName (with_lengths r) = rq_MethodName r"
  "rq_Meta (with_lengths r) = rq_Meta r" "rq_Data (with_lengths r) = rq_Data r"
  "rq_HeadLength (with_lengths r) = of_nat (15 + length (request_header (rq_Meta r) r))"
  "rq_BodyLength (with_lengths r) = of_nat (length (rq_Data r))"
  by (simp_all only: with_lengths_def rq_CalculateBodyLength_def HeadLength_calculated [symmetric])
    (simp_all add: rq_CalculateHeadLength_def)

lemma encode_request_bytes:
  assumes "plain r" "mset (range_order (rq_Meta r)) = mset (rq_Meta r)"
  shows "EncodeRequest range_order (with_lengths r) =
    Inr (fixed_part (of_nat (15 + length (request_header (rq_Meta r) r))) (of_nat (length (rq_Data r)))
           (rq_MessageID r) (rq_Version r) (rq_Compressor r) (rq_Serializer r) @ request_header (range_order (rq_Meta r)) r @ rq_Data r)"
proof -
  let ?m = "range_order (rq_Meta r)"
  let ?h = "length (request_header (rq_Meta r) r)" and ?d = "length (rq_Data r)"
  let ?f = "fixed_part (of_nat (15 + ?h)) (of_nat ?d) (rq_MessageID r) (rq_Version r) (rq_Compressor r) (rq_Serializer r)"
  have len: "15 + ?h + ?d < 2 ^ 32" using assms(1) by (simp add: plain_def)
  have mp: "length (meta_part ?m) = length (meta_part (rq_Meta r))" using assms(2) by (rule length_meta_part_mset)
  have h: "?h = length (rq_ServiceName r) + 1 + length (rq_MethodName r) + 1 + length (meta_part ?m)"
    using mp by (simp add: request_header_def)
  have n: "unat (of_nat (15 + ?h) + of_nat ?d :: u32) = 15 + ?h + ?d"
    using len unat_of_nat_small [where 'a = 32, of "15 + ?h + ?d"] by (simp only: of_nat_add [symmetric]) simp
  have 1: "put_fixed (of_nat (15 + ?h)) (of_nat ?d) (rq_MessageID r) (rq_Version r) (rq_Compressor r) (rq_Serializer r)
      (replicate (15 + ?h + ?d) 0) = Inr (length ?f, ?f @ replicate (?h + ?d) 0)"
    using put_fixed_zeros [of "15 + ?h + ?d"] by simp
  have 2: "put_line (rq_ServiceName r) (length ?f, ?f @ replicate (?h + ?d) 0) =
      Inr (length (?f @ rq_ServiceName r @ [10]), (?f @ rq_ServiceName r @ [10]) @ replicate (?h + ?d - Suc (length (rq_ServiceName r))) 0)"
    using h by (intro put_line_step) simp
  have 3: "put_line (rq_MethodName r) (length (?f @ rq_ServiceName r @ [10]), (?f @ rq_ServiceName r @ [10]) @ replicate (?h + ?d - Suc (length (rq_ServiceName r))) 0) =
      Inr (length ((?f @ rq_ServiceName r @ [10]) @ rq_MethodName r @ [10]), ((?f @ rq_ServiceName r @ [10]) @ rq_MethodName r @ [10]) @
        replicate (?h + ?d - Suc (length (rq_ServiceName r)) - Suc (length (rq_MethodName r))) 0)"
    using h by (intro put_line_step) simp
  let ?p = "(?f @ rq_ServiceName r @ [10]) @ rq_MethodName r @ [10]"
  have 4: "put_meta ?m (length ?p, ?p @ replicate (?h + ?d - Suc (length (rq_ServiceName r)) - Suc (length (rq_MethodName r))) 0) =
      Inr (length (?p @ meta_part ?m), (?p @ meta_part ?m) @ replicate (?h + ?d - Suc (length (rq_ServiceName r)) - Suc (length (rq_MethodName r)) - length (meta_part ?m)) 0)"
    using h by (intro put_meta_step) simp
  have 5: "?h + ?d - Suc (length (rq_ServiceName r)) - Suc (length (rq_MethodName r)) - length (meta_part ?m) = ?d" using h by simp
  have c: "copy_at (length (?p @ meta_part ?m)) (rq_Data r) ((?p @ meta_part ?m) @ replicate ?d 0) = (?p @ meta_part ?m) @ rq_Data r"
    by (rule copy_at_fill_end)
  have z: "(of_nat ?d :: u32) > 0 \<longleftrightarrow> rq_Data r \<noteq> []"
    using len of_nat_word_eq_0_iff [where 'a = 32, of ?d] by (simp add: word_gt_0)
  show ?thesis
    unfolding EncodeRequest_def with_lengths_fields n 1 sum_bind_simps 2 3 4 5 prod.case c z
    by (simp add: request_header_def)
qed

lemma get_fixed_fixed: "get_fixed (fixed_part hl bl mid ver cmp ser @ rest) = Inr (hl, bl, mid, ver, cmp, ser)"
  by (simp add: get_fixed_def fixed_part_def nth_append)

lemma get_header_fixed:
  "unat hl = 15 + length h \<Longrightarrow> get_header hl (fixed_part hl bl mid ver cmp ser @ h @ rest) = Inr h"
  by (simp add: get_header_def)

lemma cut_line_append: "10 \<notin> set line \<Longrightarrow> cut_line (line @ [10] @ rest) = Inr (line, rest)"
  by (simp add: cut_line_def index_byte_append)

declare cut_meta.simps [simp del]

lemma cut_meta_append:
  assumes "\<forall>(key, val) \<in> set m. 10 \<notin> set key \<and> 13 \<notin> set key \<and> 10 \<notin> set val" "distinct (map fst (acc @ m))"
  shows "cut_meta (meta_part m) acc = Inr (acc @ m)"
  using assms
proof (induction m arbitrary: acc)
  case Nil
  then show ?case by (simp add: cut_meta.simps meta_part_def)
next
  case (Cons p m)
  obtain key val where p: "p = (key, val)" by fastforce
  have k: "10 \<notin> set (key @ 13 # val)" "13 \<notin> set key" using Cons.prems(1) by (auto simp: p)
  have e: "meta_part (p # m) = (key @ 13 # val) @ 10 # meta_part m" by (simp add: meta_part_def p)
  have i: "index_byte 10 ((key @ 13 # val) @ 10 # meta_part m) = Some (length (key @ 13 # val))"
    using k(1) by (rule index_byte_append)
  have j: "index_byte 13 (key @ 13 # val) = Some (length key)" using k(2) by (rule index_byte_append)
  have "map_set key val acc = acc @ [(key, val)]" using Cons.prems(2) by (auto simp: map_set_def p image_iff)
  moreover have "cut_meta (meta_part m) (acc @ [(key, val)]) = Inr ((acc @ [(key, val)]) @ m)"
    using Cons.prems by (intro Cons.IH) (auto simp: p)
  ultimately show ?case
    unfolding e by (subst cut_meta.simps) (simp only: i option.case append_eq_conv_conj take_append drop_append, simp add: j p)
qed

lemma decode_request_bytes:
  assumes "plain r" "mset m = mset (rq_Meta r)"
  shows "DecodeRequest (fixed_part (of_nat (15 + length (request_header (rq_Meta r) r))) (of_nat (length (rq_Data r)))
      (rq_MessageID r) (rq_Version r) (rq_Compressor r) (rq_Serializer r) @ request_header m r @ rq_Data r) =
    Inr ((with_lengths r)\<lparr>rq_Meta := m\<rparr>)"
proof -
  let ?h = "length (request_header (rq_Meta r) r)" and ?d = "length (rq_Data r)"
  have len: "15 + ?h + ?d < 2 ^ 32" using assms(1) by (simp add: plain_def)
  have h: "length (request_header m r) = ?h" using length_meta_part_mset [OF assms(2)] by (simp add: request_header_def)
  have u: "unat (of_nat (15 + ?h) :: u32) = 15 + ?h" using len by (intro unat_of_nat_small) simp
  have z: "(of_nat ?d :: u32) > 0 \<longleftrightarrow> rq_Data r \<noteq> []"
    using len of_nat_word_eq_0_iff [where 'a = 32, of ?d] by (simp add: word_gt_0)
  have "mset (map fst m) = mset (map fst (rq_Meta r))" using assms(2) by simp
  then have dist: "distinct (map fst ([] @ m))" using assms(1) mset_eq_imp_distinct_iff by (fastforce simp: plain_def)
  have ok: "10 \<notin> set (rq_ServiceName r)" "10 \<notin> set (rq_MethodName r)"
    "\<forall>(key, val) \<in> set m. 10 \<notin> set key \<and> 13 \<notin> set key \<and> 10 \<notin> set val"
    using assms(1) mset_eq_setD [OF assms(2)] by (simp_all add: plain_def)
  let ?f = "fixed_part (of_nat (15 + ?h)) (of_nat ?d) (rq_MessageID r) (rq_Version r) (rq_Compressor r) (rq_Serializer r)"
  have g: "get_header (of_nat (15 + ?h)) (?f @ request_header m r @ rq_Data r) = Inr (request_header m r)"
    by (rule get_header_fixed) (simp only: u h)
  have l: "cut_line (request_header m r) = Inr (rq_ServiceName r, rq_MethodName r @ [10] @ meta_part m)"
    unfolding request_header_def by (rule cut_line_append) (rule ok)
  have d: "drop (unat (of_nat (15 + ?h) :: u32)) (?f @ request_header m r @ rq_Data r) = rq_Data r"
    unfolding u using h by simp
  have q: "(if (of_nat ?d :: u32) > 0 then rq_Data r else []) = rq_Data r" using z by simp
  show ?thesis
    unfolding DecodeRequest_def get_fixed_fixed sum_bind_simps prod.case g l cut_line_append [OF ok(2)] cut_meta_append [OF ok(3) dist] d q
    by (rule arg_cong [of _ _ Inr], rule Request.equality) simp_all
qed

text \<open>A message that arrives in one segment is received as it was sent; what follows it stays in the stream.\<close>

lemma be_get_append_take: "length xs = 4 \<Longrightarrow> take 4 (xs @ ys) = xs"
  by simp

lemma receive_stream_whole:
  assumes "unat (hl + bl) = length bs" "15 \<le> length bs" "take 8 bs = be_put 4 hl @ be_put 4 (bl :: u32)"
  shows "receive_stream ((bs @ later) # segs) = (Inr (Inr bs), if later = [] then segs else later # segs)"
proof -
  have 1: "conn_Read 8 ((bs @ later) # segs) = (Inr (take 8 bs), (drop 8 bs @ later) # segs)"
    using assms(2) by (simp add: conn_Read_def)
  have 2: "unat (be_get (take 4 (take 8 bs)) + be_get (drop 4 (take 8 bs)) :: u32) = length bs"
    unfolding assms(3) using assms(1) by simp
  have 3: "conn_Read (length bs - 8) ((drop 8 bs @ later) # segs) = (Inr (drop 8 bs), if later = [] then segs else later # segs)"
    using assms(2) by (cases later) (auto simp: conn_Read_def)
  show ?thesis
    unfolding receive_stream_def numOfLengthBytes_def 1 prod.case sum.case Let_def 2 3 using assms(2) by simp
qed

lemma take_fixed_part: "take 8 (fixed_part hl bl mid ver cmp ser @ rest) = be_put 4 hl @ be_put 4 bl"
  by (simp add: fixed_part_def)

text \<open>The length prefix of \<^verbatim>\<open>EncapsulatedData\<close> is read back by \<^verbatim>\<open>Recv\<close>.\<close>

lemma EncapsulatedData_bytes: "EncapsulatedData data = be_put 8 (of_nat (length data) :: u64) @ data"
  by (simp add: EncapsulatedData_def numOfLengthBytes_def copy_at_def)

lemma Recv_EncapsulatedData:
  assumes "length data < 2 ^ 64" "data \<noteq> []"
  shows "Recv (EncapsulatedData data # segs) = (Inr data, segs)"
proof -
  have "unat (of_nat (length data) :: u64) = length data" by (rule unat_of_nat_small) (use assms(1) in simp)
  then show ?thesis using assms(2) by (simp add: Recv_def EncapsulatedData_bytes conn_Read_def numOfLengthBytes_def)
qed

lemma request_on_wire:
  assumes "plain r" "mset (range_order (rq_Meta r)) = mset (rq_Meta r)"
  shows "\<exists>bs. EncodeRequest range_order (with_lengths r) = Inr bs \<and>
    length bs = unat (rq_HeadLength (with_lengths r)) + unat (rq_BodyLength (with_lengths r)) \<and>
    ReceiveRequestStream ((bs @ later) # segs) = (Inr (Inr bs), if later = [] then segs else later # segs) \<and>
    DecodeRequest bs = Inr ((with_lengths r)\<lparr>rq_Meta := range_order (rq_Meta r)\<rparr>)"
proof -
  let ?h = "length (request_header (rq_Meta r) r)" and ?d = "length (rq_Data r)"
  let ?bs = "fixed_part (of_nat (15 + ?h)) (of_nat ?d) (rq_MessageID r) (rq_Version r) (rq_Compressor r) (rq_Serializer r) @
    request_header (range_order (rq_Meta r)) r @ rq_Data r"
  have len: "15 + ?h + ?d < 2 ^ 32" using assms(1) by (simp add: plain_def)
  have l: "length ?bs = 15 + ?h + ?d" using length_meta_part_mset [OF assms(2)] by (simp add: request_header_def)
  have u: "unat (of_nat (15 + ?h) :: u32) = 15 + ?h" "unat (of_nat ?d :: u32) = ?d"
    by (rule unat_of_nat_small, use len in simp)+
  have a: "unat (of_nat (15 + ?h) + of_nat ?d :: u32) = length ?bs"
    unfolding l using len unat_of_nat_small [where 'a = 32, of "15 + ?h + ?d"] by (simp only: of_nat_add [symmetric]) simp
  have b: "15 \<le> length ?bs" unfolding l by simp
  have "receive_stream ((?bs @ later) # segs) = (Inr (Inr ?bs), if later = [] then segs else later # segs)"
    by (rule receive_stream_whole [OF a b take_fixed_part])
  moreover have "length ?bs = unat (rq_HeadLength (with_lengths r)) + unat (rq_BodyLength (with_lengths r))"
    unfolding with_lengths_fields u l by simp
  ultimately show ?thesis
    using encode_request_bytes [of r range_order] decode_request_bytes [of r "range_order (rq_Meta r)"] assms unfolding ReceiveRequestStream_def by blast
qed

definition response_with_lengths :: "Response \<Rightarrow> Response" where
  "response_with_lengths r = rs_CalculateHeadLength (rs_CalculateBodyLength r)"

lemma response_on_wire:
  assumes "15 + length (rs_ErrorInfo r) + length (rs_Data r) < 2 ^ 32"
  shows "\<exists>bs. EncodeResponse (response_with_lengths r) = Inr bs \<and>
    ReceiveResponseStream ((bs @ later) # segs) = (Inr (Inr bs), if later = [] then segs else later # segs) \<and>
    DecodeResponse bs = Inr (response_with_lengths r)"
proof -
  let ?h = "length (rs_ErrorInfo r)" and ?d = "length (rs_Data r)"
  let ?f = "fixed_part (of_nat (15 + ?h)) (of_nat ?d) (rs_MessageID r) (rs_Version r) (rs_Compressor r) (rs_Serializer r)"
  let ?bs = "?f @ rs_ErrorInfo r @ rs_Data r"
  have u: "unat (of_nat (15 + ?h) :: u32) = 15 + ?h" by (rule unat_of_nat_small) (use assms in simp)
  have s: "unat (of_nat (15 + ?h) + of_nat ?d :: u32) = 15 + ?h + ?d"
    using assms unat_of_nat_small [where 'a = 32, of "15 + ?h + ?d"] by (simp only: of_nat_add [symmetric]) simp
  have z: "(of_nat ?d :: u32) > 0 \<longleftrightarrow> rs_Data r \<noteq> []"
    using assms of_nat_word_eq_0_iff [where 'a = 32, of ?d] by (simp add: word_gt_0)
  have w: "response_with_lengths r = r\<lparr>rs_HeadLength := of_nat (15 + ?h), rs_BodyLength := of_nat ?d\<rparr>"
    by (simp add: response_with_lengths_def rs_CalculateHeadLength_def rs_CalculateBodyLength_def)
  have 1: "put_fixed (of_nat (15 + ?h)) (of_nat ?d) (rs_MessageID r) (rs_Version r) (rs_Compressor r) (rs_Serializer r)
      (replicate (15 + ?h + ?d) 0) = Inr (length ?f, ?f @ replicate (?h + ?d) 0)"
    using put_fixed_zeros [of "15 + ?h + ?d"] by simp
  have 2: "put_bytes (rs_ErrorInfo r) (length ?f, ?f @ replicate (?h + ?d) 0) = Inr (length (?f @ rs_ErrorInfo r), (?f @ rs_ErrorInfo r) @ replicate ?d 0)"
    using put_bytes_step [of "rs_ErrorInfo r" "?h + ?d" ?f] by simp
  have sel: "rs_HeadLength (response_with_lengths r) = of_nat (15 + ?h)" "rs_BodyLength (response_with_lengths r) = of_nat ?d"
    "rs_MessageID (response_with_lengths r) = rs_MessageID r" "rs_Version (response_with_lengths r) = rs_Version r"
    "rs_Compressor (response_with_lengths r) = rs_Compressor r" "rs_Serializer (response_with_lengths r) = rs_Serializer r"
    "rs_ErrorInfo (response_with_lengths r) = rs_ErrorInfo r" "rs_Data (response_with_lengths r) = rs_Data r"
    by (simp_all add: w)
  have "EncodeResponse (response_with_lengths r) = Inr ?bs"
    unfolding EncodeResponse_def sel s 1 sum_bind_simps 2 prod.case copy_at_fill_end by simp
  moreover have "receive_stream ((?bs @ later) # segs) = (Inr (Inr ?bs), if later = [] then segs else later # segs)"
    by (rule receive_stream_whole [OF _ _ take_fixed_part]) (unfold s, simp_all)
  moreover have "DecodeResponse ?bs = Inr (response_with_lengths r)"
  proof -
    have g: "get_header (of_nat (15 + ?h)) ?bs = Inr (rs_ErrorInfo r)" by (rule get_header_fixed) (rule u)
    have d: "drop (unat (of_nat (15 + ?h) :: u32)) ?bs = rs_Data r" unfolding u by simp
    have q: "(if (of_nat ?d :: u32) > 0 then rs_Data r else []) = rs_Data r" using z by simp
    show ?thesis unfolding DecodeResponse_def get_fixed_fixed sum_bind_simps prod.case g d q w
      by (rule arg_cong [of _ _ Inr], rule Response.equality) simp_all
  qed
  ultimately show ?thesis unfolding ReceiveResponseStream_def by blast
qed

definition example_request :: Request where
  "example_request = \<lparr>rq_HeadLength = 0, rq_BodyLength = 0, rq_MessageID = 7, rq_Version = 1, rq_Compressor = 0, rq_Serializer = 1,
     rq_ServiceName = [117], rq_MethodName = [71], rq_Meta = [([97], [98]), ([99], [13])], rq_Data = [1, 2]\<rparr>"

definition example_response :: Response where
  "example_response = \<lparr>rs_HeadLength = 0, rs_BodyLength = 0, rs_MessageID = 7, rs_Version = 1, rs_Compressor = 0, rs_Serializer = 1,
     rs_ErrorInfo = [10, 13], rs_Data = [1, 2]\<rparr>"

section \<open>Properties\<close>

text \<open>
  C15: A request with its lengths calculated, whose names and metadata do not contain the separators,
  is encoded without a panic into the number of bytes that its header announces - whatever the
  iteration order of the metadata map is - and when these bytes arrive in one segment, the receiver
  reads exactly them and decodes the same request.
\<close>

theorem request_roundtrip:
  assumes "plain r" "mset (range_order (rq_Meta r)) = mset (rq_Meta r)"
  shows "\<exists>bs. EncodeRequest range_order (with_lengths r) = Inr bs \<and>
    length bs = unat (rq_HeadLength (with_lengths r)) + unat (rq_BodyLength (with_lengths r)) \<and>
    ReceiveRequestStream ((bs @ later) # segs) = (Inr (Inr bs), if later = [] then segs else later # segs) \<and>
    DecodeRequest bs = Inr ((with_lengths r)\<lparr>rq_Meta := range_order (rq_Meta r)\<rparr>)"
  using assms by (rule request_on_wire)

theorem request_roundtrip_witness:
  "\<exists>bs. EncodeRequest rev (with_lengths example_request) = Inr bs \<and> length bs = 29 \<and>
     DecodeRequest bs = Inr ((with_lengths example_request)\<lparr>rq_Meta := [([99], [13]), ([97], [98])]\<rparr>)"
proof -
  have "plain example_request" by (simp add: plain_def example_request_def request_header_def meta_part_def)
  moreover have "mset (rev (rq_Meta example_request)) = mset (rq_Meta example_request)" by simp
  ultimately obtain bs where "EncodeRequest rev (with_lengths example_request) = Inr bs"
    "length bs = unat (rq_HeadLength (with_lengths example_request)) + unat (rq_BodyLength (with_lengths example_request))"
    "DecodeRequest bs = Inr ((with_lengths example_request)\<lparr>rq_Meta := rev (rq_Meta example_request)\<rparr>)"
    using request_roundtrip [of example_request rev "[]" "[]"] by blast
  then show ?thesis by (intro exI [of _ bs]) (simp add: example_request_def request_header_def meta_part_def)
qed

text \<open>
  A client can crash the server, since nothing recovers from a panic in \<^verbatim>\<open>handleConn\<close>: eight zero
  bytes are enough, and so is a header without a line feed.
\<close>

lemma zero_lengths_panic: "fst (ReceiveRequestStream [replicate 8 0]) = Inl IndexPanic"
  by code_simp

lemma missing_separator_panics:
  "10 \<notin> set h \<Longrightarrow> unat hl = 15 + length h \<Longrightarrow> DecodeRequest (fixed_part hl bl mid ver cmp ser @ h @ rest) = Inl IndexPanic"
  by (simp add: DecodeRequest_def get_fixed_fixed get_header_fixed cut_line_def index_byte_None_iff [THEN iffD2])

text \<open>A message that arrives in two segments is received with zeros in place of the second one.\<close>

lemma split_message_corrupted:
  "case EncodeResponse (response_with_lengths example_response) of
     Inl _ \<Rightarrow> False
   | Inr bs \<Rightarrow> fst (ReceiveResponseStream [take 17 bs, drop 17 bs]) = Inr (Inr (take 17 bs @ [0, 0]))"
  by code_simp

end
