(* ===== verification/RpcCall.thy ===== *)
theory RpcCall
  imports RpcMessage
begin

text \<open>
  Calls of \<^verbatim>\<open>micro/rpc\<close>: the server (\<^verbatim>\<open>server.go\<close>), the client (\<^verbatim>\<open>client.go\<close>) and their contexts
  (\<^verbatim>\<open>context.go\<close>), over the messages of the previous theory. Serializers and compressors are records of
  functions, since the JSON, protobuf and gzip packages do the work. Errors are their texts.
  A remote method is a function of the context and its argument.
\<close>

section \<open>Codecs and services\<close>

record ('t, 'v) Serializer =
  ser_Code :: u8
  ser_Encode :: "'v \<Rightarrow> bytes + bytes"
  ser_Decode :: "'t \<Rightarrow> bytes \<Rightarrow> bytes + 'v"   \<comment> \<open>into a value of the given type\<close>

record Compressor =
  cmp_Code :: u8
  cmp_Compress :: "bytes \<Rightarrow> bytes + bytes"
  cmp_Decompress :: "bytes \<Rightarrow> bytes + bytes"

record Ctx =
  ctx_deadline :: "int option"   \<comment> \<open>in milliseconds\<close>
  ctx_oneway :: bool

definition Background :: Ctx where
  "Background = \<lparr>ctx_deadline = None, ctx_oneway = False\<rparr>"

definition CtxWithOneWay :: "Ctx \<Rightarrow> Ctx" where
  "CtxWithOneWay ctx = ctx\<lparr>ctx_oneway := True\<rparr>"

definition isOneWay :: "Ctx \<Rightarrow> bool" where
  "isOneWay ctx = ctx_oneway ctx"

text \<open>
  A method of a service: one with a context and a pointer as its parameters, with the type it points
  to, or one with too few parameters. The result is a pointer, which may be nil, and an error.
\<close>

datatype ('t, 'v) rpc_method = Handler 't "Ctx \<Rightarrow> 'v \<Rightarrow> 'v option \<times> bytes option" | OtherMethod

type_synonym ('t, 'v) service = "bytes \<rightharpoonup> ('t, 'v) rpc_method"

record ('t, 'v) Server =
  sv_services :: "bytes \<rightharpoonup> ('t, 'v) service"
  sv_serializers :: "u8 \<rightharpoonup> ('t, 'v) Serializer"
  sv_compressors :: "u8 \<rightharpoonup> Compressor"

definition RegisterService :: "bytes \<Rightarrow> ('t, 'v) service \<Rightarrow> ('t, 'v) Server \<Rightarrow> ('t, 'v) Server" where
  "RegisterService name service s = s\<lparr>sv_services := (sv_services s)(name \<mapsto> service)\<rparr>"

definition RegisterSerializer :: "('t, 'v) Serializer \<Rightarrow> ('t, 'v) Server \<Rightarrow> ('t, 'v) Server" where
  "RegisterSerializer ser s = s\<lparr>sv_serializers := (sv_serializers s)(ser_Code ser \<mapsto> ser)\<rparr>"

definition RegisterCompressor :: "Compressor \<Rightarrow> ('t, 'v) Server \<Rightarrow> ('t, 'v) Server" where
  "RegisterCompressor c s = s\<lparr>sv_compressors := (sv_compressors s)(cmp_Code c \<mapsto> c)\<rparr>"

definition NewServer :: "('t, 'v) Serializer \<Rightarrow> ('t, 'v) Serializer \<Rightarrow> Compressor \<Rightarrow> ('t, 'v) Server" where
  "NewServer json protobuf gzip =
     RegisterCompressor gzip (RegisterSerializer protobuf (RegisterSerializer json
       \<lparr>sv_services = Map.empty, sv_serializers = Map.empty, sv_compressors = Map.empty\<rparr>))"

section \<open>The server\<close>

definition stub_invoke :: "('t, 'v) Server \<Rightarrow> ('t, 'v) service \<Rightarrow> Ctx \<Rightarrow> Request \<Rightarrow> go_panic + bytes \<times> bytes option" where
  "stub_invoke s service ctx request =
     (case service (rq_MethodName request) of
        None \<Rightarrow> Inl (UserPanic ''reflect: call of reflect.Value.Type on zero Value'')
      | Some OtherMethod \<Rightarrow> Inl IndexPanic
      | Some (Handler t run) \<Rightarrow>
          (case (case sv_compressors s (rq_Compressor request) of
                   Some c \<Rightarrow> cmp_Decompress c (rq_Data request)
                 | None \<Rightarrow> Inr (rq_Data request)) of
             Inl err \<Rightarrow> Inr ([], Some err)
           | Inr reqData \<Rightarrow>
               (case sv_serializers s (rq_Serializer request) of
                  None \<Rightarrow> Inl NilPanic
                | Some ser \<Rightarrow>
                    (case ser_Decode ser t reqData of
                       Inl err \<Rightarrow> Inr ([], Some err)
                     | Inr arg \<Rightarrow>
                         (case run ctx arg of
                            (None, err) \<Rightarrow> Inr ([], err)
                          | (Some v, err) \<Rightarrow>
                              (case ser_Encode ser v of Inl e \<Rightarrow> Inr ([], Some e) | Inr data \<Rightarrow> Inr (data, err)))))))"

definition unknown_service :: "bytes \<Rightarrow> bytes" where
  "unknown_service name = bytes_of_string ''micro: '' @ [0xE6, 0x9C, 0x8D, 0xE5, 0x8A, 0xA1] @ bytes_of_string ''['' @ name @
     bytes_of_string '']'' @ [0xE4, 0xB8, 0x8D, 0xE5, 0xAD, 0x98, 0xE5, 0x9C, 0xA8]"

text \<open>
  The answer of \<^verbatim>\<open>Server.invoke\<close>: a response with an optional error, or nothing for a one-way
  request, whose method runs in a goroutine of its own.
\<close>

datatype invoked = Answer Response "bytes option" | InBackground

definition Server_invoke :: "('t, 'v) Server \<Rightarrow> Ctx \<Rightarrow> Request \<Rightarrow> go_panic + invoked" where
  "Server_invoke s ctx request =
     (let resp = \<lparr>rs_HeadLength = 0, rs_BodyLength = 0, rs_MessageID = rq_MessageID request, rs_Version = rq_Version request,
                  rs_Compressor = rq_Compressor request, rs_Serializer = rq_Serializer request, rs_ErrorInfo = [], rs_Data = []\<rparr>
      in case sv_services s (rq_ServiceName request) of
           None \<Rightarrow> Inr (Answer resp (Some (unknown_service (rq_ServiceName request))))
         | Some service \<Rightarrow>
             if isOneWay ctx then Inr InBackground
             else sum_bind (stub_invoke s service ctx request) (\<lambda>(data, err). Inr (Answer (resp\<lparr>rs_Data := data\<rparr>) err)))"

definition deadline_key :: bytes where "deadline_key = bytes_of_string ''deadline''"
definition one_way_key :: bytes where "one_way_key = bytes_of_string ''one-way''"
definition true_text :: bytes where "true_text = bytes_of_string ''true''"

definition request_ctx :: "Request \<Rightarrow> Ctx" where
  "request_ctx req =
     (let ctx = (case map_of (rq_Meta req) deadline_key of
                   None \<Rightarrow> Background
                 | Some d \<Rightarrow> (case atoi (string_of_bytes d) of None \<Rightarrow> Background | Some ms \<Rightarrow> Background\<lparr>ctx_deadline := Some ms\<rparr>))
      in if map_of (rq_Meta req) one_way_key = Some true_text then CtxWithOneWay ctx else ctx)"

text \<open>
  One round of the loop in \<^verbatim>\<open>handleConn\<close>: it ends with an error of the stream, or continues after
  writing a reply or, for a one-way request, nothing.
\<close>

datatype handled = Ended conn_error | Wrote bytes | Silent

definition handle_request :: "('t, 'v) Server \<Rightarrow> bytes list \<Rightarrow> (go_panic + handled) \<times> bytes list" where
  "handle_request s segs =
     (case ReceiveRequestStream segs of
        (Inl p, segs) \<Rightarrow> (Inl p, segs)
      | (Inr (Inl e), segs) \<Rightarrow> (Inr (Ended e), segs)
      | (Inr (Inr data), segs) \<Rightarrow>
          (sum_bind (DecodeRequest data) (\<lambda>req.
             sum_bind (Server_invoke s (request_ctx req) req) (\<lambda>inv.
               if map_of (rq_Meta req) one_way_key = Some true_text then Inr Silent
               else (case inv of
                       InBackground \<Rightarrow> Inl NilPanic
                     | Answer response err \<Rightarrow>
                         sum_bind (EncodeResponse (response_with_lengths
                             (case err of None \<Rightarrow> response | Some e \<Rightarrow> response\<lparr>rs_ErrorInfo := e\<rparr>)))
                           (\<lambda>bs. Inr (Wrote bs))))), segs))"

text \<open>The whole loop, with what it has written; \<open>writable\<close> says which replies can be written.\<close>

partial_function (option) handleConn ::
  "('t, 'v) Server \<Rightarrow> (bytes \<Rightarrow> bool) \<Rightarrow> bytes list \<Rightarrow> bytes list \<Rightarrow> ((go_panic + conn_error option) \<times> bytes list) option" where
  "handleConn s writable segs out =
     (case handle_request s segs of
        (Inl p, _) \<Rightarrow> Some (Inl p, out)
      | (Inr (Ended e), _) \<Rightarrow> Some (Inr (Some e), out)
      | (Inr Silent, segs) \<Rightarrow> handleConn s writable segs out
      | (Inr (Wrote bs), segs) \<Rightarrow> if writable bs then handleConn s writable segs (out @ [bs]) else Some (Inr None, out))"

section \<open>The client\<close>

record ('t, 'v) Client =
  cl_serializer :: "('t, 'v) Serializer"
  cl_compressor :: "Compressor option"

definition ClientWithSerializer :: "('t, 'v) Serializer \<Rightarrow> ('t, 'v) Client \<Rightarrow> ('t, 'v) Client" where
  "ClientWithSerializer ser c = c\<lparr>cl_serializer := ser\<rparr>"

definition ClientWithCompressor :: "Compressor \<Rightarrow> ('t, 'v) Client \<Rightarrow> ('t, 'v) Client" where
  "ClientWithCompressor cmp c = c\<lparr>cl_compressor := Some cmp\<rparr>"

text \<open>
  A connection from the pool (or the error of the pool) is a function from what is written to the
  error of the write or the segments that can be read afterwards.
\<close>

type_synonym conn = "bytes + (bytes \<Rightarrow> bytes + bytes list)"

definition one_way_text :: bytes where
  "one_way_text = bytes_of_string ''mirco: one-way'' @ [0xE8, 0xB0, 0x83, 0xE7, 0x94, 0xA8, 0xEF, 0xBC, 0x8C, 0xE4, 0xB8, 0x8D, 0xE5, 0xBF, 0x85,
     0xE5, 0xA4, 0x84, 0xE7, 0x90, 0x86, 0xE7, 0xBB, 0x93, 0xE6, 0x9E, 0x9C]"

definition sendAndReceive :: "Ctx \<Rightarrow> conn \<Rightarrow> bytes \<Rightarrow> go_panic + bytes + bytes" where
  "sendAndReceive ctx conn data =
     (case conn of
        Inl err \<Rightarrow> Inr (Inl err)
      | Inr exchange \<Rightarrow>
          (case exchange data of
             Inl err \<Rightarrow> Inr (Inl err)
           | Inr segs \<Rightarrow>
               if isOneWay ctx then Inr (Inl one_way_text)
               else (case fst (ReceiveResponseStream segs) of
                       Inl p \<Rightarrow> Inl p
                     | Inr (Inl EOF) \<Rightarrow> Inr (Inl (bytes_of_string ''EOF''))
                     | Inr (Inr bs) \<Rightarrow> Inr (Inr bs))))"

definition doInvoke :: "((bytes \<times> bytes) list \<Rightarrow> (bytes \<times> bytes) list) \<Rightarrow> Ctx \<Rightarrow> conn \<Rightarrow> Request \<Rightarrow> go_panic + bytes + Response" where
  "doInvoke range_order ctx conn request =
     sum_bind (EncodeRequest range_order request) (\<lambda>reqBs.
       sum_bind (sendAndReceive ctx conn reqBs) (\<lambda>r.
         (case r of Inl err \<Rightarrow> Inr (Inl err) | Inr bs \<Rightarrow> sum_bind (DecodeResponse bs) (\<lambda>resp. Inr (Inr resp)))))"

text \<open>
  \<^verbatim>\<open>invoke\<close> runs the call in a goroutine and waits for it or for the end of the context. \<open>ctx_err\<close> is the
  error of a context that has already ended, \<open>ends_first\<close> that of one that ends before the reply. The
  second component is what becomes of the goroutine afterwards: the channel on which it reports is
  closed when \<^verbatim>\<open>invoke\<close> returns.
\<close>

definition Client_invoke :: "bytes option \<Rightarrow> bytes option \<Rightarrow> go_panic + bytes + Response \<Rightarrow> (go_panic + bytes + Response) \<times> go_panic option" where
  "Client_invoke ctx_err ends_first reply =
     (case ctx_err of
        Some e \<Rightarrow> (Inr (Inl e), None)
      | None \<Rightarrow>
          (case ends_first of
             None \<Rightarrow> (reply, None)
           | Some e \<Rightarrow> (Inr (Inl e), Some (case reply of Inl p \<Rightarrow> p | Inr _ \<Rightarrow> UserPanic ''send on closed channel''))))"

definition request_meta :: "Ctx \<Rightarrow> (bytes \<times> bytes) list" where
  "request_meta ctx =
     (case ctx_deadline ctx of None \<Rightarrow> [] | Some ms \<Rightarrow> [(deadline_key, bytes_of_string (itoa ms))]) @
     (if isOneWay ctx then [(one_way_key, true_text)] else [])"

definition new_request :: "('t, 'v) Client \<Rightarrow> bytes \<Rightarrow> bytes \<Rightarrow> Ctx \<Rightarrow> bytes \<Rightarrow> Request" where
  "new_request c service method ctx reqData =
     \<lparr>rq_HeadLength = 0, rq_BodyLength = 0, rq_MessageID = 0, rq_Version = 0,
      rq_Compressor = (case cl_compressor c of None \<Rightarrow> 0 | Some cmp \<Rightarrow> cmp_Code cmp), rq_Serializer = ser_Code (cl_serializer c),
      rq_ServiceName = service, rq_MethodName = method, rq_Meta = request_meta ctx, rq_Data = reqData\<rparr>"

text \<open>
  The function that \<^verbatim>\<open>setFuncFiled\<close> puts into a field of the service: \<open>zero\<close> is the new value that the
  response starts as, \<open>t\<close> its type, and \<open>proxy\<close> sends a request. A response that cannot be decoded
  is left as it started; what a serializer may have filled in before it failed is not followed.
\<close>

definition stub_call :: "('t, 'v) Client \<Rightarrow> bytes \<Rightarrow> bytes \<Rightarrow> 't \<Rightarrow> 'v \<Rightarrow> (Ctx \<Rightarrow> Request \<Rightarrow> go_panic + bytes + Response) \<Rightarrow>
    Ctx \<Rightarrow> 'v \<Rightarrow> go_panic + 'v \<times> bytes option" where
  "stub_call c service method t zero proxy ctx arg =
     (case ser_Encode (cl_serializer c) arg of
        Inl err \<Rightarrow> Inr (zero, Some err)
      | Inr plainData \<Rightarrow>
          (case (case cl_compressor c of None \<Rightarrow> Inr plainData | Some cmp \<Rightarrow> cmp_Compress cmp plainData) of
             Inl err \<Rightarrow> Inr (zero, Some err)
           | Inr reqData \<Rightarrow>
               sum_bind (proxy ctx (with_lengths (new_request c service method ctx reqData))) (\<lambda>r.
                 (case r of
                    Inl err \<Rightarrow> Inr (zero, Some err)
                  | Inr resp \<Rightarrow>
                      let businessErr = (if rs_ErrorInfo resp \<noteq> [] then Some (rs_ErrorInfo resp) else None)
                      in if rs_Data resp \<noteq> [] then
                           (case ser_Decode (cl_serializer c) t (rs_Data resp) of
                              Inl err \<Rightarrow> Inr (zero, Some err)
                            | Inr v \<Rightarrow> Inr (v, businessErr))
                         else Inr (zero, businessErr)))))"

section \<open>Metadata\<close>

lemma nat_digits_range: "c \<in> set (nat_digits n) \<Longrightarrow> \<exists>d < 10. c = digit_char d"
proof (induction n rule: nat_digits.induct)
  case (1 n)
  show ?case
  proof (cases "n < 10")
    case True
    then show ?thesis using 1(2) by (subst (asm) nat_digits.simps) auto
  next
    case False
    then have "c \<in> set (nat_digits (n div 10)) \<or> c = digit_char (n mod 10)" using 1(2) by (subst (asm) nat_digits.simps) auto
    then show ?thesis using 1(1) [OF False] by (auto intro: exI [of _ "n mod 10"])
  qed
qed

lemma itoa_no_separator: "10 \<notin> set (bytes_of_string (itoa i))"
proof -
  have "(of_nat (of_char c) :: u8) \<noteq> 10" if "c \<in> set (itoa i)" for c
  proof -
    have "c = CHR ''-'' \<or> (\<exists>d < 10. c = digit_char d)" using that nat_digits_range by (auto simp: itoa_def split: if_splits)
    then have "(45 :: nat) \<le> of_char c \<and> of_char c \<le> (57 :: nat)" by auto
    then have "unat (of_nat (of_char c) :: u8) \<noteq> 10" by (subst unat_of_nat_small) simp_all
    then show ?thesis by auto
  qed
  then show ?thesis by (auto simp: bytes_of_string_def)
qed

lemma request_meta_ok:
  "distinct (map fst (request_meta ctx))"
  "\<forall>(key, val) \<in> set (request_meta ctx). 10 \<notin> set key \<and> 13 \<notin> set key \<and> 10 \<notin> set val"
proof -
  show "distinct (map fst (request_meta ctx))"
    by (simp add: request_meta_def deadline_key_def one_way_key_def bytes_of_string_def split: option.split)
  have k: "10 \<notin> set deadline_key" "13 \<notin> set deadline_key" "10 \<notin> set one_way_key" "13 \<notin> set one_way_key" "10 \<notin> set true_text"
    by (simp_all add: deadline_key_def one_way_key_def true_text_def bytes_of_string_def)
  show "\<forall>(key, val) \<in> set (request_meta ctx). 10 \<notin> set key \<and> 13 \<notin> set key \<and> 10 \<notin> set val"
    using k itoa_no_separator by (auto simp: request_meta_def split: option.split)
qed

lemma request_ctx_meta:
  assumes "mset m = mset (request_meta ctx)" "\<forall>ms. ctx_deadline ctx = Some ms \<longrightarrow> - (2 ^ 63) \<le> ms \<and> ms < 2 ^ 63"
  shows "map_of m one_way_key = (if isOneWay ctx then Some true_text else None)"
    "rq_Meta req = m \<Longrightarrow> request_ctx req = ctx"
proof -
  have "mset (map fst m) = mset (map fst (request_meta ctx))" using assms(1) by simp
  then have "distinct (map fst m)" using request_meta_ok(1) [of ctx] mset_eq_imp_distinct_iff by blast
  then have m: "map_of m = map_of (request_meta ctx)"
    using request_meta_ok(1) [of ctx] mset_eq_setD [OF assms(1)] by (metis map_of_inject_set)
  have ne: "deadline_key \<noteq> one_way_key" by (simp add: deadline_key_def one_way_key_def bytes_of_string_def)
  show o: "map_of m one_way_key = (if isOneWay ctx then Some true_text else None)"
    using ne by (simp add: m request_meta_def split: option.split)
  have d: "map_of m deadline_key = map_option (\<lambda>ms. bytes_of_string (itoa ms)) (ctx_deadline ctx)"
    using ne by (simp add: m request_meta_def split: option.split)
  show "request_ctx req = ctx" if "rq_Meta req = m"
    using assms(2) o d that
    by (cases "ctx_deadline ctx") (auto simp: request_ctx_def Background_def CtxWithOneWay_def isOneWay_def atoi_itoa)
qed

section \<open>A call\<close>

lemma handle_request_wrote:
  assumes "plain r" "mset (range_order (rq_Meta r)) = mset (rq_Meta r)" "map_of (range_order (rq_Meta r)) one_way_key = None"
    "Server_invoke s (request_ctx ((with_lengths r)\<lparr>rq_Meta := range_order (rq_Meta r)\<rparr>)) ((with_lengths r)\<lparr>rq_Meta := range_order (rq_Meta r)\<rparr>) = Inr (Answer response err)"
    "15 + length (rs_ErrorInfo response') + length (rs_Data response') < 2 ^ 32"
    "response' = (case err of None \<Rightarrow> response | Some e \<Rightarrow> response\<lparr>rs_ErrorInfo := e\<rparr>)"
  obtains bs reply where "EncodeRequest range_order (with_lengths r) = Inr bs"
    "handle_request s (bs # segs) = (Inr (Wrote reply), segs)"
    "ReceiveResponseStream [reply] = (Inr (Inr reply), [])" "DecodeResponse reply = Inr (response_with_lengths response')"
proof -
  obtain bs where 1: "EncodeRequest range_order (with_lengths r) = Inr bs"
    "ReceiveRequestStream ((bs @ []) # segs) = (Inr (Inr bs), segs)"
    "DecodeRequest bs = Inr ((with_lengths r)\<lparr>rq_Meta := range_order (rq_Meta r)\<rparr>)"
    using request_on_wire [OF assms(1), of range_order "[]" segs] assms(2) by auto
  obtain reply where 2: "EncodeResponse (response_with_lengths response') = Inr reply"
    "ReceiveResponseStream ((reply @ []) # []) = (Inr (Inr reply), [])" "DecodeResponse reply = Inr (response_with_lengths response')"
    using response_on_wire [OF assms(5), of "[]" "[]"] by auto
  have "handle_request s (bs # segs) = (Inr (Wrote reply), segs)"
    using 1(2,3) 2(1) assms(3,4,6) by (simp add: handle_request_def)
  with 1(1) 2(2,3) show ?thesis using that by simp
qed

lemma handle_request_eof: "handle_request s [] = (Inr (Ended EOF), [])"
  by (simp add: handle_request_def ReceiveRequestStream_def receive_stream_def conn_Read_def numOfLengthBytes_def)

text \<open>A server at the other end of a connection: what it writes for the bytes it gets.\<close>

definition serve :: "('t, 'v) Server \<Rightarrow> bytes \<Rightarrow> bytes + bytes list" where
  "serve s bs = (case handleConn s (\<lambda>_. True) [bs] [] of None \<Rightarrow> Inl [] | Some (_, out) \<Rightarrow> Inr out)"

lemma serve_wrote:
  assumes "handle_request s [bs] = (Inr (Wrote reply), [])"
  shows "serve s bs = Inr [reply]"
proof -
  have "handleConn s (\<lambda>_. True) [] out = Some (Inr (Some EOF), out)" for out
    by (subst handleConn.simps) (simp add: handle_request_eof)
  then have "handleConn s (\<lambda>_. True) [bs] [] = Some (Inr (Some EOF), [reply])"
    using assms by (subst handleConn.simps) simp
  then show ?thesis by (simp add: serve_def)
qed

text \<open>
  The codecs of a client and of a server fit for an argument and a result: both know the serializer,
  the argument and the result survive it, and if the client compresses, the server knows the
  compressor and gets the data back.
\<close>

definition codecs_fit :: "('t, 'v) Client \<Rightarrow> ('t, 'v) Server \<Rightarrow> 't \<Rightarrow> 'v \<Rightarrow> bytes \<Rightarrow> bytes \<Rightarrow> bool" where
  "codecs_fit c s t arg plainData reqData =
     (sv_serializers s (ser_Code (cl_serializer c)) = Some (cl_serializer c) \<and>
      ser_Encode (cl_serializer c) arg = Inr plainData \<and> ser_Decode (cl_serializer c) t plainData = Inr arg \<and>
      (case cl_compressor c of
         None \<Rightarrow> sv_compressors s 0 = None \<and> reqData = plainData
       | Some cmp \<Rightarrow> sv_compressors s (cmp_Code cmp) = Some cmp \<and> cmp_Compress cmp plainData = Inr reqData \<and>
           cmp_Decompress cmp reqData = Inr plainData))"

lemma Server_invoke_method:
  assumes "codecs_fit c s t arg plainData reqData" "sv_services s service = Some methods" "methods method = Some (Handler t run)"
    "run ctx arg = (Some res, err)" "ser_Encode (cl_serializer c) res = Inr resData" "\<not> isOneWay ctx"
    "rq_ServiceName req = service" "rq_MethodName req = method" "rq_Data req = reqData"
    "rq_Serializer req = ser_Code (cl_serializer c)" "rq_Compressor req = (case cl_compressor c of None \<Rightarrow> 0 | Some cmp \<Rightarrow> cmp_Code cmp)"
  shows "\<exists>response. Server_invoke s ctx req = Inr (Answer response err) \<and> rs_Data response = resData \<and> rs_ErrorInfo response = []"
  using assms by (cases "cl_compressor c") (simp_all add: Server_invoke_def stub_invoke_def codecs_fit_def)

section \<open>Properties\<close>


text \<open>An example: the values are bytes, compression turns them around, and the method doubles its argument.\<close>

definition bytes_serializer :: "(unit, bytes) Serializer" where
  "bytes_serializer = \<lparr>ser_Code = 1, ser_Encode = Inr, ser_Decode = (\<lambda>_. Inr)\<rparr>"

definition rev_compressor :: Compressor where
  "rev_compressor = \<lparr>cmp_Code = 1, cmp_Compress = (\<lambda>bs. Inr (rev bs)), cmp_Decompress = (\<lambda>bs. Inr (rev bs))\<rparr>"

definition example_run :: "Ctx \<Rightarrow> bytes \<Rightarrow> bytes option \<times> bytes option" where
  "example_run ctx v = (Some (v @ v), if ctx_deadline ctx = None then None else Some [33])"

definition example_methods :: "(unit, bytes) service" where
  "example_methods = [[71] \<mapsto> Handler () example_run]"

definition example_server :: "(unit, bytes) Server" where
  "example_server = RegisterService [117] example_methods
     (NewServer bytes_serializer (bytes_serializer\<lparr>ser_Code := 2\<rparr>) rev_compressor)"

definition example_client :: "(unit, bytes) Client" where
  "example_client = ClientWithCompressor rev_compressor \<lparr>cl_serializer = bytes_serializer, cl_compressor = None\<rparr>"


text \<open>A request for a service that is not registered is answered with an error that names it.\<close>

lemma unknown_service_answer:
  "sv_services s (rq_ServiceName req) = None \<Longrightarrow>
   \<exists>resp. Server_invoke s ctx req = Inr (Answer resp (Some (unknown_service (rq_ServiceName req)))) \<and> rs_MessageID resp = rq_MessageID req"
  by (simp add: Server_invoke_def)

text \<open>
  C40: What an unexpected request for a registered service does to the server: an unknown method, a
  method with too few parameters and, for an uncompressed request, an unknown serializer panic, and
  nothing on the way recovers, so that one request of one client ends the server.
\<close>

theorem unexpected_request_panics:
  assumes "plain r" "mset (range_order (rq_Meta r)) = mset (rq_Meta r)" "sv_services s (rq_ServiceName r) = Some methods"
    "map_of (range_order (rq_Meta r)) one_way_key = None"
    "methods (rq_MethodName r) = None \<or> methods (rq_MethodName r) = Some OtherMethod \<or>
     sv_serializers s (rq_Serializer r) = None \<and> sv_compressors s (rq_Compressor r) = None"
  shows "\<exists>bs p. EncodeRequest range_order (with_lengths r) = Inr bs \<and> handleConn s writable [bs] [] = Some (Inl p, [])"
proof -
  let ?req = "(with_lengths r)\<lparr>rq_Meta := range_order (rq_Meta r)\<rparr>"
  obtain bs where 1: "EncodeRequest range_order (with_lengths r) = Inr bs" "ReceiveRequestStream [bs] = (Inr (Inr bs), [])"
    "DecodeRequest bs = Inr ?req"
    using request_on_wire [OF assms(1), of range_order "[]" "[]"] assms(2) by auto
  have ow: "\<not> isOneWay (request_ctx ?req)"
    using assms(4) by (simp add: request_ctx_def isOneWay_def Background_def Let_def split: option.split)
  have f: "rq_MethodName ?req = rq_MethodName r" "rq_Compressor ?req = rq_Compressor r" "rq_Serializer ?req = rq_Serializer r"
    "rq_ServiceName ?req = rq_ServiceName r" by simp_all
  have "\<exists>p. stub_invoke s methods (request_ctx ?req) ?req = Inl p"
  proof (cases "methods (rq_MethodName r)")
    case (Some m)
    then show ?thesis using assms(5) by (cases m) (simp_all add: stub_invoke_def f)
  qed (simp add: stub_invoke_def f)
  then obtain p where "stub_invoke s methods (request_ctx ?req) ?req = Inl p" ..
  then have "Server_invoke s (request_ctx ?req) ?req = Inl p"
    using assms(3) ow by (simp add: Server_invoke_def f)
  then have "handle_request s [bs] = (Inl p, [])" using 1(2,3) by (simp add: handle_request_def)
  then have "handleConn s writable [bs] [] = Some (Inl p, [])" by (subst handleConn.simps) simp
  with 1(1) show ?thesis by blast
qed

theorem unexpected_request_panics_witness:
  "\<exists>bs p. EncodeRequest id (with_lengths (new_request example_client [117] [99] Background [])) = Inr bs \<and>
     handleConn example_server (\<lambda>_. True) [bs] [] = Some (Inl p, [])"
proof -
  let ?r = "new_request example_client [117] [99] Background []"
  have p: "plain ?r" by (simp add: plain_def new_request_def request_header_def request_meta_def Background_def isOneWay_def meta_part_def)
  show ?thesis
    by (rule unexpected_request_panics [OF p, where methods = example_methods])
      (simp_all add: new_request_def example_methods_def example_server_def RegisterService_def request_meta_def Background_def isOneWay_def)
qed

text \<open>
  A context that ends before the reply: the caller gets the error of the context, \<^verbatim>\<open>invoke\<close> closes the
  channel, and the goroutine that reports on it afterwards panics.
\<close>

lemma timeout_leaves_panic:
  "Client_invoke None (Some e) (Inr reply) = (Inr (Inl e), Some (UserPanic ''send on closed channel''))"
  by (simp add: Client_invoke_def)

end
