(* ===== verification/GrpcBalance.thy ===== *)
theory GrpcBalance
  imports Go_Strings "HOL-Library.Multiset"
begin

text \<open>
  The pickers for gRPC: \<^verbatim>\<open>micro/loadBalance\<close> and \<^verbatim>\<open>micro/route\<close>. A picker is built from the ready
  connections, here in the order in which the range over their map visits them, and is asked for a
  connection for every call. Random numbers are arguments; a lock that is not released makes the
  next call block.
\<close>

section \<open>Building\<close>

datatype pick_error = ErrNoSubConnAvailable

text \<open>A picker that always reports the error, or the one of the package.\<close>

datatype 'b picker = ErrPicker pick_error | Picker 'b

section \<open>Round robin\<close>

record 'c rr_balancer =
  rr_connections :: "'c list"
  rr_next :: u64

text \<open>\<open>r\<close> is the result of \<^verbatim>\<open>rand.Uint64N\<close>.\<close>

definition rr_Build :: "'c list \<Rightarrow> u64 \<Rightarrow> 'c rr_balancer picker" where
  "rr_Build ready r =
     (if ready = [] then ErrPicker ErrNoSubConnAvailable
      else Picker \<lparr>rr_connections = ready, rr_next = r mod of_nat (length ready)\<rparr>)"

definition rr_Pick :: "'c rr_balancer \<Rightarrow> (go_panic + 'c) \<times> 'c rr_balancer" where
  "rr_Pick b =
     (if rr_connections b = [] then (Inl DividePanic, b)
      else (Inr (rr_connections b ! unat (rr_next b mod of_nat (length (rr_connections b)))), b\<lparr>rr_next := rr_next b + 1\<rparr>))"

section \<open>Random\<close>

record 'c rand_balancer =
  rb_connections :: "'c list"
  rb_length :: nat

definition rand_Build :: "'c list \<Rightarrow> 'c rand_balancer picker" where
  "rand_Build ready =
     (if ready = [] then ErrPicker ErrNoSubConnAvailable else Picker \<lparr>rb_connections = ready, rb_length = length ready\<rparr>)"

definition rand_Pick :: "nat \<Rightarrow> 'c rand_balancer \<Rightarrow> go_panic + 'c" where
  "rand_Pick r b =
     (if rb_length b = 0 then Inl (UserPanic ''invalid argument to IntN'') else Inr (rb_connections b ! (r mod rb_length b)))"

section \<open>Weighted random\<close>

record 'c wr_balancer =
  wr_connections :: "('c \<times> u32) list"
  wr_totalWeight :: u32

text \<open>The total weight is computed but not stored.\<close>

definition wr_Build :: "('c \<times> u32) list \<Rightarrow> 'c wr_balancer picker" where
  "wr_Build ready =
     (if ready = [] then ErrPicker ErrNoSubConnAvailable else Picker \<lparr>wr_connections = ready, wr_totalWeight = 0\<rparr>)"

text \<open>The remaining weight is unsigned, so that it is never below zero.\<close>

fun wr_loop :: "('c \<times> u32) list \<Rightarrow> u32 \<Rightarrow> pick_error + 'c" where
  "wr_loop [] w = Inl ErrNoSubConnAvailable"
| "wr_loop ((c, weight) # cs) w = (let w = w - weight in if w < 0 then Inr c else wr_loop cs w)"

definition wr_Pick :: "u32 \<Rightarrow> 'c wr_balancer \<Rightarrow> go_panic + pick_error + 'c" where
  "wr_Pick r b =
     (if wr_totalWeight b = 0 then Inl (UserPanic ''invalid argument to Uint32N'')
      else Inr (wr_loop (wr_connections b) (r mod wr_totalWeight b)))"

section \<open>Least active\<close>

text \<open>The connections with the counters of their active calls.\<close>

type_synonym 'c la_balancer = "('c \<times> u32) list"

text \<open>Without ready connections the error picker is created and dropped.\<close>

definition la_Build :: "'c list \<Rightarrow> 'c la_balancer picker" where
  "la_Build ready = Picker (map (\<lambda>c. (c, 0)) ready)"

text \<open>
  The search starts with a placeholder (\<open>None\<close>) whose counter is the largest number; the result is the
  position of the connection. The placeholder has no connection: it is returned as nil.
\<close>

fun la_search :: "nat \<Rightarrow> 'c la_balancer \<Rightarrow> nat option \<times> u32 \<Rightarrow> nat option \<times> u32" where
  "la_search i [] best = best"
| "la_search i ((c, cnt) # cs) (res, m) = la_search (Suc i) cs (if m > cnt then (Some i, cnt) else (res, m))"

definition la_Pick :: "'c la_balancer \<Rightarrow> nat option \<times> 'c la_balancer" where
  "la_Pick b =
     (case fst (la_search 0 b (None, -1)) of
        None \<Rightarrow> (None, b)
      | Some i \<Rightarrow> (Some i, b[i := (fst (b ! i), snd (b ! i) + 1)]))"

text \<open>The function \<^verbatim>\<open>Done\<close> of the pick of position \<open>i\<close> adds \<^verbatim>\<open>^uint32(0)\<close>.\<close>

definition la_Done :: "nat \<Rightarrow> 'c la_balancer \<Rightarrow> 'c la_balancer" where
  "la_Done i b = b[i := (fst (b ! i), snd (b ! i) + (-1))]"

section \<open>Smooth weighted round robin\<close>

record 'c weightConn =
  wc_sc :: 'c
  wc_efficientWeight :: u32
  wc_currentWeight :: u32
  wc_locked :: bool

definition sw_Build :: "('c \<times> u32) list \<Rightarrow> 'c weightConn list picker" where
  "sw_Build ready =
     (if ready = [] then ErrPicker ErrNoSubConnAvailable
      else Picker (map (\<lambda>(c, w). \<lparr>wc_sc = c, wc_efficientWeight = w, wc_currentWeight = w, wc_locked = False\<rparr>) ready))"

text \<open>
  The loop over the connections adds their weights and remembers the position with the largest
  current weight. \<open>None\<close>: a lock is held, the call blocks.
\<close>

fun sw_loop :: "nat \<Rightarrow> 'c weightConn list \<Rightarrow> u32 \<Rightarrow> (nat \<times> u32) option \<Rightarrow> ('c weightConn list \<times> u32 \<times> nat option) option" where
  "sw_loop i [] tw res = Some ([], tw, map_option fst res)"
| "sw_loop i (c # cs) tw res =
     (if wc_locked c then None
      else let w = wc_currentWeight c + wc_efficientWeight c;
               res' = (case res of None \<Rightarrow> Some (i, w) | Some (j, v) \<Rightarrow> if v < w then Some (i, w) else res)
           in map_option (\<lambda>(cs, r). (c\<lparr>wc_currentWeight := w\<rparr> # cs, r)) (sw_loop (Suc i) cs (tw + wc_efficientWeight c) res'))"

definition sw_Pick :: "'c weightConn list \<Rightarrow> ((pick_error + nat) \<times> 'c weightConn list) option" where
  "sw_Pick b =
     (if b = [] then Some (Inl ErrNoSubConnAvailable, b)
      else (case sw_loop 0 b 0 None of
              None \<Rightarrow> None
            | Some (b, tw, None) \<Rightarrow> Some (Inl ErrNoSubConnAvailable, b)
            | Some (b, tw, Some i) \<Rightarrow> Some (Inr i, b[i := (b ! i)\<lparr>wc_currentWeight := wc_currentWeight (b ! i) - tw\<rparr>])))"

text \<open>The two early returns leave the lock held.\<close>

definition sw_Done :: "bool \<Rightarrow> nat \<Rightarrow> 'c weightConn list \<Rightarrow> 'c weightConn list option" where
  "sw_Done failed i b =
     (let c = b ! i
      in if wc_locked c then None
         else if failed \<and> wc_efficientWeight c = 0 \<or> \<not> failed \<and> wc_efficientWeight c = -1 then Some (b[i := c\<lparr>wc_locked := True\<rparr>])
         else Some (b[i := c\<lparr>wc_efficientWeight := if failed then wc_efficientWeight c - 1 else wc_efficientWeight c + 1\<rparr>]))"

section \<open>Routing by groups\<close>

text \<open>A missing group makes the type assertion of the filter panic.\<close>

definition group_filter :: "string option \<Rightarrow> string option \<Rightarrow> go_panic + bool" where
  "group_filter clientTag serviceTag =
     (case (clientTag, serviceTag) of
        (Some c, Some s) \<Rightarrow> Inr (s = c)
      | _ \<Rightarrow> Inl (UserPanic ''interface conversion''))"

record 'c route_balancer =
  ro_connections :: "('c \<times> string option) list"   \<comment> \<open>with the group of the address\<close>
  ro_next :: u64
  ro_filter :: "(string option \<Rightarrow> string option \<Rightarrow> go_panic + bool) option"

definition ro_Build :: "(string option \<Rightarrow> string option \<Rightarrow> go_panic + bool) option \<Rightarrow> ('c \<times> string option) list \<Rightarrow> u64 \<Rightarrow> 'c route_balancer picker" where
  "ro_Build filter_opt ready r =
     (if ready = [] then ErrPicker ErrNoSubConnAvailable
      else Picker \<lparr>ro_connections = ready, ro_next = r mod of_nat (length ready), ro_filter = filter_opt\<rparr>)"

text \<open>A connection for which the filter is true is left out.\<close>

fun ro_candidates :: "(string option \<Rightarrow> string option \<Rightarrow> go_panic + bool) option \<Rightarrow> string option \<Rightarrow> ('c \<times> string option) list \<Rightarrow>
    go_panic + ('c \<times> string option) list" where
  "ro_candidates f tag [] = Inr []"
| "ro_candidates f tag (c # cs) =
     sum_bind (case f of None \<Rightarrow> Inr False | Some f \<Rightarrow> f tag (snd c)) (\<lambda>skip.
       sum_bind (ro_candidates f tag cs) (\<lambda>cs. Inr (if skip then cs else c # cs)))"

definition ro_Pick :: "string option \<Rightarrow> 'c route_balancer \<Rightarrow> (go_panic + 'c) \<times> 'c route_balancer" where
  "ro_Pick tag b =
     (case ro_candidates (ro_filter b) tag (ro_connections b) of
        Inl p \<Rightarrow> (Inl p, b)
      | Inr [] \<Rightarrow> (Inl DividePanic, b)
      | Inr cs \<Rightarrow> (Inr (fst (cs ! unat (ro_next b mod of_nat (length cs)))), b\<lparr>ro_next := ro_next b + 1\<rparr>))"

section \<open>Round robin is fair\<close>

fun rr_picks :: "nat \<Rightarrow> 'c rr_balancer \<Rightarrow> (go_panic + 'c) list" where
  "rr_picks 0 b = []"
| "rr_picks (Suc n) b = (case rr_Pick b of (r, b) \<Rightarrow> r # rr_picks n b)"

lemma rr_picks_index:
  assumes "rr_connections b \<noteq> []" "length (rr_connections b) < 2 ^ 64" "unat (rr_next b) + n \<le> 2 ^ 64"
  shows "rr_picks n b = map (\<lambda>i. Inr (rr_connections b ! ((unat (rr_next b) + i) mod length (rr_connections b)))) [0..<n]"
  using assms
proof (induction n arbitrary: b)
  case (Suc n)
  let ?b = "b\<lparr>rr_next := rr_next b + 1\<rparr>"
  have u: "unat (of_nat (length (rr_connections b)) :: u64) = length (rr_connections b)"
    using Suc.prems(2) by (intro unat_of_nat_small) simp
  show ?case
  proof (cases n)
    case 0
    then show ?thesis using Suc.prems(1) u by (simp add: rr_Pick_def unat_mod)
  next
    case (Suc m)
    then have "unat (rr_next b) + 1 < 2 ^ 64" using Suc.prems(3) by simp
    then have x: "unat (rr_next b + 1) = Suc (unat (rr_next b))" by (simp add: unat_word_ariths)
    have "rr_picks n ?b = map (\<lambda>i. Inr (rr_connections b ! ((Suc (unat (rr_next b)) + i) mod length (rr_connections b)))) [0..<n]"
      using Suc.IH [of ?b] Suc.prems x by simp
    then show ?thesis using Suc.prems(1) u
      by (simp add: rr_Pick_def unat_mod upt_conv_Cons map_Suc_upt [symmetric] del: upt_Suc)
  qed
qed simp

lemma mset_rotate: "mset (rotate n xs) = mset xs"
  by (metis append_take_drop_id mset_append rotate_drop_take union_commute)

lemma image_repeat_mset: "image_mset f (repeat_mset k M) = repeat_mset k (image_mset f M)"
  by (induction k) simp_all

lemma map_mod_rotate: "map (\<lambda>i. xs ! ((a + i) mod length xs)) [0..<length xs] = rotate a xs"
  by (rule nth_equalityI) (simp_all add: nth_rotate)

section \<open>Smooth weighted round robin\<close>

fun sw_picks :: "nat \<Rightarrow> 'c weightConn list \<Rightarrow> ((pick_error + nat) list \<times> 'c weightConn list) option" where
  "sw_picks 0 b = Some ([], b)"
| "sw_picks (Suc n) b =
     (case sw_Pick b of
        None \<Rightarrow> None
      | Some (r, b) \<Rightarrow> map_option (\<lambda>(rs, b). (r # rs, b)) (sw_picks n b))"

text \<open>The state with weights 5, 1 and 1 after four picks and \<open>k\<close> more.\<close>

definition stuck :: "nat \<Rightarrow> nat weightConn list" where
  "stuck k =
     [\<lparr>wc_sc = 0, wc_efficientWeight = 5, wc_currentWeight = 4 + 5 * of_nat k, wc_locked = False\<rparr>,
      \<lparr>wc_sc = 1, wc_efficientWeight = 1, wc_currentWeight = - 2 - 6 * of_nat k, wc_locked = False\<rparr>,
      \<lparr>wc_sc = 2, wc_efficientWeight = 1, wc_currentWeight = 5 + of_nat k, wc_locked = False\<rparr>]"

lemma stuck_step:
  assumes "k < 390000000"
  shows "sw_Pick (stuck k) = Some (Inr 1, stuck (Suc k))"
proof -
  let ?a = "9 + 5 * of_nat k :: u32" and ?b = "- 1 - 6 * of_nat k :: u32" and ?c = "6 + of_nat k :: u32"
  have a: "unat ?a = 9 + 5 * k"
    using assms unat_of_nat_small [where 'a = 32, of "9 + 5 * k"] by simp
  have c: "unat ?c = 6 + k"
    using assms unat_of_nat_small [where 'a = 32, of "6 + k"] by simp
  have e: "?b = of_nat (2 ^ 32 - 1 - 6 * k)"
    using assms by (simp add: of_nat_diff)
  have b: "unat ?b = 2 ^ 32 - 1 - 6 * k"
    unfolding e by (rule unat_of_nat_small) simp
  have ab: "?a < ?b" unfolding word_less_nat_alt a b using assms by simp
  have bc: "\<not> ?b < ?c" unfolding word_less_nat_alt b c using assms by simp
  show ?thesis
    using ab bc by (simp add: sw_Pick_def stuck_def algebra_simps)
qed

lemma stuck_picks: "k + n \<le> 390000000 \<Longrightarrow> sw_picks n (stuck k) = Some (replicate n (Inr 1), stuck (k + n))"
proof (induction n arbitrary: k)
  case (Suc n)
  then show ?case using stuck_step [of k] Suc.IH [of "Suc k"] by simp
qed simp

lemma sw_picks_add:
  "sw_picks m b = Some (rs, b') \<Longrightarrow> sw_picks (m + n) b = map_option (\<lambda>(rs', b). (rs @ rs', b)) (sw_picks n b')"
proof (induction m arbitrary: b rs)
  case 0
  then show ?case by (simp add: case_prod_beta option.map_ident)
next
  case (Suc m)
  then show ?case by (fastforce split: option.splits simp: option.map_comp comp_def case_prod_beta)
qed

lemma sw_loop_locked: "\<exists>c \<in> set cs. wc_locked c \<Longrightarrow> sw_loop i cs tw res = None"
  by (induction cs arbitrary: i tw res) (auto simp: Let_def)

section \<open>Candidates\<close>

lemma ro_candidates_group:
  assumes "\<forall>c \<in> set cs. snd c \<noteq> None"
  shows "ro_candidates (Some group_filter) (Some tag) cs = Inr (filter (\<lambda>c. snd c \<noteq> Some tag) cs)"
  using assms by (induction cs) (auto simp: group_filter_def)

section \<open>Properties\<close>

text \<open>
  Round robin is fair: as long as the 64-bit counter does not wrap, every \<open>k\<close> rounds of as many
  picks as there are connections give each connection exactly \<open>k\<close> times, and no pick panics.
\<close>

lemma grpc_round_robin_fair:
  assumes "rr_Build ready r = Picker b" "length ready < 2 ^ 32" "k < 2 ^ 31"
  shows "mset (rr_picks (k * length ready) b) = repeat_mset k (image_mset Inr (mset ready))"
proof -
  have b: "ready \<noteq> []" "b = \<lparr>rr_connections = ready, rr_next = r mod of_nat (length ready)\<rparr>"
    using assms(1) by (auto simp: rr_Build_def split: if_splits)
  let ?n = "length ready" and ?a = "unat (rr_next b)"
  have u: "unat (of_nat ?n :: u64) = ?n" using assms(2) by (intro unat_of_nat_small) simp
  then have a: "?a < ?n" using b by (simp add: unat_mod)
  have "k * ?n \<le> 2 ^ 31 * 2 ^ 32" using assms(2,3) by (intro mult_mono) simp_all
  then have le: "?a + k * ?n \<le> 2 ^ 64" using a assms(2) by simp
  have "rr_picks (k * ?n) b = map (\<lambda>i. Inr (ready ! ((?a + i) mod ?n))) [0..<k * ?n]"
    using rr_picks_index [of b "k * ?n"] b(1) le assms(2) by (simp add: b(2))
  also have "mset \<dots> = image_mset Inr (mset (map (\<lambda>i. ready ! ((?a + i) mod ?n)) [0..<k * ?n]))"
    by (simp only: mset_map image_mset.compositionality comp_def)
  also have "mset (map (\<lambda>i. ready ! ((?a + i) mod ?n)) [0..<k * ?n]) = repeat_mset k (mset ready)"
  proof (induction k)
    case (Suc k)
    have "[0..<Suc k * ?n] = [0..<k * ?n] @ map (\<lambda>i. i + k * ?n) [0..<?n]"
      using upt_add_eq_append [of 0 "k * ?n" ?n] by (simp add: map_add_upt add.commute)
    moreover have "map (\<lambda>i. ready ! ((?a + (i + k * ?n)) mod ?n)) [0..<?n] = rotate ?a ready"
      using map_mod_rotate [of ready ?a] by (simp add: add.assoc [symmetric])
    ultimately show ?case using Suc.IH by (simp add: comp_def mset_rotate del: upt_Suc)
  qed simp
  finally show ?thesis by (simp add: image_repeat_mset)
qed



text \<open>A call that failed on a connection of weight 0 leaves its lock held, and every later pick blocks.\<close>

lemma done_leaves_lock:
  assumes "i < length b" "\<not> wc_locked (b ! i)" "wc_efficientWeight (b ! i) = 0"
  shows "\<exists>b'. sw_Done True i b = Some b' \<and> sw_Pick b' = None"
proof -
  let ?b = "b[i := (b ! i)\<lparr>wc_locked := True\<rparr>]"
  have "\<exists>c \<in> set ?b. wc_locked c" using assms(1) by (intro bexI [of _ "(b ! i)\<lparr>wc_locked := True\<rparr>"]) (simp_all add: set_update_memI)
  moreover have "?b \<noteq> []" using assms(1) by auto
  ultimately have "sw_Pick ?b = None" by (simp add: sw_Pick_def sw_loop_locked)
  then show ?thesis using assms(2,3) by (simp add: sw_Done_def Let_def)
qed

text \<open>The weighted random picker never picks: the total weight it was built with is 0, which the random number generator refuses.\<close>

lemma weight_random_never_picks:
  "wr_Build ready = Picker b \<Longrightarrow> \<exists>m. wr_Pick r b = Inl (UserPanic m)"
  by (auto simp: wr_Build_def wr_Pick_def split: if_splits)

lemma wr_loop_never: "wr_loop cs w = Inl ErrNoSubConnAvailable"
  by (induction cs w rule: wr_loop.induct) (simp_all add: Let_def)

text \<open>Without connections the least active picker answers with a nil connection instead of an error.\<close>

lemma least_active_empty: "la_Build [] = Picker [] \<and> fst (la_Pick []) = None"
  by (simp add: la_Build_def la_Pick_def)

text \<open>
  The routing picker with the group filter does the opposite of what the filter says: it never
  picks a connection of the group of the caller, and if all connections are in that group, it
  panics with a division by zero.
\<close>

lemma route_avoids_group:
  assumes "ro_filter b = Some group_filter" "\<forall>c \<in> set (ro_connections b). snd c \<noteq> None" "length (ro_connections b) < 2 ^ 64"
  shows "case fst (ro_Pick (Some tag) b) of
      Inr c \<Rightarrow> \<exists>g. (c, Some g) \<in> set (ro_connections b) \<and> g \<noteq> tag
    | Inl p \<Rightarrow> p = DividePanic \<and> (\<forall>c \<in> set (ro_connections b). snd c = Some tag)"
proof -
  let ?cs = "filter (\<lambda>c. snd c \<noteq> Some tag) (ro_connections b)"
  have c: "ro_candidates (ro_filter b) (Some tag) (ro_connections b) = Inr ?cs"
    unfolding assms(1) using assms(2) by (rule ro_candidates_group)
  show ?thesis
  proof (cases "?cs = []")
    case True
    then show ?thesis using c by (auto simp: ro_Pick_def filter_empty_conv)
  next
    case False
    have "length ?cs < 2 ^ 64" by (rule le_less_trans [OF length_filter_le assms(3)])
    then have u: "unat (of_nat (length ?cs) :: u64) = length ?cs" by (intro unat_of_nat_small) simp
    let ?i = "unat (ro_next b mod of_nat (length ?cs))"
    have "?i < length ?cs" using False by (simp add: unat_mod u)
    then have "?cs ! ?i \<in> set ?cs" by (rule nth_mem)
    then have m: "?cs ! ?i \<in> set (ro_connections b)" "snd (?cs ! ?i) \<noteq> Some tag" by auto
    have p: "fst (ro_Pick (Some tag) b) = Inr (fst (?cs ! ?i))"
      using c False by (auto simp: ro_Pick_def split: list.split)
    obtain g where "snd (?cs ! ?i) = Some g" using assms(2) m(1) by auto
    then show ?thesis using m p by (auto simp: prod_eq_iff intro!: exI [of _ g]) (metis prod.collapse)
  qed
qed

end
