(* ===== verification/MicroRegistry.thy ===== *)
theory MicroRegistry
  imports Go_Strings
begin

text \<open>
  Service discovery: the registry on etcd (\<^verbatim>\<open>micro/registry/etcd/registry.go\<close>), the gRPC resolver that
  reads it (\<^verbatim>\<open>micro/grpc_resolver.go\<close>) and the server and client that use them (\<^verbatim>\<open>micro/server.go\<close>,
  \<^verbatim>\<open>micro/client.go\<close>). The etcd client is a record of its calls, and JSON a pair of functions; what their
  documentation promises is a predicate.
\<close>

section \<open>The registry\<close>

record ServiceInstance =
  si_Name :: string
  si_Address :: string
  si_Weight :: u32
  si_Group :: string

record 's etcd =
  e_Put :: "string \<Rightarrow> string \<Rightarrow> 's \<Rightarrow> string option \<times> 's"
  e_Delete :: "string \<Rightarrow> 's \<Rightarrow> string option \<times> 's"
  e_Get :: "string \<Rightarrow> bool \<Rightarrow> 's \<Rightarrow> string + string list"   \<comment> \<open>the values; the flag is \<^verbatim>\<open>WithPrefix\<close>\<close>
  e_content :: "'s \<Rightarrow> string \<rightharpoonup> string"   \<comment> \<open>what the store holds\<close>

definition etcd_laws :: "'s etcd \<Rightarrow> bool" where
  "etcd_laws E =
     ((\<forall>k v s s'. e_Put E k v s = (None, s') \<longrightarrow> e_content E s' = (e_content E s)(k \<mapsto> v)) \<and>
      (\<forall>k s s'. e_Delete E k s = (None, s') \<longrightarrow> e_content E s' = (e_content E s)(k := None)) \<and>
      (\<forall>k s vs. e_Get E k True s = Inr vs \<longrightarrow> set vs = {v. \<exists>j. has_prefix k j \<and> e_content E s j = Some v}) \<and>
      (\<forall>k s vs. e_Get E k False s = Inr vs \<longrightarrow> set vs = {v. e_content E s k = Some v}))"

definition instanceKey :: "ServiceInstance \<Rightarrow> string" where
  "instanceKey si = ''/micro/'' @ si_Name si @ ''/'' @ si_Address si"

definition serviceKey :: "string \<Rightarrow> string" where
  "serviceKey sn = ''/micro/'' @ sn"

definition Registry :: "(ServiceInstance \<Rightarrow> string + string) \<Rightarrow> 's etcd \<Rightarrow> ServiceInstance \<Rightarrow> 's \<Rightarrow> string option \<times> 's" where
  "Registry marshal E si s =
     (case marshal si of
        Inl err \<Rightarrow> (Some err, s)
      | Inr data \<Rightarrow> e_Put E (instanceKey si) data s)"

definition UnRegistry :: "'s etcd \<Rightarrow> ServiceInstance \<Rightarrow> 's \<Rightarrow> string option \<times> 's" where
  "UnRegistry E si s = e_Delete E (instanceKey si) s"

fun unmarshal_all :: "(string \<Rightarrow> string + ServiceInstance) \<Rightarrow> string list \<Rightarrow> string + ServiceInstance list" where
  "unmarshal_all unmarshal [] = Inr []"
| "unmarshal_all unmarshal (v # vs) =
     sum_bind (unmarshal v) (\<lambda>si. sum_bind (unmarshal_all unmarshal vs) (\<lambda>sis. Inr (si # sis)))"

definition ListServices :: "(string \<Rightarrow> string + ServiceInstance) \<Rightarrow> 's etcd \<Rightarrow> string \<Rightarrow> bool \<Rightarrow> 's \<Rightarrow> string + ServiceInstance list" where
  "ListServices unmarshal E serviceName prefix s = sum_bind (e_Get E (serviceKey serviceName) prefix s) (unmarshal_all unmarshal)"

text \<open>
  The goroutine of \<^verbatim>\<open>Subscribe\<close>: the events it forwards for the responses of the watch. It goes on after
  an error and ends when the watch is cancelled.
\<close>

datatype event_type = PUT | DELETE
datatype watch_response = WatchErr | WatchCanceled | WatchEvents "event_type list"

fun forward :: "watch_response list \<Rightarrow> event_type list" where
  "forward [] = []"
| "forward (WatchErr # rs) = forward rs"
| "forward (WatchCanceled # rs) = []"
| "forward (WatchEvents evs # rs) = evs @ forward rs"

text \<open>\<^verbatim>\<open>Close\<close> cancels every subscription and closes the session; the state is the list of the open subscriptions.\<close>

definition Registry_Close :: "string option \<Rightarrow> nat list \<Rightarrow> string option \<times> nat list \<times> nat list" where
  "Registry_Close sess_err cancels = (sess_err, cancels, [])"

section \<open>The resolver\<close>

record address =
  ad_Addr :: string
  ad_weight :: u32
  ad_group :: string

text \<open>What the resolver tells the gRPC connection.\<close>

datatype cc_call = ReportError string | UpdateState "address list"

definition address_of :: "ServiceInstance \<Rightarrow> address" where
  "address_of si = \<lparr>ad_Addr = si_Address si, ad_weight = si_Weight si, ad_group = si_Group si\<rparr>"

definition resolve :: "(address list \<Rightarrow> string option) \<Rightarrow> string + ServiceInstance list \<Rightarrow> cc_call list" where
  "resolve update listed =
     (case listed of
        Inl err \<Rightarrow> [ReportError err]
      | Inr sis \<Rightarrow>
          let addressList = map address_of sis
          in UpdateState addressList # (case update addressList of None \<Rightarrow> [] | Some err \<Rightarrow> [ReportError err]))"

datatype watch_step = Event "string + ServiceInstance list" | CloseResolver   \<comment> \<open>with what a lookup would list then\<close>

text \<open>The \<^verbatim>\<open>select\<close> of \<^verbatim>\<open>watch\<close> is not in a loop: it handles one step.\<close>

fun watch :: "string option \<Rightarrow> (address list \<Rightarrow> string option) \<Rightarrow> watch_step list \<Rightarrow> cc_call list" where
  "watch (Some err) update steps = [ReportError err]"
| "watch None update [] = []"
| "watch None update (Event listed # steps) = resolve update listed"
| "watch None update (CloseResolver # steps) = []"

definition Build :: "(address list \<Rightarrow> string option) \<Rightarrow> string + ServiceInstance list \<Rightarrow> string option \<Rightarrow> watch_step list \<Rightarrow> cc_call list" where
  "Build update listed subscribe_err steps = resolve update listed @ watch subscribe_err update steps"

section \<open>Server and client\<close>

record MicroServer =
  ms_name :: string
  ms_registry :: bool   \<comment> \<open>a registry is set\<close>
  ms_weight :: u32
  ms_group :: string

definition MicroNewServer :: "string \<Rightarrow> (MicroServer \<Rightarrow> MicroServer) list \<Rightarrow> MicroServer" where
  "MicroNewServer serviceName opts = fold (\<lambda>opt s. opt s) opts \<lparr>ms_name = serviceName, ms_registry = False, ms_weight = 0, ms_group = []\<rparr>"

definition ServerWithRegistry :: "MicroServer \<Rightarrow> MicroServer" where
  "ServerWithRegistry s = s\<lparr>ms_registry := True\<rparr>"

definition ServerWithWeight :: "u32 \<Rightarrow> MicroServer \<Rightarrow> MicroServer" where
  "ServerWithWeight weight s = s\<lparr>ms_weight := weight\<rparr>"

definition ServerWithGroup :: "string \<Rightarrow> MicroServer \<Rightarrow> MicroServer" where
  "ServerWithGroup grp s = s\<lparr>ms_group := grp\<rparr>"

definition own_instance :: "MicroServer \<Rightarrow> string \<Rightarrow> ServiceInstance" where
  "own_instance s addr = \<lparr>si_Name = ms_name s, si_Address = addr, si_Weight = ms_weight s, si_Group = ms_group s\<rparr>"

text \<open>\<open>listen\<close> is the error or the address of the listener, \<open>serve\<close> the error with which serving ends.\<close>

definition Start :: "(ServiceInstance \<Rightarrow> 's \<Rightarrow> string option \<times> 's) \<Rightarrow> string + string \<Rightarrow> string option \<Rightarrow> MicroServer \<Rightarrow> 's \<Rightarrow> string option \<times> 's" where
  "Start register listen serve ms s =
     (case listen of
        Inl err \<Rightarrow> (Some err, s)
      | Inr addr \<Rightarrow>
          if ms_registry ms then
            (case register (own_instance ms addr) s of
               (Some err, s) \<Rightarrow> (Some err, s)
             | (None, s) \<Rightarrow> (serve, s))
          else (serve, s))"

definition Server_Close :: "string option \<Rightarrow> MicroServer \<Rightarrow> string option \<times> bool" where
  "Server_Close registry_close ms =
     (if ms_registry ms then (case registry_close of Some err \<Rightarrow> (Some err, False) | None \<Rightarrow> (None, True)) else (None, True))"
  \<comment> \<open>the flag: \<^verbatim>\<open>GracefulStop\<close> was called\<close>

datatype 'o dial_option = WithResolver int | WithInsecure | UserOption 'o

text \<open>The target and the options of \<^verbatim>\<open>Dial\<close>; the registry of the client is given by its timeout.\<close>

definition Dial :: "int option \<Rightarrow> string \<Rightarrow> 'o list \<Rightarrow> string \<times> 'o dial_option list" where
  "Dial registry serviceName dialOpts =
     (''registry:///'' @ serviceName,
      (case registry of None \<Rightarrow> [] | Some timeout \<Rightarrow> [WithResolver timeout]) @ [WithInsecure] @ map UserOption dialOpts)"

section \<open>Properties\<close>

lemma unmarshal_all_set: "unmarshal_all u vs = Inr sis \<Longrightarrow> set sis = {si. \<exists>v \<in> set vs. u v = Inr si}"
  by (induction vs arbitrary: sis) (auto simp: sum_bind_Inr_iff)

lemma unmarshal_all_ok: "\<forall>v \<in> set vs. \<exists>si. u v = Inr si \<Longrightarrow> \<exists>sis. unmarshal_all u vs = Inr sis"
  by (induction vs) auto

text \<open>JSON gives back what it was given.\<close>

definition json_laws :: "(ServiceInstance \<Rightarrow> string + string) \<Rightarrow> (string \<Rightarrow> string + ServiceInstance) \<Rightarrow> bool" where
  "json_laws marshal unmarshal = (\<forall>si v. marshal si = Inr v \<longrightarrow> unmarshal v = Inr si)"

text \<open>The stores that registrations and their removals can produce from an empty one.\<close>

inductive registered :: "(ServiceInstance \<Rightarrow> string + string) \<Rightarrow> 's etcd \<Rightarrow> 's \<Rightarrow> (string \<rightharpoonup> ServiceInstance) \<Rightarrow> bool" for marshal E where
  empty: "e_content E s = Map.empty \<Longrightarrow> registered marshal E s Map.empty"
| register: "registered marshal E s m \<Longrightarrow> Registry marshal E si s = (None, s') \<Longrightarrow> registered marshal E s' (m(instanceKey si \<mapsto> si))"
| remove: "registered marshal E s m \<Longrightarrow> UnRegistry E si s = (None, s') \<Longrightarrow> registered marshal E s' (m(instanceKey si := None))"

lemma registered_content:
  assumes "etcd_laws E"
  shows "registered marshal E s m \<Longrightarrow> (\<forall>k v. e_content E s k = Some v \<longleftrightarrow> (\<exists>si. m k = Some si \<and> marshal si = Inr v)) \<and>
    (\<forall>k si. m k = Some si \<longrightarrow> k = instanceKey si \<and> (\<exists>v. marshal si = Inr v))"
proof (induction rule: registered.induct)
  case (register s m si s')
  obtain v where v: "marshal si = Inr v" "e_Put E (instanceKey si) v s = (None, s')"
    using register.hyps(2) by (auto simp: Registry_def split: sum.splits)
  then have "e_content E s' = (e_content E s)(instanceKey si \<mapsto> v)" using assms unfolding etcd_laws_def by blast
  with register.IH v(1) show ?case by auto
next
  case (remove s m si s')
  then have "e_content E s' = (e_content E s)(instanceKey si := None)" using assms unfolding etcd_laws_def UnRegistry_def by blast
  with remove.IH show ?case by auto
qed simp

lemma has_prefix_service: "has_prefix (serviceKey n) (instanceKey si) \<longleftrightarrow> has_prefix n (si_Name si @ ''/'' @ si_Address si)"
  by (auto simp: has_prefix_iff serviceKey_def instanceKey_def)


definition list_etcd :: "(string \<times> string) list etcd" where
  "list_etcd = \<lparr>e_Put = (\<lambda>k v s. (None, (k, v) # s)), e_Delete = (\<lambda>k s. (None, filter (\<lambda>(j, _). j \<noteq> k) s)),
     e_Get = (\<lambda>k pre s. Inr (remdups [v. (j, v) \<leftarrow> s, (if pre then has_prefix k j else j = k) \<and> map_of s j = Some v])),
     e_content = map_of\<rparr>"

lemma map_of_filter_key: "map_of (filter (\<lambda>(j, _). j \<noteq> k) s) = (map_of s)(k := None)"
  by (induction s) auto

lemma list_etcd_laws: "etcd_laws list_etcd"
  by (auto simp: etcd_laws_def list_etcd_def map_of_filter_key fun_eq_iff split: if_splits dest: map_of_SomeD)

definition user_instance :: ServiceInstance where
  "user_instance = \<lparr>si_Name = ''user'', si_Address = ''h:1'', si_Weight = 3, si_Group = ''g''\<rparr>"

definition admin_instance :: ServiceInstance where
  "admin_instance = \<lparr>si_Name = ''user-admin'', si_Address = ''h:2'', si_Weight = 1, si_Group = []\<rparr>"

definition two_marshal :: "ServiceInstance \<Rightarrow> string + string" where
  "two_marshal si = (if si = user_instance then Inr ''U'' else if si = admin_instance then Inr ''A'' else Inl ''unknown'')"

definition two_unmarshal :: "string \<Rightarrow> string + ServiceInstance" where
  "two_unmarshal v = (if v = ''U'' then Inr user_instance else if v = ''A'' then Inr admin_instance else Inl ''unknown'')"


text \<open>After the first event the resolver does not see changes of the registry any more.\<close>

lemma watch_one_event: "watch None update (Event listed # steps) = watch None update [Event listed]"
  by simp

end
