(* ===== verification/Spec2Isabelle.thy ===== *)
theory Spec2Isabelle
  imports Frame WebMiddleware NetClient NetServer OrmDB ConnPoolClose CacheSize CacheThrough RedisLock RpcCall GrpcBalance MicroRegistry
begin

text \<open>
  A verification library for Soil, a Go framework with a web server (\<^verbatim>\<open>src/web\<close>), an object-relational
  mapper (\<^verbatim>\<open>src/orm\<close>), a cache (\<^verbatim>\<open>src/cache\<close>) and a microservice stack (\<^verbatim>\<open>src/micro\<close>). The four parts do not
  call each other. Definitions have the names of the Go code where these are free; a prefix tells
  methods of the same name apart (\<open>rq_\<close>, \<open>rs_\<close>, \<open>hs_\<close>, \<open>rg_\<close>, \<open>sw_\<close>).

  \<^bold>\<open>Conventions.\<close> Theory \<open>Prelude\<close> has byte strings, integers at their width, big-endian numbers and the
  panics of the Go runtime as values (\<open>go_panic\<close>); \<open>Go_Strings\<close> has the functions of the standard library
  that the sources call. A struct is a record, an error a value of a sum or option type. What a struct
  shares through pointers lives in a store with numbered objects. The order of a range over a map,
  random numbers, the clock, and the outcome of reads and writes are arguments, so that the theorems
  hold for all of them. Code that holds a lock is one step; goroutines are interleaved by step relations
  or by lists of actions. Third-party code is an argument, with its documented behaviour as a predicate
  (\<open>redis_laws\<close>, \<open>etcd_laws\<close>, \<open>json_laws\<close>) that a concrete instance is shown to satisfy.

  \<^bold>\<open>Web.\<close> A request goes through the middlewares to the routing tree and the handler.
  \<^item> \<open>Router\<close> (\<^verbatim>\<open>web/route.go\<close>): the trees of the methods. A router refines a table from patterns to
    handlers, registration keeps it well formed also when it panics, and lookup dispatches to the
    pattern that fits or answers 404 or 405 with exactly the allowed methods.
  \<^item> \<open>WebServer\<close> (\<^verbatim>\<open>context.go\<close>, \<^verbatim>\<open>group.go\<close>, \<^verbatim>\<open>server.go\<close>): route groups run the right middlewares in the
    right order, and a context from the pool carries nothing over to the next request.
  \<^item> \<open>WebMiddleware\<close> (\<^verbatim>\<open>web/middleware\<close>): a token bucket admits no more than its capacity and rate allow,
    CORS names only configured origins. Recovery and timeout share the contract \<open>panic_barrier\<close>.

  \<^bold>\<open>Mapper.\<close> A statement is built from the metadata of a type and run through hooks and middlewares.
  \<^item> \<open>OrmModel\<close> (\<^verbatim>\<open>orm/internal/model\<close>): every model that the registry hands out is well formed.
  \<^item> \<open>OrmBuilder\<close> and \<open>OrmQuery\<close> (expressions, and \<^verbatim>\<open>Build\<close> of the four statements): a statement has as many
    placeholders outside of quotes as arguments, and an update of a versioned object checks the version.
  \<^item> \<open>OrmExec\<close> and \<open>OrmDB\<close> (\<^verbatim>\<open>Exec\<close>, \<^verbatim>\<open>Get\<close>, transactions, \<^verbatim>\<open>db.go\<close>, values): a transaction commits or rolls
    back exactly once, and both ways of filling an object from a row agree.

  \<^bold>\<open>Cache.\<close> The wrappers use the in-memory cache through an interface.
  \<^item> \<open>LocalCache\<close> (\<^verbatim>\<open>localCache.go\<close>): the doubly linked list in a heap. In every reachable state the list and
    the map agree; what is stored is found; the size stays within the capacity as long as no key is
    overwritten and every pair fits. Without these conditions it does not, which is shown as well.
  \<^item> \<open>CacheSize\<close> (\<^verbatim>\<open>size.go\<close>): the traversal of values ends, also on cyclic ones.
  \<^item> \<open>CacheThrough\<close> (\<^verbatim>\<open>read_through.go\<close>, \<^verbatim>\<open>write_through.go\<close>, \<^verbatim>\<open>redis.go\<close>): write-through is consistent over every
    cache with the contract \<open>kv_cache\<close>, which the in-memory cache fulfils; read-through never returns.
  \<^item> \<open>RedisLock\<close> (\<^verbatim>\<open>redis_lock.go\<close>, \<^verbatim>\<open>retry.go\<close>, \<^verbatim>\<open>lua\<close>): mutual exclusion with lost messages; retrying ends.

  \<^bold>\<open>Multiplexed RPC\<close> (\<^verbatim>\<open>micro/net\<close>). A client picks a node, takes a stream from the pool of the node and
  exchanges frames with the server.
  \<^item> \<open>Frame\<close> (\<^verbatim>\<open>frame.go\<close>, \<^verbatim>\<open>common.go\<close>): frames survive the wire, what is decoded was on the wire, and both
    encoders write the same bytes.
  \<^item> \<open>Endpoint\<close> and \<open>NetBalancer\<close> (\<^verbatim>\<open>endpoint.go\<close>, \<^verbatim>\<open>balancer.go\<close>): address lists print and parse; the
    weighted strategy is fair. The strategies share the contract \<open>balancer\<close>.
  \<^item> \<open>NetStream\<close> and \<open>StreamPool\<close> (\<^verbatim>\<open>stream.go\<close>, \<^verbatim>\<open>pool.go\<close>): a waiting call is registered or has its own
    result, a closed stream releases its calls, the pool keeps its limit and leaks no stream.
  \<^item> \<open>NetOptions\<close>, \<open>NetClient\<close> and \<open>NetServer\<close> (\<^verbatim>\<open>options.go\<close>, \<^verbatim>\<open>client.go\<close>, \<^verbatim>\<open>server.go\<close>, \<^verbatim>\<open>handler.go\<close>): a call
    ends after a bounded number of attempts; the server answers every request once.

  \<^bold>\<open>Other microservice packages\<close> (\<^verbatim>\<open>micro\<close>).
  \<^item> \<open>ConnPool\<close>, \<open>ConnPoolSafe\<close> and \<open>ConnPoolClose\<close> (\<^verbatim>\<open>pool/pool.go\<close>): capacity, exclusive use, and closing of
    all connections, under every interleaving.
  \<^item> \<open>RpcMessage\<close> and \<open>RpcCall\<close> (\<^verbatim>\<open>rpc\<close>): requests and responses survive the wire if they arrive in one
    segment, a call from end to end delivers argument and result, and which requests end the server.
  \<^item> \<open>GrpcBalance\<close> (\<^verbatim>\<open>loadBalance\<close>, \<^verbatim>\<open>route\<close>): the pickers for gRPC; round robin is fair, while the smooth
    weighted, weighted random and routing pickers are shown not to do what they are for.
  \<^item> \<open>MicroRegistry\<close> (\<^verbatim>\<open>registry\<close>, \<^verbatim>\<open>grpc_resolver.go\<close>, \<^verbatim>\<open>server.go\<close>, \<^verbatim>\<open>client.go\<close>): the resolver lists the
    registered instances.

  \<^bold>\<open>Bounds and fuel.\<close> Two loops have fuel. That of \<open>chunk_loop\<close> is the length of the list, of which every
  pass takes an element. That of \<open>sizeOf\<close> counts the objects it enters; as many as there are addresses
  are enough, and more change nothing. \<open>make_room\<close>, \<open>Lock_loop\<close>, \<open>handleConn\<close> and \<open>ReadThrough_Get\<close> are
  partial functions in which \<open>None\<close> is a call that does not return. The first is shown to return from
  every reachable state, the second for the fixed strategy, the third for the runs of the theorems about
  calls, and the last never to return. Token counts are rationals where the code has \<^verbatim>\<open>float64\<close>; the
  counters of the connection pool are unbounded; times are integers.

  \<^bold>\<open>Not modelled.\<close> Listening, TLS, signals and dialling are input and output. Cookies, multipart forms,
  tracing (\<^verbatim>\<open>opentelemetry\<close> of web and mapper), opening a database and the codecs of \<^verbatim>\<open>rpc\<close> (JSON, protobuf,
  gzip) only call libraries; loggers and metrics do nothing by default. Of the reflection in \<^verbatim>\<open>rpc\<close> the
  check of the service type is left out, of the registry the lease and the registration of a watch.
  Refreshing the nodes of a client during a call, deadlines of connections, and interference in the
  compare-and-swap of the weighted strategy are left out. The code generator \<^verbatim>\<open>orm/gen\<close> is a tool outside
  of the framework; \<^verbatim>\<open>micro/proto/gen\<close> and \<^verbatim>\<open>cache/mocks\<close> are generated; \<^verbatim>\<open>simpleStruct.go\<close>, \<^verbatim>\<open>user_service.go\<close>
  and \<^verbatim>\<open>src/test\<close> serve tests and experiments.
\<close>

end
